(* ===== verification/Prelude.thy ===== *)
theory Prelude
  imports Complex_Main "HOL-Library.AList"
begin

text \<open>
  Shared vocabulary of the development: JSON values and Python dictionaries, the
  application's exceptions, the state-and-exception monad every effectful function of the
  service is written in, and the few string operations of the Python standard library that
  the service calls. The collections \<open>monad_simps\<close> and \<open>dict_simps\<close> carry the facts the
  component theories unfold most.
\<close>

named_theorems monad_simps
named_theorems dict_simps

section \<open>JSON values and dictionaries\<close>

text \<open>
  Step configurations, trigger payloads, contexts and outputs are JSON documents (JSONB
  columns). A number with a fraction is a rational: JSONB stores neither NaN nor an
  infinity, so every float that reaches the code from a stored document is one.
  A Python \<open>dict\<close> keeps its insertion order: it is an association list with one entry
  per key, written with \<open>dict_set\<close> and read with \<open>map_of\<close>.
\<close>

datatype json =
    JNull
  | JBool bool
  | JInt int
  | JFloat rat
  | JStr string
  | JList "json list"
  | JObj "(string \<times> json) list"

type_synonym dict = "(string \<times> json) list"

definition dict_set :: "'k \<Rightarrow> 'v \<Rightarrow> ('k \<times> 'v) list \<Rightarrow> ('k \<times> 'v) list" where
  "dict_set k v d = AList.update k v d"

definition dict_get :: "('k \<times> 'v) list \<Rightarrow> 'k \<Rightarrow> 'v \<Rightarrow> 'v" where
  "dict_get d k v = (case map_of d k of None \<Rightarrow> v | Some x \<Rightarrow> x)"

definition dict_update :: "('k \<times> 'v) list \<Rightarrow> ('k \<times> 'v) list \<Rightarrow> ('k \<times> 'v) list" where
  "dict_update d e = fold (\<lambda>(k, v). dict_set k v) e d"

lemma map_of_dict_set [simp]: "map_of (dict_set k v d) = (map_of d)(k \<mapsto> v)"
  by (simp add: dict_set_def update_conv')

lemma dict_set_Nil [simp]: "dict_set k v [] = [(k, v)]"
  by (simp add: dict_set_def)

lemma dict_set_Cons [dict_simps]:
  "dict_set k v (p # d) = (if fst p = k then (k, v) # d else p # dict_set k v d)"
  by (cases p) (simp add: dict_set_def)

lemma dict_set_nonempty [simp]: "dict_set k v d \<noteq> []"
  by (simp add: dict_set_def)

lemma keys_dict_set: "fst ` set (dict_set k v d) = insert k (fst ` set d)"
  by (simp add: dict_set_def dom_update)

lemma distinct_dict_set:
  "distinct (map fst d) \<Longrightarrow> distinct (map fst (dict_set k v d))"
  by (simp add: dict_set_def distinct_update)

lemma map_fst_dict_set:
  "map fst (dict_set k v d) = (if k \<in> set (map fst d) then map fst d else map fst d @ [k])"
  by (induction d) (auto simp: dict_set_Cons)

lemma dict_set_fresh: "k \<notin> fst ` set d \<Longrightarrow> dict_set k v d = d @ [(k, v)]"
  by (induction d) (auto simp: dict_set_Cons)

lemma dict_get_set [simp]: "dict_get (dict_set k v d) k x = v"
  by (simp add: dict_get_def)

lemma dict_get_set_other [simp]: "j \<noteq> k \<Longrightarrow> dict_get (dict_set k v d) j x = dict_get d j x"
  by (simp add: dict_get_def)

lemma map_of_dict_update [simp]: "map_of (dict_update d e) = map_of d ++ map_of (rev e)"
proof -
  have "map_of (fold (\<lambda>(k, v). dict_set k v) e d) = map_of d ++ map_of (rev e)"
    by (induction e arbitrary: d) (auto simp: map_add_def fun_eq_iff split: option.splits)
  then show ?thesis by (simp add: dict_update_def)
qed

section \<open>Exceptions\<close>

text \<open>
  \<open>AppError\<close> is the service's own exception (\<open>src/lib/utils.py\<close>): code, message, HTTP
  status and details. Every other exception that can be raised inside the modelled code is
  a \<open>PyError\<close> with the name of its class and its message. \<open>str(exc)\<close> is the message.
\<close>

datatype exn =
    AppError (app_code: string) (app_message: string) (app_status: int) (app_details: "json list")
  | PyError string string

fun exn_str :: "exn \<Rightarrow> string" where
  "exn_str (AppError c m s d) = m"
| "exn_str (PyError c m) = m"

section \<open>State and exceptions\<close>

text \<open>
  A function with effects takes the state and returns a result or an exception together
  with the new state. The state is returned on both paths: what was flushed before an
  exception was raised stays in the session until the caller commits or rolls back.
\<close>

type_synonym ('w, 'a) proc = "'w \<Rightarrow> (exn + 'a) \<times> 'w"

definition ret :: "'a \<Rightarrow> ('w, 'a) proc" where
  "ret x w = (Inr x, w)"

definition raise :: "exn \<Rightarrow> ('w, 'a) proc" where
  "raise e w = (Inl e, w)"

definition lift_result :: "exn + 'a \<Rightarrow> ('w, 'a) proc" where
  "lift_result r w = (r, w)"

definition andthen :: "('w, 'a) proc \<Rightarrow> ('a \<Rightarrow> ('w, 'b) proc) \<Rightarrow> ('w, 'b) proc" where
  "andthen m k w = (case m w of (Inl e, w') \<Rightarrow> (Inl e, w') | (Inr x, w') \<Rightarrow> k x w')"

definition on_error :: "('w, 'a) proc \<Rightarrow> (exn \<Rightarrow> ('w, 'a) proc) \<Rightarrow> ('w, 'a) proc" where
  "on_error m h w = (case m w of (Inl e, w') \<Rightarrow> h e w' | (Inr x, w') \<Rightarrow> (Inr x, w'))"

definition modify :: "('w \<Rightarrow> 'w) \<Rightarrow> ('w, unit) proc" where
  "modify f w = (Inr (), f w)"

lemma ret_run [simp, monad_simps]: "ret x w = (Inr x, w)"
  by (simp add: ret_def)

lemma raise_run [simp, monad_simps]: "raise e w = (Inl e, w)"
  by (simp add: raise_def)

lemma lift_result_run [simp, monad_simps]: "lift_result r w = (r, w)"
  by (simp add: lift_result_def)

lemma modify_run [simp, monad_simps]: "modify f w = (Inr (), f w)"
  by (simp add: modify_def)

lemma andthen_Inr: "m w = (Inr x, w') \<Longrightarrow> andthen m k w = k x w'"
  by (simp add: andthen_def)

lemma andthen_Inl: "m w = (Inl e, w') \<Longrightarrow> andthen m k w = (Inl e, w')"
  by (simp add: andthen_def)

lemma andthen_ret [simp]: "andthen (ret x) k = k x"
  by (simp add: andthen_def fun_eq_iff)

lemma andthen_raise [simp]: "andthen (raise e) k = raise e"
  by (simp add: andthen_def fun_eq_iff)

lemma andthen_modify [simp]: "andthen (modify f) k w = k () (f w)"
  by (simp add: andthen_def)

lemma andthenE:
  assumes "andthen m k w = (r, w')"
  obtains (err) e where "m w = (Inl e, w')" "r = Inl e"
    | (ok) x v where "m w = (Inr x, v)" "k x v = (r, w')"
  using assms by (auto simp: andthen_def split: prod.splits sum.splits)

lemma andthen_InrE:
  assumes "andthen m k w = (Inr y, w')"
  obtains x v where "m w = (Inr x, v)" "k x v = (Inr y, w')"
  using assms by (auto simp: andthen_def split: prod.splits sum.splits)

definition sum_bind :: "'e + 'a \<Rightarrow> ('a \<Rightarrow> 'e + 'b) \<Rightarrow> 'e + 'b" where
  "sum_bind r k = (case r of Inl e \<Rightarrow> Inl e | Inr x \<Rightarrow> k x)"

lemma sum_bind_simps [simp, monad_simps]:
  "sum_bind (Inl e) k = Inl e"
  "sum_bind (Inr x) k = k x"
  by (simp_all add: sum_bind_def)

lemma sum_bind_Inr_iff: "sum_bind r k = Inr y \<longleftrightarrow> (\<exists>x. r = Inr x \<and> k x = Inr y)"
  by (cases r) auto

lemma sum_bind_Inl_iff:
  "sum_bind r k = Inl e \<longleftrightarrow> r = Inl e \<or> (\<exists>x. r = Inr x \<and> k x = Inl e)"
  by (cases r) auto

text \<open>A loop that raises at the first failing element, as a \<open>for\<close> with a check does.\<close>

fun check_all :: "('a \<Rightarrow> exn + unit) \<Rightarrow> 'a list \<Rightarrow> exn + unit" where
  "check_all f [] = Inr ()"
| "check_all f (x # xs) = sum_bind (f x) (\<lambda>_. check_all f xs)"

lemma check_all_Inr_iff: "check_all f xs = Inr () \<longleftrightarrow> (\<forall>x\<in>set xs. f x = Inr ())"
  by (induction xs) (auto simp: sum_bind_Inr_iff)

lemma check_all_Inl_iff:
  "check_all f xs = Inl e \<longleftrightarrow>
    (\<exists>ys x zs. xs = ys @ x # zs \<and> (\<forall>y\<in>set ys. f y = Inr ()) \<and> f x = Inl e)"
proof (induction xs)
  case Nil
  then show ?case by simp
next
  case (Cons a xs)
  show ?case
  proof (cases "f a")
    case (Inl d)
    then show ?thesis
      by (auto simp: Cons_eq_append_conv intro: exI [of _ "[]"])
  next
    case (Inr u)
    then have "check_all f (a # xs) = Inl e \<longleftrightarrow> check_all f xs = Inl e" by simp
    also have "\<dots> \<longleftrightarrow> (\<exists>ys x zs. xs = ys @ x # zs \<and> (\<forall>y\<in>set ys. f y = Inr ()) \<and> f x = Inl e)"
      by (rule Cons.IH)
    also have "\<dots> \<longleftrightarrow> (\<exists>ys x zs. a # xs = ys @ x # zs \<and> (\<forall>y\<in>set ys. f y = Inr ()) \<and> f x = Inl e)"
      (is "?L \<longleftrightarrow> ?R")
    proof
      assume ?L
      then obtain ys x zs where *: "xs = ys @ x # zs" "\<forall>y\<in>set ys. f y = Inr ()" "f x = Inl e"
        by blast
      have "a # xs = (a # ys) @ x # zs" "\<forall>y\<in>set (a # ys). f y = Inr ()"
        using * Inr by simp_all
      then show ?R using *(3) by blast
    next
      assume ?R
      then obtain ys x zs where *: "a # xs = ys @ x # zs" "\<forall>y\<in>set ys. f y = Inr ()" "f x = Inl e"
        by blast
      from *(1,3) Inr obtain ys' where "ys = a # ys'" by (cases ys) auto
      with * show ?L by auto
    qed
    finally show ?thesis .
  qed
qed

section \<open>Strings\<close>

text \<open>
  The modelled strings are lists of characters with code points below 256.
  \<open>py_lower\<close> and \<open>py_strip\<close> are \<open>str.lower\<close> and \<open>str.strip\<close>; the letters
  outside ASCII that \<open>str.lower\<close> would also change never turn a string into one of the
  ASCII words the service compares against.
\<close>

definition char_lower :: "char \<Rightarrow> char" where
  "char_lower c = (let n = of_char c :: nat in if 65 \<le> n \<and> n \<le> 90 then char_of (n + 32) else c)"

definition py_lower :: "string \<Rightarrow> string" where
  "py_lower s = map char_lower s"

definition char_upper :: "char \<Rightarrow> char" where
  "char_upper c = (let n = of_char c :: nat in if 97 \<le> n \<and> n \<le> 122 then char_of (n - 32) else c)"

definition py_upper :: "string \<Rightarrow> string" where
  "py_upper s = map char_upper s"

definition is_space :: "char \<Rightarrow> bool" where
  "is_space c =
    (let n = of_char c :: nat
     in (9 \<le> n \<and> n \<le> 13) \<or> (28 \<le> n \<and> n \<le> 32) \<or> n = 133 \<or> n = 160)"

definition py_strip :: "string \<Rightarrow> string" where
  "py_strip s = rev (dropWhile is_space (rev (dropWhile is_space s)))"

fun starts_with :: "string \<Rightarrow> string \<Rightarrow> bool" where
  "starts_with s [] = True"
| "starts_with [] (p # ps) = False"
| "starts_with (c # s) (p # ps) = (c = p \<and> starts_with s ps)"

text \<open>\<open>int(text)\<close> with base 10: blanks around it, a sign, and single underscores between digits.\<close>

fun int_digits :: "bool \<Rightarrow> nat \<Rightarrow> string \<Rightarrow> nat option" where
  "int_digits digit acc [] = (if digit then Some acc else None)"
| "int_digits digit acc (c # cs) =
    (let n = of_char c :: nat
     in if c = CHR ''_'' then if digit then int_digits False acc cs else None
        else if 48 \<le> n \<and> n \<le> 57 then int_digits True (acc * 10 + (n - 48)) cs else None)"

definition py_int10 :: "string \<Rightarrow> int option" where
  "py_int10 s =
    (let t = py_strip s; negative = starts_with t ''-'';
         u = (if negative \<or> starts_with t ''+'' then tl t else t)
     in map_option (\<lambda>n. if negative then - int n else int n) (int_digits False 0 u))"

lemma starts_with_iff: "starts_with s p \<longleftrightarrow> (\<exists>t. s = p @ t)"
  by (induction s p rule: starts_with.induct) auto

fun contains :: "string \<Rightarrow> string \<Rightarrow> bool" where
  "contains p [] = (p = [])"
| "contains p (c # s) = (starts_with (c # s) p \<or> contains p s)"

lemma contains_iff: "contains p s \<longleftrightarrow> (\<exists>a b. s = a @ p @ b)"
proof (induction s)
  case Nil
  then show ?case by simp
next
  case (Cons c s)
  show ?case
  proof
    assume "contains p (c # s)"
    then consider "starts_with (c # s) p" | "contains p s" by auto
    then show "\<exists>a b. c # s = a @ p @ b"
    proof cases
      case 1
      then show ?thesis by (metis append_Nil starts_with_iff)
    next
      case 2
      then show ?thesis using Cons.IH by (metis append_Cons)
    qed
  next
    assume "\<exists>a b. c # s = a @ p @ b"
    then obtain a b where ab: "c # s = a @ p @ b" by blast
    show "contains p (c # s)"
    proof (cases a)
      case Nil
      with ab have "starts_with (c # s) p" by (auto simp: starts_with_iff)
      then show ?thesis by simp
    next
      case (Cons d a')
      with ab have "contains p s" using Cons.IH by auto
      then show ?thesis by simp
    qed
  qed
qed

fun string_of_nat :: "nat \<Rightarrow> string" where
  "string_of_nat n =
    (if n < 10 then [char_of (48 + n)] else string_of_nat (n div 10) @ [char_of (48 + n mod 10)])"

declare string_of_nat.simps [simp del]

definition string_of_int :: "int \<Rightarrow> string" where
  "string_of_int i = (if i < 0 then ''-'' @ string_of_nat (nat (- i)) else string_of_nat (nat i))"

fun join :: "string \<Rightarrow> string list \<Rightarrow> string" where
  "join sep [] = []"
| "join sep [s] = s"
| "join sep (s # t # ss) = s @ sep @ join sep (t # ss)"

text \<open>The text between single quotes, as the f-strings of the messages write it.\<close>

definition quoted :: "string \<Rightarrow> string" where
  "quoted s = CHR 0x27 # s @ [CHR 0x27]"

text \<open>Python truthiness of a JSON value: \<open>if not value\<close>.\<close>

fun py_truthy :: "json \<Rightarrow> bool" where
  "py_truthy JNull = False"
| "py_truthy (JBool b) = b"
| "py_truthy (JInt i) = (i \<noteq> 0)"
| "py_truthy (JFloat q) = (q \<noteq> 0)"
| "py_truthy (JStr s) = (s \<noteq> [])"
| "py_truthy (JList xs) = (xs \<noteq> [])"
| "py_truthy (JObj d) = (d \<noteq> [])"

text \<open>The class name Python gives a decoded JSON value, as it appears in messages.\<close>

fun py_type_name :: "json \<Rightarrow> string" where
  "py_type_name JNull = ''NoneType''"
| "py_type_name (JBool b) = ''bool''"
| "py_type_name (JInt i) = ''int''"
| "py_type_name (JFloat q) = ''float''"
| "py_type_name (JStr s) = ''str''"
| "py_type_name (JList xs) = ''list''"
| "py_type_name (JObj d) = ''dict''"

section \<open>Lists\<close>

lemma find_append: "List.find P (xs @ ys) = (case List.find P xs of Some x \<Rightarrow> Some x | None \<Rightarrow> List.find P ys)"
  by (induction xs) auto

lemma find_SomeD: "List.find P xs = Some x \<Longrightarrow> x \<in> set xs \<and> P x"
  by (induction xs) (auto split: if_splits)

lemma find_map_update:
  assumes "\<And>r. key (f r) = key r"
  shows "List.find (\<lambda>r. key r = j) (map (\<lambda>r. if key r = i then f r else r) rs)
    = (if j = i then map_option f (List.find (\<lambda>r. key r = j) rs) else List.find (\<lambda>r. key r = j) rs)"
  by (induction rs) (auto simp: assms)

lemma find_map_key:
  assumes "\<And>r. key (f r) = key r"
  shows "List.find (\<lambda>r. key r = j) (map f rs) = map_option f (List.find (\<lambda>r. key r = j) rs)"
  by (induction rs) (simp_all add: assms)

lemma find_distinct:
  "distinct (map key xs) \<Longrightarrow> x \<in> set xs \<Longrightarrow> List.find (\<lambda>r. key r = key x) xs = Some x"
  by (induction xs) (auto simp: rev_image_eqI)

end
