(* ===== verification/Codecs.thy ===== *)
theory Codecs
  imports Prelude
begin

text \<open>
  Values that travel as text. The locale \<open>text_codec\<close> is the contract of a printer and its
  reader, \<open>delimited_pair\<close> that of two codecs joined by a separator the first never prints,
  as the pagination cursors are. The section on base64 is the standard library's URL-safe
  encoding and its reader, which skips characters outside the alphabet.
\<close>

section \<open>The contract\<close>

locale text_codec =
  fixes print :: "'a \<Rightarrow> string" and parse :: "string \<Rightarrow> 'a option" and valid :: "'a \<Rightarrow> bool"
  assumes parse_print: "valid x \<Longrightarrow> parse (print x) = Some x"
begin

lemma print_inj: "valid x \<Longrightarrow> valid y \<Longrightarrow> print x = print y \<longleftrightarrow> x = y"
  by (metis parse_print option.inject)

end

text \<open>\<open>s.split(sep, 1)\<close> with a separator of one character.\<close>

fun split_once :: "char \<Rightarrow> string \<Rightarrow> string \<times> string option" where
  "split_once sep [] = ([], None)"
| "split_once sep (c # cs) =
    (if c = sep then ([], Some cs) else case split_once sep cs of (a, b) \<Rightarrow> (c # a, b))"

lemma split_once_join: "sep \<notin> set a \<Longrightarrow> split_once sep (a @ sep # b) = (a, Some b)"
  by (induction a) auto

locale delimited_pair = left: text_codec lprint lparse lvalid + right: text_codec rprint rparse rvalid
  for lprint :: "'a \<Rightarrow> string" and lparse lvalid and rprint :: "'b \<Rightarrow> string" and rparse rvalid +
  fixes sep :: char
  assumes sep_absent: "lvalid x \<Longrightarrow> sep \<notin> set (lprint x)"
begin

definition print_pair :: "'a \<times> 'b \<Rightarrow> string" where
  "print_pair p = lprint (fst p) @ sep # rprint (snd p)"

definition parse_pair :: "string \<Rightarrow> ('a \<times> 'b) option" where
  "parse_pair s =
    (case split_once sep s of
       (a, Some b) \<Rightarrow> (case (lparse a, rparse b) of (Some x, Some y) \<Rightarrow> Some (x, y) | _ \<Rightarrow> None)
     | (a, None) \<Rightarrow> None)"

lemma parse_print_pair: "lvalid (fst p) \<Longrightarrow> rvalid (snd p) \<Longrightarrow> parse_pair (print_pair p) = Some p"
  by (simp add: parse_pair_def print_pair_def split_once_join sep_absent left.parse_print right.parse_print)

end

section \<open>ASCII\<close>

definition is_ascii :: "string \<Rightarrow> bool" where
  "is_ascii s = list_all (\<lambda>c. (of_char c :: nat) < 128) s"

section \<open>Base64\<close>

definition base64_char :: "nat \<Rightarrow> char" where
  "base64_char v =
    (if v < 26 then char_of (65 + v) else if v < 52 then char_of (71 + v)
     else if v < 62 then char_of (v - 4) else if v = 62 then CHR ''-'' else CHR 0x5F)"

fun base64_encode :: "string \<Rightarrow> string" where
  "base64_encode [] = []"
| "base64_encode [a] =
    (let x = of_char a :: nat
     in [base64_char (x div 4), base64_char (x mod 4 * 16), CHR ''='', CHR ''=''])"
| "base64_encode [a, b] =
    (let x = of_char a :: nat; y = of_char b
     in [base64_char (x div 4), base64_char (x mod 4 * 16 + y div 16), base64_char (y mod 16 * 4), CHR ''=''])"
| "base64_encode (a # b # c # cs) =
    (let x = of_char a :: nat; y = of_char b; z = of_char c
     in base64_char (x div 4) # base64_char (x mod 4 * 16 + y div 16) #
        base64_char (y mod 16 * 4 + z div 64) # base64_char (z mod 64) # base64_encode cs)"

text \<open>
  The URL-safe reader first turns \<open>-\<close> and \<open>_\<close> into \<open>+\<close> and \<open>/\<close>, so it reads both alphabets.
\<close>

definition base64_value :: "char \<Rightarrow> nat option" where
  "base64_value c =
    (let n = of_char c :: nat
     in if 65 \<le> n \<and> n \<le> 90 then Some (n - 65) else if 97 \<le> n \<and> n \<le> 122 then Some (n - 71)
        else if 48 \<le> n \<and> n \<le> 57 then Some (n + 4) else if n = 43 \<or> n = 45 then Some 62
        else if n = 47 \<or> n = 95 then Some 63 else None)"

text \<open>
  The reader keeps its position in the quad, the bits left over and the padding seen since
  the last character of the alphabet. A complete padding ends the text; an incomplete quad at
  the end is an error.
\<close>

fun base64_read :: "nat \<Rightarrow> nat \<Rightarrow> nat \<Rightarrow> string \<Rightarrow> string option" where
  "base64_read quad left pads [] = (if quad = 0 then Some [] else None)"
| "base64_read quad left pads (c # cs) =
    (if c = CHR ''='' then
       if 2 \<le> quad then if 4 \<le> quad + (pads + 1) then Some [] else base64_read quad left (pads + 1) cs
       else base64_read quad left pads cs
     else case base64_value c of
       None \<Rightarrow> base64_read quad left pads cs
     | Some v \<Rightarrow>
         if quad = 0 then base64_read 1 v 0 cs
         else if quad = 1 then map_option ((#) (char_of (left * 4 + v div 16))) (base64_read 2 (v mod 16) 0 cs)
         else if quad = 2 then map_option ((#) (char_of (left * 16 + v div 4))) (base64_read 3 (v mod 4) 0 cs)
         else map_option ((#) (char_of (left * 64 + v))) (base64_read 0 0 0 cs))"

definition base64_decode :: "string \<Rightarrow> string option" where
  "base64_decode s = base64_read 0 0 0 s"

lemma base64_value_char: "v < 64 \<Longrightarrow> base64_value (base64_char v) = Some v"
  by (auto simp: base64_value_def base64_char_def Let_def of_char_of take_bit_eq_mod)

lemma base64_char_pad: "v < 64 \<Longrightarrow> base64_char v \<noteq> CHR ''=''"
  using base64_value_char [of v] by (auto simp: base64_value_def)

lemma of_char_bound: "of_char c < (256 :: nat)"
  by (metis nat_of_char_less_256)

lemma base64_read_char:
  "v < 64 \<Longrightarrow> base64_read quad left pads (base64_char v # cs) =
    (if quad = 0 then base64_read 1 v 0 cs
     else if quad = 1 then map_option ((#) (char_of (left * 4 + v div 16))) (base64_read 2 (v mod 16) 0 cs)
     else if quad = 2 then map_option ((#) (char_of (left * 16 + v div 4))) (base64_read 3 (v mod 4) 0 cs)
     else map_option ((#) (char_of (left * 64 + v))) (base64_read 0 0 0 cs))"
  by (simp add: base64_value_char base64_char_pad)

text \<open>The six-bit groups of three bytes, and the bytes back from the groups.\<close>

lemma base64_groups:
  fixes x y z :: nat
  assumes "x < 256" "y < 256" "z < 256"
  shows "x div 4 < 64" "x mod 4 * 16 + y div 16 < 64" "y mod 16 * 4 + z div 64 < 64" "z mod 64 < 64"
    "(x mod 4 * 16 + y div 16) div 16 = x mod 4" "(x mod 4 * 16 + y div 16) mod 16 = y div 16"
    "(y mod 16 * 4 + z div 64) div 4 = y mod 16" "(y mod 16 * 4 + z div 64) mod 4 = z div 64"
    "y div 16 mod 16 = y div 16" "z div 64 mod 4 = z div 64"
  using assms by auto

lemma base64_bytes:
  "char_of ((of_char a :: nat) div 4 * 4 + of_char a mod 4) = a"
  "char_of ((of_char a :: nat) div 16 * 16 + of_char a mod 16) = a"
  "char_of ((of_char a :: nat) div 64 * 64 + of_char a mod 64) = a"
  by simp_all

lemma base64_read_encode: "base64_read 0 0 0 (base64_encode s) = Some s"
proof (induction s rule: base64_encode.induct)
  case 1
  show ?case by simp
next
  case (2 a)
  note g = base64_groups [OF of_char_bound [of a], of 0 0, simplified]
  show ?case by (simp add: Let_def base64_read_char g del: base64_read.simps(2)) (simp add: base64_bytes)
next
  case (3 a b)
  note g = base64_groups [OF of_char_bound [of a] of_char_bound [of b], of 0, simplified]
  show ?case by (simp add: Let_def base64_read_char g del: base64_read.simps(2)) (simp add: base64_bytes)
next
  case (4 a b c cs)
  note g = base64_groups [OF of_char_bound [of a] of_char_bound [of b] of_char_bound [of c]]
  from 4 show ?case by (simp add: Let_def base64_read_char g base64_bytes del: base64_read.simps(2))
qed

interpretation base64: text_codec base64_encode base64_decode "\<lambda>s. True"
  by unfold_locales (simp add: base64_decode_def base64_read_encode)

end
