(* ===== verification/World.thy ===== *)
theory World
  imports Config Codecs
begin

text \<open>
  The data the service keeps: one record per ORM model of \<open>src/db/models\<close>, the tables as
  lists of rows in insertion order, the structured log, and the environment.

  An \<open>AsyncSession\<close> is the state a procedure threads: \<open>session.add\<close> with
  \<open>session.flush\<close> inserts a row or writes a changed one, \<open>select\<close> reads rows, and the
  identity map makes the object and its row one thing. The exception is the JSONB column
  \<open>context\<close>: a dictionary changed in place and assigned back to the same attribute is
  not seen as a change unless the ORM tracks mutations. Whether it does is the field
  \<open>env_tracks_mutation\<close> of the environment (SQLAlchemy documents that a plain JSON column
  does not).

  The environment holds everything the code asks of the outside: the clock, fresh UUIDs,
  the template engine, the HTTP client, the lax integer coercion of the validation library,
  random tokens, password hashes and message digests.
  Readings of the outside are numbered by \<open>w_ticks\<close>; the \<open>n\<close>-th reading of each oracle is
  its value at \<open>n\<close>, so a run is a function of the environment and the theorems hold for
  every clock, every HTTP peer and every template engine.
\<close>

section \<open>Identifiers, statuses, rows\<close>

text \<open>A UUID is its integer, a time is a number of microseconds.\<close>

type_synonym uuid = nat
type_synonym time = int

text \<open>
  A status column is free text; the code writes the seven named values only, and
  \<open>Other\<close> stands for any further text a row could hold.
\<close>

datatype status =
    Pending
  | Queued
  | Running
  | Completed
  | Failed
  | Cancelled
  | Skipped
  | Other string

fun status_str :: "status \<Rightarrow> string" where
  "status_str Pending = ''pending''"
| "status_str Queued = ''queued''"
| "status_str Running = ''running''"
| "status_str Completed = ''completed''"
| "status_str Failed = ''failed''"
| "status_str Cancelled = ''cancelled''"
| "status_str Skipped = ''skipped''"
| "status_str (Other s) = s"

record tenant =
  tn_id :: uuid
  tn_name :: string
  tn_api_key_hash :: string
  tn_api_key_prefix :: string
  tn_is_active :: bool
  tn_created_at :: time
  tn_updated_at :: time

record workflow =
  wf_id :: uuid
  wf_tenant_id :: uuid
  wf_name :: string
  wf_description :: "string option"
  wf_trigger_type :: string
  wf_trigger_config :: dict
  wf_steps :: "json list"
  wf_is_active :: bool
  wf_webhook_path :: "string option"
  wf_webhook_secret :: "string option"
  wf_created_at :: time
  wf_updated_at :: time

record execution =
  ex_id :: uuid
  ex_tenant_id :: uuid
  ex_workflow_id :: uuid
  ex_status :: status
  ex_trigger_data :: dict
  ex_context :: dict
  ex_replayed_from :: "uuid option"
  ex_started_at :: "time option"
  ex_completed_at :: "time option"
  ex_error :: "string option"
  ex_duration_ms :: "int option"
  ex_created_at :: time

record step_execution =
  se_id :: uuid
  se_tenant_id :: uuid
  se_execution_id :: uuid
  se_step_id :: string
  se_step_type :: string
  se_status :: status
  se_input_data :: dict
  se_output_data :: "dict option"
  se_error :: "string option"
  se_attempt :: int
  se_max_attempts :: int
  se_started_at :: "time option"
  se_completed_at :: "time option"
  se_duration_ms :: "int option"
  se_created_at :: time

record execution_log =
  lg_id :: uuid
  lg_tenant_id :: uuid
  lg_execution_id :: uuid
  lg_step_id :: "string option"
  lg_level :: string
  lg_message :: string
  lg_data :: dict
  lg_created_at :: time

record webhook_delivery =
  wd_id :: uuid
  wd_tenant_id :: uuid
  wd_workflow_id :: uuid
  wd_execution_id :: "uuid option"
  wd_method :: string
  wd_headers :: dict
  wd_payload :: json
  wd_source_ip :: "string option"
  wd_status :: string
  wd_rejection_reason :: "string option"
  wd_created_at :: time

text \<open>The structured log lines the engine writes when it changes something.\<close>

datatype event =
    ExecutionTransition uuid status
  | StepTransition uuid string status
  | ContextMerge uuid string
  | StepRetry uuid string int
  | StepRetriesExhausted uuid string int

record world =
  w_tenants :: "tenant list"
  w_workflows :: "workflow list"
  w_executions :: "execution list"
  w_steps :: "step_execution list"
  w_logs :: "execution_log list"
  w_deliveries :: "webhook_delivery list"
  w_events :: "event list"
  w_txn_now :: time
  w_ticks :: nat

definition empty_world :: world where
  "empty_world = \<lparr>w_tenants = [], w_workflows = [], w_executions = [], w_steps = [],
     w_logs = [], w_deliveries = [], w_events = [], w_txn_now = 0, w_ticks = 0\<rparr>"

section \<open>The environment\<close>

text \<open>Outcome of rendering a template: text, or one of the engine's exceptions.\<close>

datatype rendered =
    Rendered string
  | TemplateSyntaxError string
  | UndefinedError string
  | SecurityError string
  | RenderError string

record http_request =
  rq_method :: string
  rq_url :: string
  rq_headers :: "(string \<times> string) list"
  rq_content :: "string option"
  rq_timeout :: json

record http_response =
  rs_status_code :: int
  rs_headers :: "(string \<times> string) list"
  rs_text :: string

text \<open>
  What a request ends with: a response, or an exception of the client library (a timeout,
  another transport error, or an exception outside the library's \<open>HTTPError\<close>).
\<close>

datatype http_outcome =
    HttpResponse http_response
  | HttpTimeout string
  | HttpError string
  | HttpOther string string

record env =
  env_settings :: settings
  env_now :: "nat \<Rightarrow> time"
  env_uuid :: "nat \<Rightarrow> uuid"
  env_ms :: "int \<Rightarrow> int"
  env_render :: "json \<Rightarrow> dict \<Rightarrow> rendered"
  env_jinja_parse :: "string \<Rightarrow> string option"
  env_lax_int :: "json \<Rightarrow> int option"
  env_validation_text :: "json \<Rightarrow> string"
  env_float_repr :: "rat \<Rightarrow> string"
  env_http :: "nat \<Rightarrow> http_request \<Rightarrow> http_outcome"
  env_http_ms :: "nat \<Rightarrow> int"
  env_tracks_mutation :: bool
  env_token_hex :: "nat \<Rightarrow> string"
  env_hashpw :: "nat \<Rightarrow> string \<Rightarrow> string"
  env_checkpw :: "string \<Rightarrow> string \<Rightarrow> bool"
  env_hmac_sha256 :: "string \<Rightarrow> string \<Rightarrow> string"

text \<open>
  \<open>utc_now\<close> and \<open>generate_uuid\<close> of \<open>src/lib/utils.py\<close>, and the server default
  \<open>gen_random_uuid()\<close>.
\<close>

definition utc_now :: "env \<Rightarrow> (world, time) proc" where
  "utc_now E w = (Inr (env_now E (w_ticks w)), w\<lparr>w_ticks := Suc (w_ticks w)\<rparr>)"

definition generate_uuid :: "env \<Rightarrow> (world, uuid) proc" where
  "generate_uuid E w = (Inr (env_uuid E (w_ticks w)), w\<lparr>w_ticks := Suc (w_ticks w)\<rparr>)"

definition log_event :: "event \<Rightarrow> (world, unit) proc" where
  "log_event e = modify (\<lambda>w. w\<lparr>w_events := w_events w @ [e]\<rparr>)"

section \<open>Tables\<close>

definition find_execution :: "world \<Rightarrow> uuid \<Rightarrow> execution option" where
  "find_execution w i = List.find (\<lambda>r. ex_id r = i) (w_executions w)"

definition add_execution :: "execution \<Rightarrow> world \<Rightarrow> world" where
  "add_execution r w = w\<lparr>w_executions := w_executions w @ [r]\<rparr>"

definition upd_execution :: "uuid \<Rightarrow> (execution \<Rightarrow> execution) \<Rightarrow> world \<Rightarrow> world" where
  "upd_execution i f w =
    w\<lparr>w_executions := map (\<lambda>r. if ex_id r = i then f r else r) (w_executions w)\<rparr>"

definition find_step :: "world \<Rightarrow> uuid \<Rightarrow> step_execution option" where
  "find_step w i = List.find (\<lambda>r. se_id r = i) (w_steps w)"

definition add_step :: "step_execution \<Rightarrow> world \<Rightarrow> world" where
  "add_step r w = w\<lparr>w_steps := w_steps w @ [r]\<rparr>"

definition upd_step :: "uuid \<Rightarrow> (step_execution \<Rightarrow> step_execution) \<Rightarrow> world \<Rightarrow> world" where
  "upd_step i f w = w\<lparr>w_steps := map (\<lambda>r. if se_id r = i then f r else r) (w_steps w)\<rparr>"

definition find_workflow :: "world \<Rightarrow> uuid \<Rightarrow> workflow option" where
  "find_workflow w i = List.find (\<lambda>r. wf_id r = i) (w_workflows w)"

definition add_workflow :: "workflow \<Rightarrow> world \<Rightarrow> world" where
  "add_workflow r w = w\<lparr>w_workflows := w_workflows w @ [r]\<rparr>"

definition upd_workflow :: "uuid \<Rightarrow> (workflow \<Rightarrow> workflow) \<Rightarrow> world \<Rightarrow> world" where
  "upd_workflow i f w =
    w\<lparr>w_workflows := map (\<lambda>r. if wf_id r = i then f r else r) (w_workflows w)\<rparr>"

text \<open>A write that would repeat a value of a unique column raises.\<close>

definition integrity_error :: exn where
  "integrity_error = PyError ''IntegrityError'' ''duplicate key value violates unique constraint''"

text \<open>
  The contract of a table, as the engine uses it: reading by primary key, inserting, and
  writing a row back under its own key.
\<close>

locale row_store =
  fixes key :: "'r \<Rightarrow> uuid"
    and find :: "'d \<Rightarrow> uuid \<Rightarrow> 'r option"
    and add :: "'r \<Rightarrow> 'd \<Rightarrow> 'd"
    and upd :: "uuid \<Rightarrow> ('r \<Rightarrow> 'r) \<Rightarrow> 'd \<Rightarrow> 'd"
  assumes find_key: "find d i = Some r \<Longrightarrow> key r = i"
    and find_add: "find (add r d) i
      = (case find d i of Some x \<Rightarrow> Some x | None \<Rightarrow> if key r = i then Some r else None)"
    and find_upd: "(\<And>r. key (f r) = key r) \<Longrightarrow>
      find (upd j f d) i = (if i = j then map_option f (find d i) else find d i)"
begin

lemma find_add_old: "find d i = Some x \<Longrightarrow> find (add r d) i = Some x"
  by (simp add: find_add)

lemma find_add_new: "find d (key r) = None \<Longrightarrow> find (add r d) (key r) = Some r"
  by (simp add: find_add)

lemma find_add_other: "key r \<noteq> i \<Longrightarrow> find (add r d) i = find d i"
  by (simp add: find_add split: option.split)

lemma find_upd_same:
  "(\<And>r. key (f r) = key r) \<Longrightarrow> find d i = Some x \<Longrightarrow> find (upd i f d) i = Some (f x)"
  by (simp add: find_upd)

lemma find_upd_other:
  "(\<And>r. key (f r) = key r) \<Longrightarrow> i \<noteq> j \<Longrightarrow> find (upd j f d) i = find d i"
  by (simp add: find_upd)

lemma find_upd_None:
  "(\<And>r. key (f r) = key r) \<Longrightarrow> find (upd j f d) i = None \<longleftrightarrow> find d i = None"
  by (simp add: find_upd)

end

lemma find_case_append:
  "List.find P (xs @ [r]) = (case List.find P xs of Some x \<Rightarrow> Some x | None \<Rightarrow> if P r then Some r else None)"
  by (simp add: find_append split: option.split)

interpretation ext: row_store ex_id find_execution add_execution upd_execution
  by unfold_locales
    (auto simp: find_execution_def add_execution_def upd_execution_def find_case_append
      find_map_update [where key = ex_id] dest: find_SomeD)

interpretation stt: row_store se_id find_step add_step upd_step
  by unfold_locales
    (auto simp: find_step_def add_step_def upd_step_def find_case_append
      find_map_update [where key = se_id] dest: find_SomeD)

interpretation wft: row_store wf_id find_workflow add_workflow upd_workflow
  by unfold_locales
    (auto simp: find_workflow_def add_workflow_def upd_workflow_def find_case_append
      find_map_update [where key = wf_id] dest: find_SomeD)

text \<open>The three tables are independent of each other, of the log and of the counter.\<close>

lemma table_frame [simp]:
  "find_step (add_execution r w) i = find_step w i"
  "find_step (upd_execution j f w) i = find_step w i"
  "find_workflow (add_execution r w) i = find_workflow w i"
  "find_workflow (upd_execution j f w) i = find_workflow w i"
  "find_execution (add_step s w) i = find_execution w i"
  "find_execution (upd_step j g w) i = find_execution w i"
  "find_workflow (add_step s w) i = find_workflow w i"
  "find_workflow (upd_step j g w) i = find_workflow w i"
  "find_execution (w\<lparr>w_ticks := n\<rparr>) i = find_execution w i"
  "find_step (w\<lparr>w_ticks := n\<rparr>) i = find_step w i"
  "find_workflow (w\<lparr>w_ticks := n\<rparr>) i = find_workflow w i"
  "find_execution (w\<lparr>w_events := es\<rparr>) i = find_execution w i"
  "find_step (w\<lparr>w_events := es\<rparr>) i = find_step w i"
  "find_workflow (w\<lparr>w_events := es\<rparr>) i = find_workflow w i"
  by (simp_all add: find_execution_def find_step_def find_workflow_def add_execution_def
      upd_execution_def add_step_def upd_step_def)

lemma field_frame [simp]:
  "w_events (add_execution r w) = w_events w"
  "w_events (upd_execution j f w) = w_events w"
  "w_events (add_step s w) = w_events w"
  "w_events (upd_step j g w) = w_events w"
  "w_ticks (add_execution r w) = w_ticks w"
  "w_ticks (upd_execution j f w) = w_ticks w"
  "w_ticks (add_step s w) = w_ticks w"
  "w_ticks (upd_step j g w) = w_ticks w"
  "w_workflows (add_execution r w) = w_workflows w"
  "w_workflows (upd_execution j f w) = w_workflows w"
  "w_workflows (add_step s w) = w_workflows w"
  "w_workflows (upd_step j g w) = w_workflows w"
  "w_tenants (add_execution r w) = w_tenants w"
  "w_tenants (upd_execution j f w) = w_tenants w"
  "w_tenants (add_step s w) = w_tenants w"
  "w_tenants (upd_step j g w) = w_tenants w"
  "w_txn_now (add_execution r w) = w_txn_now w"
  "w_txn_now (upd_execution j f w) = w_txn_now w"
  "w_txn_now (add_step s w) = w_txn_now w"
  "w_txn_now (upd_step j g w) = w_txn_now w"
  by (simp_all add: add_execution_def upd_execution_def add_step_def upd_step_def)

lemma utc_now_run [monad_simps]:
  "utc_now E w = (Inr (env_now E (w_ticks w)), w\<lparr>w_ticks := Suc (w_ticks w)\<rparr>)"
  by (simp add: utc_now_def)

lemma generate_uuid_run [monad_simps]:
  "generate_uuid E w = (Inr (env_uuid E (w_ticks w)), w\<lparr>w_ticks := Suc (w_ticks w)\<rparr>)"
  by (simp add: generate_uuid_def)

lemma log_event_run [monad_simps]:
  "log_event e w = (Inr (), w\<lparr>w_events := w_events w @ [e]\<rparr>)"
  by (simp add: log_event_def)

end
