(* ===== verification/WorkflowDef.thy ===== *)
theory WorkflowDef
  imports World
begin

text \<open>
  \<open>src/engine/models.py\<close>: the models a workflow definition is parsed into. The bounds that
  the source declares on the fields are the predicates \<open>retry_ok\<close> and \<open>step_id_ok\<close>.
\<close>

datatype step_type =
    HTTP
  | TRANSFORM
  | CONDITION
  | DELAY
  | SUB_WORKFLOW

fun step_type_value :: "step_type \<Rightarrow> string" where
  "step_type_value HTTP = ''http''"
| "step_type_value TRANSFORM = ''transform''"
| "step_type_value CONDITION = ''condition''"
| "step_type_value DELAY = ''delay''"
| "step_type_value SUB_WORKFLOW = ''sub_workflow''"

definition all_step_types :: "step_type list" where
  "all_step_types = [HTTP, TRANSFORM, CONDITION, DELAY, SUB_WORKFLOW]"

definition step_type_of_value :: "string \<Rightarrow> step_type option" where
  "step_type_of_value s = List.find (\<lambda>t. step_type_value t = s) all_step_types"

record retry_config =
  rc_max_attempts :: int
  rc_delay_seconds :: int

definition retry_ok :: "retry_config \<Rightarrow> bool" where
  "retry_ok r \<longleftrightarrow> 1 \<le> rc_max_attempts r \<and> rc_max_attempts r \<le> 10 \<and>
    0 \<le> rc_delay_seconds r \<and> rc_delay_seconds r \<le> 300"

record step_definition =
  sd_id :: string
  sd_type :: step_type
  sd_config :: dict
  sd_depends_on :: "string list"
  sd_retry :: "retry_config option"

definition step_id_ok :: "string \<Rightarrow> bool" where
  "step_id_ok s \<longleftrightarrow> 1 \<le> length s \<and> length s \<le> 100"

record workflow_definition =
  wfd_name :: string
  wfd_trigger_type :: string
  wfd_steps :: "step_definition list"
  wfd_dependency_graph :: "(string \<times> string list) list"

lemma step_type_value_inj: "step_type_value s = step_type_value t \<longleftrightarrow> s = t"
  by (cases s; cases t) simp_all

lemma step_type_of_value_of [simp]: "step_type_of_value (step_type_value t) = Some t"
  by (cases t) (simp_all add: step_type_of_value_def all_step_types_def)

lemma step_type_of_value_Some: "step_type_of_value s = Some t \<Longrightarrow> step_type_value t = s"
  by (auto simp: step_type_of_value_def dest: find_SomeD)

lemma in_all_step_types [simp]: "t \<in> set all_step_types"
  by (cases t) (simp_all add: all_step_types_def)

end
