(* ===== verification/Graph.thy ===== *)
theory Graph
  imports WorkflowDef
begin

text \<open>
  \<open>src/engine/graph.py\<close>, first half: the dependency graph of a workflow and the detection
  of cycles by a depth-first search with colours. A graph is the dictionary the code builds,
  from a step to the list of steps it depends on; the search walks it backwards, from a step
  to the steps that depend on it. The search is a pair of mutually recursive functions whose
  termination rests on the shrinking set of white nodes; the reconstruction of the reported
  cycle is a loop that may, for arbitrary parent pointers, run forever, and is shown to
  return for those the search builds.
\<close>

section \<open>The graph\<close>

type_synonym graph = "(string \<times> string list) list"

definition build_dependency_graph :: "step_definition list \<Rightarrow> graph" where
  "build_dependency_graph steps = fold (\<lambda>step g. dict_set (sd_id step) (sd_depends_on step) g) steps []"

definition add_child :: "string \<Rightarrow> string \<Rightarrow> (string \<times> string list) list \<Rightarrow> (string \<times> string list) list" where
  "add_child node dep ch = dict_set dep (dict_get ch dep [] @ [node]) ch"

definition children_of :: "graph \<Rightarrow> (string \<times> string list) list" where
  "children_of g = fold (\<lambda>(node, deps) ch. fold (add_child node) deps ch) g []"

text \<open>The edges of the search, from a dependency to its dependents.\<close>

definition edges :: "graph \<Rightarrow> (string \<times> string) set" where
  "edges g = {(dep, node). \<exists>deps. (node, deps) \<in> set g \<and> dep \<in> set deps}"

lemma fold_add_child_get:
  "dict_get (fold (add_child node) deps ch) u [] =
    dict_get ch u [] @ replicate (count_list deps u) node"
proof (induction deps arbitrary: ch)
  case Nil
  then show ?case by simp
next
  case (Cons d deps)
  have "dict_get (add_child node d ch) u [] = dict_get ch u [] @ (if d = u then [node] else [])"
    by (auto simp: add_child_def)
  with Cons show ?case by simp
qed

lemma children_of_aux:
  "dict_get (fold (\<lambda>(node, deps) ch. fold (add_child node) deps ch) g ch) u [] =
    dict_get ch u [] @ concat (map (\<lambda>(node, deps). replicate (count_list deps u) node) g)"
  by (induction g arbitrary: ch) (auto simp: fold_add_child_get)

lemma children_of_get:
  "dict_get (children_of g) u [] =
    concat (map (\<lambda>(node, deps). replicate (count_list deps u) node) g)"
  unfolding children_of_def by (subst children_of_aux) (simp add: dict_get_def)

lemma children_of_edges: "v \<in> set (dict_get (children_of g) u []) \<longleftrightarrow> (u, v) \<in> edges g"
  by (auto simp: children_of_get edges_def count_list_0_iff dest: split_list
      intro!: rev_bexI)

lemma edges_target: "(u, v) \<in> edges g \<Longrightarrow> v \<in> fst ` set g"
  by (force simp: edges_def)

section \<open>The depth-first search\<close>

datatype color = White | Gray | Black

record dfs_state =
  color_of :: "(string \<times> color) list"
  parent_of :: "(string \<times> string option) list"

partial_function (option) climb ::
  "(string \<times> string option) list \<Rightarrow> string \<Rightarrow> string \<Rightarrow> string list \<Rightarrow> string list option" where
  "climb parent to_node current path =
    (if current = to_node then Some path
     else (case dict_get parent current (Some to_node) of
             None \<Rightarrow> Some (path @ [current])
           | Some next \<Rightarrow> climb parent to_node next (path @ [current])))"

declare climb.simps [code]

definition reconstruct_cycle ::
  "(string \<times> string option) list \<Rightarrow> string \<Rightarrow> string \<Rightarrow> string list option" where
  "reconstruct_cycle parent from_node to_node =
    map_option (\<lambda>path. rev (path @ [to_node])) (climb parent to_node from_node [to_node])"

text \<open>
  The search returns the state and, when a gray node is met, the reconstructed cycle
  (\<open>Some None\<close> would be a reconstruction that does not return).
\<close>

function dfs :: "(string \<times> string list) list \<Rightarrow> dfs_state \<Rightarrow> string \<Rightarrow> dfs_state \<times> string list option option"
  and dfs_children :: "(string \<times> string list) list \<Rightarrow> dfs_state \<Rightarrow> string \<Rightarrow> string list \<Rightarrow>
    dfs_state \<times> string list option option"
where
  "dfs children st node =
    (case dfs_children children (st\<lparr>color_of := dict_set node Gray (color_of st)\<rparr>) node
            (dict_get children node []) of
       (st', Some cycle) \<Rightarrow> (st', Some cycle)
     | (st', None) \<Rightarrow> (st'\<lparr>color_of := dict_set node Black (color_of st')\<rparr>, None))"
| "dfs_children children st node [] = (st, None)"
| "dfs_children children st node (child # rest) =
    (if map_of (color_of st) child = Some Gray then
       (st, Some (reconstruct_cycle (parent_of st) node child))
     else if map_of (color_of st) child = Some White then
       (case dfs children (st\<lparr>parent_of := dict_set child (Some node) (parent_of st)\<rparr>) child of
          (st', Some cycle) \<Rightarrow> (st', Some cycle)
        | (st', None) \<Rightarrow> dfs_children children st' node rest)
     else dfs_children children st node rest)"
  by pat_completeness auto

definition white :: "dfs_state \<Rightarrow> string set" where
  "white st = {x. map_of (color_of st) x = Some White}"

lemma finite_white [simp]: "finite (white st)"
proof (rule finite_subset)
  show "white st \<subseteq> fst ` set (color_of st)"
    by (force simp: white_def dest: map_of_SomeD)
qed simp

lemma white_gray [simp]: "white (st\<lparr>color_of := dict_set n Gray (color_of st)\<rparr>) = white st - {n}"
  by (auto simp: white_def)

lemma white_black [simp]: "white (st\<lparr>color_of := dict_set n Black (color_of st)\<rparr>) = white st - {n}"
  by (auto simp: white_def)

lemma white_parent [simp]: "white (st\<lparr>parent_of := p\<rparr>) = white st"
  by (simp add: white_def)

text \<open>On its domain the search never turns a node white again.\<close>

lemma dfs_white_dom:
  "dfs_dfs_children_dom (Inl (ch, st, node)) \<Longrightarrow> white (fst (dfs ch st node)) \<subseteq> white st"
  "dfs_dfs_children_dom (Inr (ch, st, node, cs)) \<Longrightarrow> white (fst (dfs_children ch st node cs)) \<subseteq> white st"
proof (induction rule: dfs_dfs_children.pinduct)
  case (1 children st node)
  obtain st' r where run: "dfs_children children (st\<lparr>color_of := dict_set node Gray (color_of st)\<rparr>) node
      (dict_get children node []) = (st', r)" by fastforce
  with "1.IH" have "white st' \<subseteq> white st" by simp blast
  with run show ?case
    by (cases r) (simp_all add: dfs.psimps [OF "1.hyps"], blast)
next
  case (2 children st node)
  then show ?case by (simp add: dfs_children.psimps)
next
  case (3 children st node child rest)
  consider (gray) "map_of (color_of st) child = Some Gray"
    | (white) "map_of (color_of st) child = Some White"
    | (other) "map_of (color_of st) child \<noteq> Some Gray" "map_of (color_of st) child \<noteq> Some White"
    by blast
  then show ?case
  proof cases
    case gray
    then show ?thesis by (simp add: dfs_children.psimps(2) [OF "3.hyps"])
  next
    case white
    obtain st' r where run: "dfs children (st\<lparr>parent_of := dict_set child (Some node) (parent_of st)\<rparr>) child
        = (st', r)" by fastforce
    have sub: "white st' \<subseteq> white st"
      using "3.IH"(1) white run by simp
    show ?thesis
    proof (cases r)
      case None
      have "white (fst (dfs_children children st' node rest)) \<subseteq> white st'"
        using "3.IH"(2) [OF _ _ run [symmetric]] white None by simp
      with sub white run None show ?thesis
        by (auto simp add: dfs_children.psimps(2) [OF "3.hyps"])
    next
      case (Some c)
      with sub white run show ?thesis by (simp add: dfs_children.psimps(2) [OF "3.hyps"])
    qed
  next
    case other
    with "3.IH"(3) show ?thesis by (simp add: dfs_children.psimps(2) [OF "3.hyps"])
  qed
qed

termination dfs
proof (relation "measures
    [\<lambda>x. case x of Inl (ch, st, node) \<Rightarrow> card (white st - {node}) | Inr (ch, st, node, cs) \<Rightarrow> card (white st),
     \<lambda>x. case x of Inl _ \<Rightarrow> 1 | Inr _ \<Rightarrow> 0,
     \<lambda>x. case x of Inl _ \<Rightarrow> 0 | Inr (ch, st, node, cs) \<Rightarrow> length cs]", goal_cases)
  case 1
  then show ?case by simp
next
  case (2 children st node)
  then show ?case by simp
next
  case (3 children st node child rest)
  then have "child \<in> white st" by (simp add: white_def)
  then have "card (white st - {child}) < card (white st)" by (intro card_Diff1_less) simp_all
  then show ?case by simp
next
  case (4 children st node child rest st' r)
  from 4(5) dfs_white_dom(1) [OF 4(5)] 4(2,3) have "white st' \<subseteq> white st"
    by (metis fst_conv white_parent)
  then have "card (white st') \<le> card (white st)" by (intro card_mono) simp_all
  then show ?case by auto
next
  case (5 children st node child rest)
  then show ?case by simp
qed

declare dfs.simps [simp del] dfs_children.simps [simp del]

definition initial_dfs_state :: "graph \<Rightarrow> dfs_state" where
  "initial_dfs_state g = \<lparr>color_of = map (\<lambda>(node, _). (node, White)) g,
     parent_of = map (\<lambda>(node, _). (node, None)) g\<rparr>"

fun dfs_roots :: "(string \<times> string list) list \<Rightarrow> dfs_state \<Rightarrow> string list \<Rightarrow> string list option option" where
  "dfs_roots children st [] = None"
| "dfs_roots children st (node # rest) =
    (if map_of (color_of st) node = Some White then
       (case dfs children st node of
          (st', Some cycle) \<Rightarrow> Some cycle
        | (st', None) \<Rightarrow> dfs_roots children st' rest)
     else dfs_roots children st rest)"

definition cycle_error :: "string list \<Rightarrow> exn" where
  "cycle_error cycle = AppError ''CYCLE_DETECTED''
     (''Cycle detected in workflow: '' @ join '' -> '' cycle) 400
     [JObj [(''cycle'', JList (map JStr cycle))]]"

text \<open>\<open>None\<close>: the reconstruction of the cycle does not return.\<close>

definition detect_cycles :: "graph \<Rightarrow> (exn + unit) option" where
  "detect_cycles g =
    (case dfs_roots (children_of g) (initial_dfs_state g) (map fst g) of
       None \<Rightarrow> Some (Inr ())
     | Some None \<Rightarrow> None
     | Some (Some cycle) \<Rightarrow> Some (Inl (cycle_error cycle)))"

section \<open>Correctness of the search\<close>

fun walk :: "('a \<times> 'a) set \<Rightarrow> 'a list \<Rightarrow> bool" where
  "walk E (x # y # zs) = ((x, y) \<in> E \<and> walk E (y # zs))"
| "walk E xs = True"

definition closed_walk :: "('a \<times> 'a) set \<Rightarrow> 'a list \<Rightarrow> bool" where
  "closed_walk E c \<longleftrightarrow> 2 \<le> length c \<and> hd c = last c \<and> walk E c"

lemma walk_snoc: "walk E (xs @ [x, y]) \<longleftrightarrow> walk E (xs @ [x]) \<and> (x, y) \<in> E"
  by (induction E xs rule: walk.induct) auto

lemma walk_trancl: "walk E (x # xs) \<Longrightarrow> xs \<noteq> [] \<Longrightarrow> (x, last xs) \<in> E\<^sup>+"
proof (induction xs arbitrary: x)
  case Nil
  then show ?case by simp
next
  case (Cons y ys)
  show ?case
  proof (cases ys)
    case Nil
    with Cons.prems show ?thesis by auto
  next
    case (Cons z zs)
    with Cons.prems have "(x, y) \<in> E" "walk E (y # ys)" by auto
    with Cons.IH [of y] Cons show ?thesis by auto
  qed
qed

lemma closed_walk_not_acyclic: "closed_walk E c \<Longrightarrow> \<not> acyclic E"
proof -
  assume c: "closed_walk E c"
  then obtain x y ys where "c = x # y # ys"
    by (cases c; cases "tl c") (auto simp: closed_walk_def)
  with c walk_trancl [of E x "y # ys"] show ?thesis by (auto simp: closed_walk_def acyclic_def)
qed

text \<open>Turning a finished node black keeps the black part acyclic.\<close>

lemma acyclic_add_source:
  assumes "acyclic (E \<inter> B \<times> B)" and "\<And>a. a \<in> insert n B \<Longrightarrow> (a, n) \<notin> E"
  shows "acyclic (E \<inter> insert n B \<times> insert n B)"
proof -
  let ?R = "E \<inter> insert n B \<times> insert n B"
  have step: "b \<noteq> n \<and> (a \<noteq> n \<longrightarrow> (a, b) \<in> (E \<inter> B \<times> B)\<^sup>+)" if "(a, b) \<in> ?R\<^sup>+" for a b
    using that
  proof (induction rule: trancl_induct)
    case (base b)
    then show ?case using assms(2) by auto
  next
    case (step b c)
    then have "c \<noteq> n" "(b, c) \<in> E \<inter> B \<times> B" using assms(2) by auto
    with step.IH show ?case by (auto intro: trancl_into_trancl)
  qed
  show ?thesis
  proof (rule acyclicI, intro allI notI)
    fix x assume "(x, x) \<in> ?R\<^sup>+"
    with step have "(x, x) \<in> (E \<inter> B \<times> B)\<^sup>+" by blast
    with assms(1) show False by (simp add: acyclic_def)
  qed
qed

definition black :: "dfs_state \<Rightarrow> string set" where
  "black st = {x. map_of (color_of st) x = Some Black}"

definition gray :: "dfs_state \<Rightarrow> string set" where
  "gray st = {x. map_of (color_of st) x = Some Gray}"

text \<open>The gray nodes are the recursion stack, linked by the parent pointers.\<close>

fun stack_ok :: "(string \<times> string) set \<Rightarrow> (string \<times> string option) list \<Rightarrow> string list \<Rightarrow> bool" where
  "stack_ok E p (x # y # zs) = (map_of p x = Some (Some y) \<and> (y, x) \<in> E \<and> stack_ok E p (y # zs))"
| "stack_ok E p xs = True"

definition dfs_inv :: "(string \<times> string) set \<Rightarrow> string set \<Rightarrow> dfs_state \<Rightarrow> string list \<Rightarrow> bool" where
  "dfs_inv E N st S \<longleftrightarrow>
    dom (map_of (color_of st)) = N \<and> gray st = set S \<and> distinct S \<and>
    stack_ok E (parent_of st) S \<and> E `` black st \<subseteq> black st \<and> acyclic (E \<inter> black st \<times> black st)"

lemma stack_ok_update:
  "x \<notin> set S \<Longrightarrow> stack_ok E (dict_set x v p) S = stack_ok E p S"
  by (induction E p S rule: stack_ok.induct) auto

lemma color_simps [simp]:
  "black (st\<lparr>parent_of := p\<rparr>) = black st"
  "gray (st\<lparr>parent_of := p\<rparr>) = gray st"
  "black (st\<lparr>color_of := dict_set n Gray (color_of st)\<rparr>) = black st - {n}"
  "gray (st\<lparr>color_of := dict_set n Gray (color_of st)\<rparr>) = insert n (gray st)"
  "black (st\<lparr>color_of := dict_set n Black (color_of st)\<rparr>) = insert n (black st)"
  "gray (st\<lparr>color_of := dict_set n Black (color_of st)\<rparr>) = gray st - {n}"
  by (auto simp: black_def gray_def)

text \<open>Climbing the parent pointers from the top of the stack reaches any node of it.\<close>

lemma climb_stack:
  "stack_ok E p (pre @ [to_node]) \<Longrightarrow> to_node \<notin> set pre \<Longrightarrow>
    climb p to_node (hd (pre @ [to_node])) path = Some (path @ pre)"
proof (induction pre arbitrary: path)
  case Nil
  then show ?case by (simp add: climb.simps)
next
  case (Cons x pre)
  then have "map_of p x = Some (Some (hd (pre @ [to_node])))"
    by (cases pre) auto
  moreover have "climb p to_node (hd (pre @ [to_node])) (path @ [x]) = Some ((path @ [x]) @ pre)"
  proof (rule Cons.IH)
    show "stack_ok E p (pre @ [to_node])" using Cons.prems(1) by (cases pre) auto
  qed (use Cons.prems(2) in simp)
  ultimately show ?case using Cons.prems(2) by (subst climb.simps) (auto simp: dict_get_def)
qed

lemma stack_walk: "stack_ok E p S \<Longrightarrow> walk E (rev S)"
proof (induction E p S rule: stack_ok.induct)
  case (1 E p x y zs)
  then show ?case by (simp add: walk_snoc)
qed auto

lemma stack_ok_prefix: "stack_ok E p (xs @ ys) \<Longrightarrow> stack_ok E p xs"
  by (induction E p xs rule: stack_ok.induct) auto

lemma reconstruct_closed:
  assumes "stack_ok E p S" "distinct S" "to_node \<in> set S" "S \<noteq> []" "(hd S, to_node) \<in> E"
  shows "\<exists>c. reconstruct_cycle p (hd S) to_node = Some c \<and> closed_walk E c"
proof -
  obtain pre post where S: "S = pre @ to_node # post" using assms(3) by (meson split_list)
  have pre: "stack_ok E p (pre @ [to_node])"
    using assms(1) stack_ok_prefix [of E p "pre @ [to_node]" post] by (simp add: S)
  have hd: "hd S = hd (pre @ [to_node])" by (cases pre) (simp_all add: S)
  have "climb p to_node (hd S) [to_node] = Some ([to_node] @ pre)"
    unfolding hd using pre assms(2) by (intro climb_stack) (simp_all add: S)
  then have rc: "reconstruct_cycle p (hd S) to_node = Some (to_node # rev pre @ [to_node])"
    by (simp add: reconstruct_cycle_def)
  have "walk E (to_node # rev pre)" using stack_walk [OF pre] by simp
  moreover have "(last (to_node # rev pre), to_node) \<in> E"
    using assms(5) by (cases pre) (simp_all add: S)
  ultimately have "walk E ((to_node # rev pre) @ [to_node])"
    using walk_snoc [of E "butlast (to_node # rev pre)" "last (to_node # rev pre)" to_node]
    by (metis append_butlast_last_id append.assoc append_Cons append_Nil list.distinct(1))
  with rc show ?thesis by (auto simp: closed_walk_def)
qed

definition search_ok :: "(string \<times> string) set \<Rightarrow> (dfs_state \<Rightarrow> bool) \<Rightarrow>
    dfs_state \<times> string list option option \<Rightarrow> bool" where
  "search_ok E Q res = (case res of (st', None) \<Rightarrow> Q st'
     | (st', Some c) \<Rightarrow> (\<exists>cycle. c = Some cycle \<and> closed_walk E cycle))"

lemma search_ok_simps [simp]:
  "search_ok E Q (st', None) = Q st'"
  "search_ok E Q (st', Some c) = (\<exists>cycle. c = Some cycle \<and> closed_walk E cycle)"
  by (simp_all add: search_ok_def)

lemma dfs_search:
  fixes N :: "string set"
  defines "E ch \<equiv> {(u, v). v \<in> set (dict_get ch u [])}"
  shows "dfs_inv (E ch) N st S \<Longrightarrow> E ch `` UNIV \<subseteq> N \<Longrightarrow> node \<in> white st \<Longrightarrow>
      (S \<noteq> [] \<Longrightarrow> map_of (parent_of st) node = Some (Some (hd S)) \<and> (hd S, node) \<in> E ch) \<Longrightarrow>
      search_ok (E ch) (\<lambda>st'. dfs_inv (E ch) N st' S \<and> insert node (black st) \<subseteq> black st') (dfs ch st node)"
    and "dfs_inv (E ch) N st (node # S) \<Longrightarrow> E ch `` UNIV \<subseteq> N \<Longrightarrow> set cs \<subseteq> E ch `` {node} \<Longrightarrow>
      search_ok (E ch) (\<lambda>st'. dfs_inv (E ch) N st' (node # S) \<and> set cs \<union> black st \<subseteq> black st')
        (dfs_children ch st node cs)"
proof (induction ch st node and ch st node cs arbitrary: S and S rule: dfs_dfs_children.induct)
  case (1 ch st node)
  let ?st = "st\<lparr>color_of := dict_set node Gray (color_of st)\<rparr>"
  have "node \<notin> gray st" using "1.prems"(3) by (simp add: white_def gray_def)
  then have node: "node \<notin> set S" "node \<notin> black st" "node \<in> N"
    using "1.prems"(1,3) by (auto simp: dfs_inv_def white_def black_def)
  have "stack_ok (E ch) (parent_of st) (node # S)"
    using "1.prems"(1,4) by (cases S) (auto simp: dfs_inv_def)
  then have inv: "dfs_inv (E ch) N ?st (node # S)"
    using "1.prems"(1) node by (auto simp: dfs_inv_def insert_absorb)
  have ih: "search_ok (E ch) (\<lambda>st'. dfs_inv (E ch) N st' (node # S) \<and>
      E ch `` {node} \<union> black st \<subseteq> black st') (dfs_children ch ?st node (dict_get ch node []))"
    using "1.IH" [OF inv "1.prems"(2)] node(2) by (simp add: E_def Image_def)
  obtain st' r where run: "dfs_children ch ?st node (dict_get ch node []) = (st', r)" by fastforce
  show ?case
  proof (cases r)
    case (Some c)
    with ih run show ?thesis by (simp add: dfs.simps)
  next
    case None
    with ih run have st': "dfs_inv (E ch) N st' (node # S)"
      "E ch `` {node} \<subseteq> black st'" "black st \<subseteq> black st'" by auto
    have "node \<in> gray st'" using st'(1) by (simp add: dfs_inv_def)
    then have ngray: "node \<notin> black st'" by (simp add: gray_def black_def)
    have "acyclic (E ch \<inter> insert node (black st') \<times> insert node (black st'))"
      using st' ngray by (intro acyclic_add_source) (auto simp: dfs_inv_def)
    moreover have "stack_ok (E ch) (parent_of st') S"
      using st'(1) by (cases S) (auto simp: dfs_inv_def)
    ultimately have "dfs_inv (E ch) N (st'\<lparr>color_of := dict_set node Black (color_of st')\<rparr>) S"
      using st' node by (auto simp: dfs_inv_def)
    with st'(3) run None show ?thesis by (auto simp: dfs.simps)
  qed
next
  case (2 ch st node)
  then show ?case by (simp add: dfs_children.simps)
next
  case (3 ch st node child rest)
  have child: "(node, child) \<in> E ch" "child \<in> N" using "3.prems" by auto
  have "child \<in> dom (map_of (color_of st))" using child(2) "3.prems"(1) by (simp add: dfs_inv_def)
  then obtain k where k: "map_of (color_of st) child = Some k" by blast
  then consider (gray) "map_of (color_of st) child = Some Gray"
    | (white) "map_of (color_of st) child = Some White"
    | (black) "map_of (color_of st) child = Some Black"
    by (cases k) simp_all
  then show ?case
  proof cases
    case gray
    then have "\<exists>c. reconstruct_cycle (parent_of st) node child = Some c \<and> closed_walk (E ch) c"
      using reconstruct_closed [of "E ch" "parent_of st" "node # S" child] "3.prems"(1) child
      by (auto simp: dfs_inv_def gray_def)
    with gray show ?thesis by (simp add: dfs_children.simps)
  next
    case white
    let ?st = "st\<lparr>parent_of := dict_set child (Some node) (parent_of st)\<rparr>"
    have "child \<notin> gray st" using white by (simp add: gray_def)
    then have "child \<notin> set (node # S)" using "3.prems"(1) by (simp add: dfs_inv_def)
    then have inv: "dfs_inv (E ch) N ?st (node # S)"
      using "3.prems"(1) by (simp add: dfs_inv_def stack_ok_update del: stack_ok.simps)
    have ih: "search_ok (E ch) (\<lambda>st'. dfs_inv (E ch) N st' (node # S) \<and>
        insert child (black st) \<subseteq> black st') (dfs ch ?st child)"
      using "3.IH"(1) [OF _ white inv "3.prems"(2)] white child by (simp add: white_def)
    obtain st' r where run: "dfs ch ?st child = (st', r)" by fastforce
    show ?thesis
    proof (cases r)
      case (Some c)
      with ih run white show ?thesis by (simp add: dfs_children.simps)
    next
      case None
      with ih run have st': "dfs_inv (E ch) N st' (node # S)" "insert child (black st) \<subseteq> black st'"
        by simp_all
      have "search_ok (E ch) (\<lambda>st''. dfs_inv (E ch) N st'' (node # S) \<and> set rest \<union> black st' \<subseteq> black st'')
          (dfs_children ch st' node rest)"
        using "3.IH"(2) [OF _ white run [symmetric] None st'(1) "3.prems"(2)] white "3.prems"(3) by simp
      with st'(2) run None white show ?thesis
        by (auto simp: dfs_children.simps search_ok_def split: option.splits)
    qed
  next
    case black
    then have "search_ok (E ch) (\<lambda>st'. dfs_inv (E ch) N st' (node # S) \<and> set rest \<union> black st \<subseteq> black st')
        (dfs_children ch st node rest)"
      using "3.IH"(3) "3.prems" by simp
    with black show ?thesis
      by (auto simp: dfs_children.simps search_ok_def black_def split: option.splits)
  qed
qed

lemma acyclic_targets:
  assumes "E `` UNIV \<subseteq> N" "acyclic (E \<inter> N \<times> N)"
  shows "acyclic E"
proof (rule acyclicI, intro allI notI)
  fix x assume xx: "(x, x) \<in> E\<^sup>+"
  then have "x \<in> N" using assms(1) by (auto elim: tranclE)
  have "(x, y) \<in> E\<^sup>+ \<Longrightarrow> (x, y) \<in> (E \<inter> N \<times> N)\<^sup>+ \<and> y \<in> N" for y
  proof (induction rule: trancl_induct)
    case (base y)
    with \<open>x \<in> N\<close> assms(1) show ?case by blast
  next
    case (step y z)
    with assms(1) show ?case by (blast intro: trancl_into_trancl)
  qed
  with xx assms(2) show False by (auto simp: acyclic_def)
qed

lemma dfs_roots_search:
  assumes "E = {(u, v). v \<in> set (dict_get ch u [])}" "E `` UNIV \<subseteq> N"
    and "dfs_inv E N st []" "set ns \<subseteq> N" "N \<subseteq> set ns \<union> black st"
  shows "(dfs_roots ch st ns = None \<and> acyclic E) \<or>
    (\<exists>c. dfs_roots ch st ns = Some (Some c) \<and> closed_walk E c)"
  using assms(3-5)
proof (induction ns arbitrary: st)
  case Nil
  then have "black st = N"
    by (auto simp: dfs_inv_def black_def)
  with Nil have "acyclic E"
    using acyclic_targets [OF assms(2)] by (simp add: dfs_inv_def)
  then show ?case by simp
next
  case (Cons n ns)
  show ?case
  proof (cases "n \<in> white st")
    case True
    obtain st' r where run: "dfs ch st n = (st', r)" by fastforce
    have ok: "search_ok E (\<lambda>st'. dfs_inv E N st' [] \<and> insert n (black st) \<subseteq> black st') (st', r)"
      using dfs_search(1) [of ch N st "[]" n, folded assms(1)] Cons.prems(1) assms(2) True run
      by simp
    show ?thesis
    proof (cases r)
      case None
      with ok have "dfs_inv E N st' []" "insert n (black st) \<subseteq> black st'" by simp_all
      then have "(dfs_roots ch st' ns = None \<and> acyclic E) \<or>
          (\<exists>c. dfs_roots ch st' ns = Some (Some c) \<and> closed_walk E c)"
        using Cons.prems(2,3) by (intro Cons.IH) auto
      with True run None show ?thesis by (simp add: white_def)
    next
      case (Some c)
      with ok True run show ?thesis by (auto simp: white_def)
    qed
  next
    case False
    have "map_of (color_of st) n \<noteq> Some Gray"
      using Cons.prems(1) by (auto simp: dfs_inv_def gray_def)
    moreover have "n \<in> dom (map_of (color_of st))"
      using Cons.prems(1,2) by (simp add: dfs_inv_def)
    ultimately have "n \<in> black st"
      using False by (auto simp: white_def black_def) (metis color.exhaust)
    then have "(dfs_roots ch st ns = None \<and> acyclic E) \<or>
        (\<exists>c. dfs_roots ch st ns = Some (Some c) \<and> closed_walk E c)"
      using Cons.prems by (intro Cons.IH) auto
    with False show ?thesis by (simp add: white_def)
  qed
qed

lemma map_of_const: "map_of (map (\<lambda>(k, _). (k, c)) g) x = (if x \<in> fst ` set g then Some c else None)"
  by (induction g) auto

lemma initial_dfs_inv: "dfs_inv E (fst ` set g) (initial_dfs_state g) []"
proof -
  have "map_of (color_of (initial_dfs_state g)) x = (if x \<in> fst ` set g then Some White else None)" for x
    by (simp add: initial_dfs_state_def map_of_const)
  then have "gray (initial_dfs_state g) = {}" "black (initial_dfs_state g) = {}"
    "dom (map_of (color_of (initial_dfs_state g))) = fst ` set g"
    by (auto simp: gray_def black_def dom_def split: if_splits)
  then show ?thesis by (simp add: dfs_inv_def acyclic_def)
qed

text \<open>The outcome of cycle detection, in terms of the edges of the graph.\<close>

lemma detect_cycles_cases:
  "(detect_cycles g = Some (Inr ()) \<and> acyclic (edges g)) \<or>
   (\<exists>c. detect_cycles g = Some (Inl (cycle_error c)) \<and> closed_walk (edges g) c)"
proof -
  have E: "edges g = {(u, v). v \<in> set (dict_get (children_of g) u [])}"
    by (auto simp: children_of_edges)
  have "(dfs_roots (children_of g) (initial_dfs_state g) (map fst g) = None \<and> acyclic (edges g)) \<or>
    (\<exists>c. dfs_roots (children_of g) (initial_dfs_state g) (map fst g) = Some (Some c) \<and>
      closed_walk (edges g) c)"
    using initial_dfs_inv [of "edges g" g]
    by (intro dfs_roots_search [OF E]) (auto dest: edges_target)
  then show ?thesis by (auto simp: detect_cycles_def)
qed

lemma detect_cycles_Inr_iff: "detect_cycles g = Some (Inr ()) \<longleftrightarrow> acyclic (edges g)"
  using detect_cycles_cases [of g] closed_walk_not_acyclic by auto

end
