(* ===== verification/Topo.thy ===== *)
theory Topo
  imports Graph
begin

text \<open>
  The two Kahn loops of the engine: \<open>validate_max_depth\<close> (\<open>src/engine/graph.py\<close>) and
  \<open>_topological_sort\<close> (\<open>src/engine/orchestrator.py\<close>). Both count the incoming edges of
  every node, take the nodes without any as the first queue, and release a node when its last
  incoming edge is removed; one tracks depths, the other the order. The loops stop on every
  input: a pass takes one node off the queue, and every node put back on it stops having a
  positive count. On an acyclic graph whose dependencies all exist the order is a topological
  enumeration of all nodes and the depth is the length of the longest dependency chain.
\<close>

section \<open>Counting edges, releasing nodes\<close>

definition count_edge :: "string \<Rightarrow> string \<Rightarrow> (string \<times> int) list \<Rightarrow> (string \<times> int) list" where
  "count_edge node dep d = dict_set node (dict_get d node 0 + 1) d"

definition setdefault :: "'k \<Rightarrow> 'v \<Rightarrow> ('k \<times> 'v) list \<Rightarrow> ('k \<times> 'v) list" where
  "setdefault k v d = (if map_of d k = None then dict_set k v d else d)"

definition count_degrees :: "graph \<Rightarrow> (string \<times> int) list \<Rightarrow> (string \<times> int) list" where
  "count_degrees g d = fold (\<lambda>(node, deps) d. fold (count_edge node) deps (setdefault node 0 d)) g d"

definition dec_degree :: "string \<Rightarrow> (string \<times> int) list \<Rightarrow> (string \<times> int) list" where
  "dec_degree child d = dict_set child (dict_get d child 0 - 1) d"

fun relax :: "string list \<Rightarrow> (string \<times> int) list \<Rightarrow> string list \<Rightarrow> (string \<times> int) list \<times> string list" where
  "relax [] d queue = (d, queue)"
| "relax (child # rest) d queue =
    (let d' = dec_degree child d
     in relax rest d' (if dict_get d' child 0 = 0 then queue @ [child] else queue))"

definition positives :: "(string \<times> int) list \<Rightarrow> nat" where
  "positives d = length (filter (\<lambda>(_, n). 0 < n) d)"

lemma positives_dec:
  "positives (dec_degree c d) + (if dict_get (dec_degree c d) c 0 = 0 then 1 else 0) \<le> positives d"
proof -
  have "positives (dict_set c (dict_get d c 0 - 1) d) + (if dict_get d c 0 = 1 then 1 else 0) \<le> positives d"
    by (induction d) (auto simp: positives_def dict_set_Cons dict_get_def)
  then show ?thesis by (simp add: dec_degree_def)
qed

lemma relax_measure:
  "relax cs d q = (d', q') \<Longrightarrow> length q' + positives d' \<le> length q + positives d"
proof (induction cs arbitrary: d q)
  case Nil
  then show ?case by simp
next
  case (Cons c cs)
  let ?q = "if dict_get (dec_degree c d) c 0 = 0 then q @ [c] else q"
  have "length q' + positives d' \<le> length ?q + positives (dec_degree c d)"
    using Cons.prems by (intro Cons.IH) (simp add: Let_def)
  then show ?case using positives_dec [of c d] by (simp split: if_splits)
qed

section \<open>The order loop\<close>

function kahn :: "(string \<times> string list) list \<Rightarrow> (string \<times> int) list \<Rightarrow> string list \<Rightarrow> string list \<Rightarrow> string list" where
  "kahn ch d [] result = result"
| "kahn ch d (node # queue) result =
    (case relax (dict_get ch node []) d queue of
       (d', queue') \<Rightarrow> kahn ch d' queue' (result @ [node]))"
  by pat_completeness auto
termination
  by (relation "measure (\<lambda>(ch, d, queue, result). length queue + positives d)")
    (auto dest!: relax_measure [OF sym])

definition step_pairs :: "step_definition list \<Rightarrow> graph" where
  "step_pairs steps = map (\<lambda>s. (sd_id s, sd_depends_on s)) steps"

definition topological_sort :: "step_definition list \<Rightarrow> string list" where
  "topological_sort steps =
    (let graph = children_of (step_pairs steps);
         in_degree = count_degrees (step_pairs steps) [];
         queue = map fst (filter (\<lambda>(_, degree). degree = 0) in_degree)
     in kahn graph in_degree queue [])"

section \<open>The depth loop\<close>

definition MAX_DEPTH :: int where
  "MAX_DEPTH = 20"

fun relax_depth :: "string \<Rightarrow> string list \<Rightarrow> (string \<times> int) list \<Rightarrow> (string \<times> int) list \<Rightarrow> string list \<Rightarrow>
    (string \<times> int) list \<times> (string \<times> int) list \<times> string list" where
  "relax_depth current [] d depth queue = (d, depth, queue)"
| "relax_depth current (child # rest) d depth queue =
    (let new_depth = dict_get depth current 0 + 1;
         depth' = dict_set child (max (dict_get depth child 0) new_depth) depth;
         d' = dec_degree child d
     in relax_depth current rest d' depth' (if dict_get d' child 0 = 0 then queue @ [child] else queue))"

lemma relax_depth_relax:
  "relax_depth current cs d depth q = (d', depth', q') \<Longrightarrow> relax cs d q = (d', q')"
  by (induction current cs d depth q rule: relax_depth.induct) (auto simp: Let_def)

function kahn_depth :: "(string \<times> string list) list \<Rightarrow> (string \<times> int) list \<Rightarrow> (string \<times> int) list \<Rightarrow>
    string list \<Rightarrow> (string \<times> int) list" where
  "kahn_depth ch d depth [] = depth"
| "kahn_depth ch d depth (current # queue) =
    (case relax_depth current (dict_get ch current []) d depth queue of
       (d', depth', queue') \<Rightarrow> kahn_depth ch d' depth' queue')"
  by pat_completeness auto
termination
proof (relation "measure (\<lambda>(ch, d, depth, queue). length queue + positives d)", goal_cases)
  case 1
  then show ?case by simp
next
  case (2 ch d depth current queue d' r depth' queue')
  then have "relax_depth current (dict_get ch current []) d depth queue = (d', depth', queue')"
    by simp
  from relax_measure [OF relax_depth_relax [OF this]] show ?case by simp
qed

definition depth_error :: "int \<Rightarrow> exn" where
  "depth_error actual = AppError ''MAX_DEPTH_EXCEEDED''
     (''Workflow depth is '' @ string_of_int actual @ '', exceeding the maximum of ''
       @ string_of_int MAX_DEPTH @ ''.'') 400
     [JObj [(''max_depth'', JInt MAX_DEPTH), (''actual_depth'', JInt actual)]]"

definition max_found :: "graph \<Rightarrow> int" where
  "max_found g =
    (let forward = children_of g;
         in_degree = count_degrees g (map (\<lambda>(node, _). (node, 0)) g);
         queue = map fst (filter (\<lambda>(_, n). n = 0) in_degree);
         depth = kahn_depth forward in_degree (map (\<lambda>n. (n, 0)) queue) queue
     in if depth = [] then 0 else Max (set (map snd depth)))"

definition validate_max_depth :: "graph \<Rightarrow> exn + unit" where
  "validate_max_depth g =
    (if MAX_DEPTH \<le> max_found g then Inl (depth_error (max_found g + 1)) else Inr ())"

section \<open>What a pass does\<close>

lemma relax_spec:
  assumes "relax cs d q = (d', q')" "\<And>v. v \<in> set cs \<Longrightarrow> int (count_list cs v) \<le> dict_get d v 0"
  obtains zs where "q' = q @ zs" "distinct zs"
    "set zs = {v \<in> set cs. dict_get d v 0 = int (count_list cs v)}"
    "\<And>v. dict_get d' v 0 = dict_get d v 0 - int (count_list cs v)"
proof -
  from assms have "\<exists>zs. q' = q @ zs \<and> distinct zs \<and>
    set zs = {v \<in> set cs. dict_get d v 0 = int (count_list cs v)} \<and>
    (\<forall>v. dict_get d' v 0 = dict_get d v 0 - int (count_list cs v))"
  proof (induction cs arbitrary: d q)
    case Nil
    then show ?case by simp
  next
    case (Cons c cs)
    let ?d = "dec_degree c d"
    let ?q = "if dict_get ?d c 0 = 0 then q @ [c] else q"
    have dec: "dict_get ?d v 0 = dict_get d v 0 - (if v = c then 1 else 0)" for v
      by (simp add: dec_degree_def)
    have bound: "int (count_list cs v) \<le> dict_get ?d v 0" if "v \<in> set cs" for v
      using Cons.prems(2) [of v] that by (simp add: dec split: if_splits)
    obtain zs where zs: "q' = ?q @ zs" "distinct zs"
        "set zs = {v \<in> set cs. dict_get ?d v 0 = int (count_list cs v)}"
        "\<And>v. dict_get d' v 0 = dict_get ?d v 0 - int (count_list cs v)"
      using Cons.IH [of ?d ?q] Cons.prems(1) bound by (auto simp: Let_def)
    have rest: "dict_get d' v 0 = dict_get d v 0 - int (count_list (c # cs) v)" for v
      using zs(4) [of v] by (simp add: dec)
    show ?case
    proof (cases "dict_get ?d c 0 = 0")
      case True
      have "c \<notin> set cs"
        using bound [of c] True by (cases "c \<in> set cs") (auto simp: count_list_0_iff)
      with zs True rest show ?thesis
        by (intro exI [of _ "c # zs"]) (auto simp: dec count_list_0_iff split: if_splits)
    next
      case False
      with zs rest bound show ?thesis
        by (intro exI [of _ zs]) (auto simp: dec split: if_splits)
    qed
  qed
  then show ?thesis using that by blast
qed

definition child_edges :: "(string \<times> string list) list \<Rightarrow> (string \<times> string) set" where
  "child_edges ch = {(u, v). v \<in> set (dict_get ch u [])}"

definition ordered :: "('a \<times> 'a) set \<Rightarrow> 'a list \<Rightarrow> bool" where
  "ordered E xs \<longleftrightarrow> (\<forall>ys v zs. xs = ys @ v # zs \<longrightarrow> E\<inverse> `` {v} \<subseteq> set ys)"

lemma ordered_Nil [simp]: "ordered E []"
  by (simp add: ordered_def)

lemma ordered_snoc: "ordered E (xs @ [x]) \<longleftrightarrow> ordered E xs \<and> E\<inverse> `` {x} \<subseteq> set xs"
proof
  assume L: "ordered E (xs @ [x])"
  have "ordered E xs"
    unfolding ordered_def
  proof (intro allI impI)
    fix ys v zs assume "xs = ys @ v # zs"
    then have "xs @ [x] = ys @ v # (zs @ [x])" by simp
    with L show "E\<inverse> `` {v} \<subseteq> set ys" unfolding ordered_def by blast
  qed
  with L show "ordered E xs \<and> E\<inverse> `` {x} \<subseteq> set xs" unfolding ordered_def by blast
next
  assume R: "ordered E xs \<and> E\<inverse> `` {x} \<subseteq> set xs"
  show "ordered E (xs @ [x])"
    unfolding ordered_def
  proof (intro allI impI)
    fix ys v zs assume eq: "xs @ [x] = ys @ v # zs"
    show "E\<inverse> `` {v} \<subseteq> set ys"
    proof (cases zs rule: rev_cases)
      case Nil
      with eq R show ?thesis by simp
    next
      case (snoc zs' z)
      with eq have "xs = ys @ v # zs'" by simp
      with R show ?thesis unfolding ordered_def by blast
    qed
  qed
qed

definition remaining :: "(string \<times> string list) list \<Rightarrow> string set \<Rightarrow> string \<Rightarrow> int" where
  "remaining ch U v = (\<Sum>u\<in>U. int (count_list (dict_get ch u []) v))"

definition kahn_inv :: "(string \<times> string list) list \<Rightarrow> string set \<Rightarrow> (string \<times> int) list \<Rightarrow>
    string list \<Rightarrow> string list \<Rightarrow> bool" where
  "kahn_inv ch N d q res \<longleftrightarrow>
    distinct (res @ q) \<and> set (res @ q) \<subseteq> N \<and>
    (\<forall>v\<in>N. dict_get d v 0 = remaining ch (N - set res) v) \<and>
    (\<forall>v\<in>N. v \<in> set (res @ q) \<longleftrightarrow> dict_get d v 0 = 0) \<and> ordered (child_edges ch) res"

lemma remaining_nonneg: "0 \<le> remaining ch U v"
  by (simp add: remaining_def sum_nonneg)

lemma remaining_zero: "finite U \<Longrightarrow> remaining ch U v = 0 \<longleftrightarrow> (\<forall>u\<in>U. (u, v) \<notin> child_edges ch)"
  by (simp add: remaining_def sum_nonneg_eq_0_iff count_list_0_iff child_edges_def)

lemma remaining_remove:
  "finite U \<Longrightarrow> n \<in> U \<Longrightarrow>
    remaining ch (U - {n}) v = remaining ch U v - int (count_list (dict_get ch n []) v)"
  by (simp add: remaining_def sum.remove [of U n])

text \<open>One pass of the loop keeps the invariant; the released nodes are new ones.\<close>

lemma kahn_inv_step:
  assumes "finite N" "child_edges ch \<subseteq> N \<times> N" and inv: "kahn_inv ch N d (node # q) res"
    and run: "relax (dict_get ch node []) d q = (d', q')"
  shows "kahn_inv ch N d' q' (res @ [node])"
    and "child_edges ch `` {node} \<inter> set (res @ node # q) = {}"
    and "(child_edges ch)\<inverse> `` {node} \<subseteq> set res"
proof -
  let ?cs = "dict_get ch node []" let ?U = "N - set res"
  have node: "node \<in> ?U" "node \<in> N" using inv by (auto simp: kahn_inv_def)
  have deg: "dict_get d v 0 = remaining ch ?U v" if "v \<in> N" for v
    using inv that by (simp add: kahn_inv_def)
  have U': "N - set (res @ [node]) = ?U - {node}" by auto
  have le: "int (count_list ?cs v) \<le> remaining ch ?U v" for v
    using remaining_remove [of ?U node ch v] remaining_nonneg [of ch "?U - {node}" v] node assms(1)
    by simp
  have csN: "set ?cs \<subseteq> N" using assms(2) by (auto simp: child_edges_def)
  then have bound: "int (count_list ?cs v) \<le> dict_get d v 0" if "v \<in> set ?cs" for v
    using le deg that by auto
  obtain zs where zs: "q' = q @ zs" "distinct zs"
      "set zs = {v \<in> set ?cs. dict_get d v 0 = int (count_list ?cs v)}"
      "\<And>v. dict_get d' v 0 = dict_get d v 0 - int (count_list ?cs v)"
    using relax_spec [OF run bound] by blast
  have zero: "v \<in> set (res @ node # q) \<longleftrightarrow> dict_get d v 0 = 0" if "v \<in> N" for v
    using inv that by (simp add: kahn_inv_def)
  have pos: "v \<notin> set (res @ node # q)" if "v \<in> set ?cs" for v
  proof -
    have "count_list ?cs v \<noteq> 0" using that by (simp add: count_list_0_iff)
    then have "0 < int (count_list ?cs v)" by simp
    with bound [OF that] zero that csN show ?thesis by fastforce
  qed
  then show "child_edges ch `` {node} \<inter> set (res @ node # q) = {}"
    by (auto simp: child_edges_def)
  have "remaining ch ?U node = 0" using zero [of node] deg [of node] node by simp
  then have preds: "\<forall>u\<in>?U. (u, node) \<notin> child_edges ch" using remaining_zero assms(1) by simp
  then show preds': "(child_edges ch)\<inverse> `` {node} \<subseteq> set res" using assms(2) by blast
  have deg': "dict_get d' v 0 = remaining ch (N - set (res @ [node])) v" if "v \<in> N" for v
    using zs(4) [of v] deg [OF that] remaining_remove [of ?U node ch v] node assms(1) U' by simp
  have zero': "v \<in> set ((res @ [node]) @ q') \<longleftrightarrow> dict_get d' v 0 = 0" if "v \<in> N" for v
  proof (cases "v \<in> set ?cs")
    case True
    with pos [OF True] zs show ?thesis by auto
  next
    case False
    then have "count_list ?cs v = 0" by (simp add: count_list_0_iff)
    with False zs zero [OF that] show ?thesis by auto
  qed
  have "distinct ((res @ [node]) @ q')" "set ((res @ [node]) @ q') \<subseteq> N"
    using inv zs(1,2,3) pos csN by (auto simp: kahn_inv_def)
  moreover have "ordered (child_edges ch) (res @ [node])"
    using inv preds' by (simp add: ordered_snoc kahn_inv_def)
  ultimately show "kahn_inv ch N d' q' (res @ [node])"
    using deg' zero' by (simp add: kahn_inv_def)
qed

section \<open>The result of the order loop\<close>

lemma kahn_exhausts:
  assumes "finite N" "child_edges ch \<subseteq> N \<times> N" "acyclic (child_edges ch)" "kahn_inv ch N d [] res"
  shows "set res = N"
proof (rule ccontr)
  assume "set res \<noteq> N"
  let ?U = "N - set res" let ?R = "child_edges ch \<inter> ?U \<times> ?U"
  have U: "?U \<noteq> {}" "finite ?U" using \<open>set res \<noteq> N\<close> assms(1,4) by (auto simp: kahn_inv_def)
  have "finite ?R" by (rule finite_subset [of _ "?U \<times> ?U"]) (use U in auto)
  moreover have "acyclic ?R" using assms(3) by (rule acyclic_subset) auto
  ultimately have "wf ?R" by (rule finite_acyclic_wf)
  moreover obtain x where "x \<in> ?U" using U(1) by blast
  ultimately obtain v where v: "v \<in> ?U" "\<And>u. (u, v) \<in> ?R \<Longrightarrow> u \<notin> ?U"
    by (rule wfE_min [where Q = ?U]) auto
  then have "\<forall>u\<in>?U. (u, v) \<notin> child_edges ch" by auto
  then have "dict_get d v 0 = 0"
    using v(1) assms(1,4) remaining_zero [of ?U ch v] by (simp add: kahn_inv_def)
  with v(1) assms(4) show False by (auto simp: kahn_inv_def)
qed

lemma kahn_result:
  assumes "finite N" "child_edges ch \<subseteq> N \<times> N" "acyclic (child_edges ch)" "kahn_inv ch N d q res"
  shows "distinct (kahn ch d q res) \<and> set (kahn ch d q res) = N \<and>
    ordered (child_edges ch) (kahn ch d q res)"
  using assms
proof (induction ch d q res rule: kahn.induct)
  case (1 ch d res)
  have "set res = N" using "1.prems" by (rule kahn_exhausts)
  moreover have "distinct res" "ordered (child_edges ch) res"
    using "1.prems"(4) by (simp_all only: kahn_inv_def append_Nil2)
  ultimately show ?case by simp
next
  case (2 ch d node queue res)
  obtain d' q' where run: "relax (dict_get ch node []) d queue = (d', q')" by fastforce
  have "kahn_inv ch N d' q' (res @ [node])"
    by (rule kahn_inv_step(1) [OF "2.prems"(1,2,4) run])
  from "2.IH" [OF run [symmetric] "2.prems"(1-3) this] run show ?case by simp
qed

text \<open>The counts and the first queue, for a graph with distinct nodes.\<close>

lemma fold_count_edge:
  "dict_get (fold (count_edge n) deps d) v 0 =
    dict_get d v 0 + (if v = n then int (length deps) else 0)"
  by (induction deps arbitrary: d) (auto simp: count_edge_def)

lemma dict_get_setdefault [simp]: "dict_get (setdefault n 0 d) v 0 = dict_get d v 0"
  by (auto simp: setdefault_def dict_get_def)

lemma count_degrees_get:
  "dict_get (count_degrees g d) v 0 =
    dict_get d v 0 + (\<Sum>(n, deps)\<leftarrow>g. if v = n then int (length deps) else 0)"
  unfolding count_degrees_def
  by (induction g arbitrary: d) (auto simp: fold_count_edge)

lemma fold_count_edge_keys:
  "n \<in> set (map fst d) \<Longrightarrow> map fst (fold (count_edge n) deps d) = map fst d"
proof (induction deps arbitrary: d)
  case Nil
  then show ?case by simp
next
  case (Cons a deps)
  have keys: "map fst (count_edge n a d) = map fst d"
    using Cons.prems by (simp add: count_edge_def map_fst_dict_set)
  with Cons.prems have "n \<in> set (map fst (count_edge n a d))" by (simp only:)
  from Cons.IH [OF this] keys show ?case by simp
qed

lemma setdefault_keys:
  "map fst (setdefault n v d) = (if n \<in> set (map fst d) then map fst d else map fst d @ [n])"
  by (auto simp: setdefault_def map_fst_dict_set map_of_eq_None_iff)

lemma count_degrees_keys_set: "set (map fst (count_degrees g d)) = set (map fst d) \<union> set (map fst g)"
  unfolding count_degrees_def
proof (induction g arbitrary: d)
  case Nil
  then show ?case by simp
next
  case (Cons p g)
  obtain n deps where p: "p = (n, deps)" by fastforce
  have "map fst (fold (count_edge n) deps (setdefault n 0 d)) = map fst (setdefault n 0 d)"
    by (rule fold_count_edge_keys) (simp add: setdefault_keys)
  with Cons [of "fold (count_edge n) deps (setdefault n 0 d)"] p show ?case
    by (auto simp: setdefault_keys)
qed

lemma count_degrees_distinct:
  "distinct (map fst d) \<Longrightarrow> distinct (map fst (count_degrees g d))"
  unfolding count_degrees_def
proof (induction g arbitrary: d)
  case Nil
  then show ?case by simp
next
  case (Cons p g)
  obtain n deps where p: "p = (n, deps)" by fastforce
  have "map fst (fold (count_edge n) deps (setdefault n 0 d)) = map fst (setdefault n 0 d)"
    by (rule fold_count_edge_keys) (simp add: setdefault_keys)
  with Cons p show ?case by (auto simp: setdefault_keys)
qed

lemma sum_list_unique:
  "distinct (map fst g) \<Longrightarrow> (v, deps) \<in> set g \<Longrightarrow>
    (\<Sum>(n, ds)\<leftarrow>g. if v = n then (f ds :: int) else 0) = f deps"
proof (induction g)
  case Nil
  then show ?case by simp
next
  case (Cons p g)
  have none: "(\<Sum>(n, ds)\<leftarrow>h. if v = n then (f ds :: int) else 0) = 0" if "v \<notin> fst ` set h" for h
    using that by (induction h) (auto split: prod.splits)
  from Cons show ?case by (cases p) (auto simp: none image_iff)
qed

lemma count_list_replicate: "count_list (replicate k x) v = (if v = x then k else 0)"
  by (induction k) auto

lemma children_count:
  assumes "distinct (map fst g)" "(v, deps) \<in> set g"
  shows "int (count_list (dict_get (children_of g) u []) v) = int (count_list deps u)"
proof -
  have "int (count_list (concat (map (\<lambda>(node, ds). replicate (count_list ds u) node) g)) v)
    = (\<Sum>(n, ds)\<leftarrow>g. if v = n then int (count_list ds u) else 0)"
    by (induction g) (auto simp: count_list_replicate)
  then show ?thesis using sum_list_unique [OF assms, of "\<lambda>ds. int (count_list ds u)"]
    by (simp add: children_of_get)
qed

lemma child_edges_children_of: "child_edges (children_of g) = edges g"
  by (auto simp: child_edges_def children_of_edges)

definition closed_graph :: "graph \<Rightarrow> bool" where
  "closed_graph g \<longleftrightarrow> distinct (map fst g) \<and> (\<forall>(node, deps) \<in> set g. set deps \<subseteq> fst ` set g)"

lemma closed_graph_edges: "closed_graph g \<Longrightarrow> edges g \<subseteq> fst ` set g \<times> fst ` set g"
proof (rule subrelI)
  fix u v assume g: "closed_graph g" and "(u, v) \<in> edges g"
  then obtain deps where "(v, deps) \<in> set g" "u \<in> set deps" by (auto simp: edges_def)
  with g show "(u, v) \<in> fst ` set g \<times> fst ` set g" by (force simp: closed_graph_def)
qed

lemma degrees_remaining:
  assumes "closed_graph g" "v \<in> fst ` set g" "\<And>n. dict_get d n 0 = 0"
  shows "dict_get (count_degrees g d) v 0 = remaining (children_of g) (fst ` set g) v"
proof -
  obtain deps where vd: "(v, deps) \<in> set g" using assms(2) by auto
  have dist: "distinct (map fst g)" using assms(1) by (simp add: closed_graph_def)
  have "remaining (children_of g) (fst ` set g) v = (\<Sum>u\<in>fst ` set g. int (count_list deps u))"
    unfolding remaining_def by (simp add: children_count [OF dist vd])
  also have "\<dots> = int (length deps)"
    using vd assms(1) sum_count_set [of deps "fst ` set g"]
    by (fastforce simp: closed_graph_def simp flip: of_nat_sum)
  also have "\<dots> = dict_get (count_degrees g d) v 0"
    using sum_list_unique [OF dist vd, of "\<lambda>ds. int (length ds)"] assms(3)
    by (simp add: count_degrees_get)
  finally show ?thesis by simp
qed

lemma kahn_inv_start:
  assumes g: "closed_graph g" and d: "\<And>n. dict_get d n 0 = 0" "distinct (map fst d)"
    "set (map fst d) \<subseteq> fst ` set g"
  defines "deg \<equiv> count_degrees g d"
  shows "kahn_inv (children_of g) (fst ` set g) deg (map fst (filter (\<lambda>(_, n). n = 0) deg)) []"
proof -
  let ?q = "map fst (filter (\<lambda>(_, n). n = 0) deg)"
  have dist: "distinct (map fst deg)" unfolding deg_def by (rule count_degrees_distinct [OF d(2)])
  have keys: "fst ` set deg = fst ` set g"
    using count_degrees_keys_set [of g d] d(3) by (auto simp: deg_def)
  have mem: "v \<in> set ?q \<longleftrightarrow> dict_get deg v 0 = 0" if v: "v \<in> fst ` set g" for v
  proof -
    obtain n where n: "(v, n) \<in> set deg" using v keys by force
    then have "map_of deg v = Some n" using dist by (simp add: map_of_is_SomeI)
    then show ?thesis using n dist by (force simp: dict_get_def dest: eq_key_imp_eq_value)
  qed
  have "distinct ?q" using dist by (simp add: distinct_map_filter)
  moreover have "set ?q \<subseteq> fst ` set g" using keys by auto
  ultimately show ?thesis
    using mem degrees_remaining [OF g _ d(1)] by (simp add: kahn_inv_def deg_def)
qed

lemma topological_sort_result:
  assumes "closed_graph (step_pairs steps)" "acyclic (edges (step_pairs steps))"
  shows "distinct (topological_sort steps)" "set (topological_sort steps) = sd_id ` set steps"
    "ordered (edges (step_pairs steps)) (topological_sort steps)"
proof -
  let ?g = "step_pairs steps"
  have nodes: "fst ` set ?g = sd_id ` set steps" by (auto simp: step_pairs_def image_iff)
  have "kahn_inv (children_of ?g) (fst ` set ?g) (count_degrees ?g [])
      (map fst (filter (\<lambda>(_, n). n = 0) (count_degrees ?g []))) []"
    using assms(1) by (rule kahn_inv_start) (simp_all add: dict_get_def)
  from kahn_result [OF _ _ _ this] assms closed_graph_edges [OF assms(1)]
  show "distinct (topological_sort steps)" "set (topological_sort steps) = sd_id ` set steps"
    "ordered (edges ?g) (topological_sort steps)"
    by (simp_all add: topological_sort_def Let_def child_edges_children_of nodes)
qed

section \<open>The result of the depth loop\<close>

lemma relax_depth_spec:
  assumes "relax_depth u cs d depth q = (d', depth', q')" "u \<notin> set cs"
  shows "dict_get depth' v 0 =
      (if v \<in> set cs then max (dict_get depth v 0) (dict_get depth u 0 + 1) else dict_get depth v 0)"
    and "fst ` set depth' = fst ` set depth \<union> set cs"
    and "distinct (map fst depth) \<Longrightarrow> distinct (map fst depth')"
proof -
  have "(\<forall>v. dict_get depth' v 0 =
      (if v \<in> set cs then max (dict_get depth v 0) (dict_get depth u 0 + 1) else dict_get depth v 0)) \<and>
    fst ` set depth' = fst ` set depth \<union> set cs \<and>
    (distinct (map fst depth) \<longrightarrow> distinct (map fst depth'))"
    using assms
  proof (induction cs arbitrary: d depth q)
    case Nil
    then show ?case by simp
  next
    case (Cons c cs)
    let ?depth = "dict_set c (max (dict_get depth c 0) (dict_get depth u 0 + 1)) depth"
    have get: "dict_get ?depth v 0 = (if v = c then max (dict_get depth c 0) (dict_get depth u 0 + 1)
        else dict_get depth v 0)" for v
      by simp
    from Cons.prems have "relax_depth u cs (dec_degree c d) ?depth
        (if dict_get (dec_degree c d) c 0 = 0 then q @ [c] else q) = (d', depth', q')" "u \<notin> set cs"
      by (simp_all add: Let_def)
    note ih = Cons.IH [OF this]
    have "c \<noteq> u" using Cons.prems(2) by auto
    with ih show ?case
      by (auto simp: get keys_dict_set distinct_dict_set)
  qed
  then show "dict_get depth' v 0 =
      (if v \<in> set cs then max (dict_get depth v 0) (dict_get depth u 0 + 1) else dict_get depth v 0)"
    and "fst ` set depth' = fst ` set depth \<union> set cs"
    and "distinct (map fst depth) \<Longrightarrow> distinct (map fst depth')" by blast+
qed

definition depth_inv :: "(string \<times> string) set \<Rightarrow> (string \<times> int) list \<Rightarrow> string list \<Rightarrow> string list \<Rightarrow> bool" where
  "depth_inv E depth q res \<longleftrightarrow>
    distinct (map fst depth) \<and> set (res @ q) \<subseteq> fst ` set depth \<and>
    (\<forall>v\<in>fst ` set depth. \<exists>p. walk E (p @ [v]) \<and> int (length p) = dict_get depth v 0) \<and>
    (\<forall>u\<in>set res. \<forall>v. (u, v) \<in> E \<longrightarrow> dict_get depth u 0 + 1 \<le> dict_get depth v 0)"

lemma depth_inv_step:
  assumes inv: "depth_inv (child_edges ch) depth (u # q) res"
    and run: "relax_depth u (dict_get ch u []) d depth q = (d', depth', q')"
    and fresh: "child_edges ch `` {u} \<inter> set (res @ u # q) = {}"
    and q': "set q' \<subseteq> set q \<union> child_edges ch `` {u}"
  shows "depth_inv (child_edges ch) depth' q' (res @ [u])"
proof -
  let ?E = "child_edges ch" let ?cs = "dict_get ch u []"
  have cs: "set ?cs = ?E `` {u}" by (auto simp: child_edges_def)
  have "u \<notin> set ?cs" using fresh cs by auto
  note spec = relax_depth_spec [OF run this]
  have walks: "\<exists>p. walk ?E (p @ [v]) \<and> int (length p) = dict_get depth v 0" if "v \<in> fst ` set depth" for v
    using inv that unfolding depth_inv_def by blast
  have u: "u \<in> fst ` set depth" using inv by (simp add: depth_inv_def)
  obtain pu where pu: "walk ?E (pu @ [u])" "int (length pu) = dict_get depth u 0" using walks u by blast
  have new: "\<exists>p. walk ?E (p @ [v]) \<and> int (length p) = dict_get depth' v 0" if "v \<in> fst ` set depth'" for v
  proof (cases "v \<in> set ?cs \<and> dict_get depth v 0 < dict_get depth u 0 + 1")
    case True
    then have "walk ?E ((pu @ [u]) @ [v])" using pu(1) cs by (simp add: walk_snoc)
    with True pu(2) spec(1) [of v] show ?thesis by (intro exI [of _ "pu @ [u]"]) simp
  next
    case False
    then have same: "dict_get depth' v 0 = dict_get depth v 0" using spec(1) [of v] by auto
    have "v \<in> fst ` set depth"
    proof (rule ccontr)
      assume v: "v \<notin> fst ` set depth"
      then have "map_of depth v = None" by (simp only: map_of_eq_None_iff not_False_eq_True)
      then have "dict_get depth v 0 = 0" by (simp add: dict_get_def)
      with False pu(2) have "v \<notin> set ?cs" by auto
      with v that spec(2) show False by simp
    qed
    with walks same show ?thesis by simp
  qed
  have mono: "dict_get depth v 0 \<le> dict_get depth' v 0" for v using spec(1) [of v] by simp
  have old: "dict_get depth' w 0 = dict_get depth w 0" if "w \<in> set (res @ [u])" for w
    using spec(1) [of w] that fresh cs by auto
  have "dict_get depth' w 0 + 1 \<le> dict_get depth' v 0" if w: "w \<in> set (res @ [u])" "(w, v) \<in> ?E" for w v
  proof (cases "w = u")
    case True
    with w have "v \<in> set ?cs" by (simp add: cs)
    with True spec(1) [of v] old [OF w(1)] show ?thesis by simp
  next
    case False
    with w inv have "dict_get depth w 0 + 1 \<le> dict_get depth v 0" by (simp add: depth_inv_def)
    with mono [of v] old [OF w(1)] show ?thesis by simp
  qed
  moreover have "set ((res @ [u]) @ q') \<subseteq> fst ` set depth'"
    using inv q' cs by (auto simp: depth_inv_def spec(2))
  moreover have "distinct (map fst depth')" using inv spec(3) by (simp add: depth_inv_def)
  ultimately show ?thesis using new unfolding depth_inv_def by blast
qed

lemma relax_queue: "relax cs d q = (d', q') \<Longrightarrow> set q' \<subseteq> set q \<union> set cs"
  by (induction cs d q rule: relax.induct) (fastforce simp: Let_def split: if_splits)+

lemma kahn_depth_result:
  assumes "finite N" "child_edges ch \<subseteq> N \<times> N" "acyclic (child_edges ch)"
    and "kahn_inv ch N d q res" "depth_inv (child_edges ch) depth q res"
  shows "\<exists>res'. set res' = N \<and> depth_inv (child_edges ch) (kahn_depth ch d depth q) [] res'"
  using assms
proof (induction ch d depth q arbitrary: res rule: kahn_depth.induct)
  case (1 ch d depth)
  then show ?case using kahn_exhausts [OF "1.prems"(1-4)] by auto
next
  case (2 ch d depth u q)
  obtain d' depth' q' where run: "relax_depth u (dict_get ch u []) d depth q = (d', depth', q')"
    by (metis prod_cases3)
  note relax = relax_depth_relax [OF run]
  note step = kahn_inv_step [OF "2.prems"(1,2,4) relax]
  have "set q' \<subseteq> set q \<union> child_edges ch `` {u}"
    using relax_queue [OF relax] by (auto simp: child_edges_def)
  note depth = depth_inv_step [OF "2.prems"(5) run step(2) this]
  from "2.IH" [OF run [symmetric] refl "2.prems"(1-3) step(1) depth] run show ?case by simp
qed

lemma depth_inv_longest:
  assumes inv: "depth_inv E depth [] res" and E: "E \<subseteq> set res \<times> set res" and v: "v \<in> set res"
  shows "walk E (p @ [v]) \<Longrightarrow> int (length p) \<le> dict_get depth v 0"
  using v
proof (induction p arbitrary: v rule: rev_induct)
  case Nil
  then have "v \<in> fst ` set depth" using inv by (auto simp: depth_inv_def)
  then show ?case using inv by (force simp: depth_inv_def)
next
  case (snoc u p)
  then have w: "walk E (p @ [u])" "(u, v) \<in> E" by (simp_all add: walk_snoc)
  then have u: "u \<in> set res" using E by auto
  with snoc.IH [OF w(1)] w(2) inv show ?case by (force simp: depth_inv_def)
qed

lemma depth_inv_start:
  assumes "distinct q"
  shows "depth_inv E (map (\<lambda>n. (n, 0)) q) q []"
proof -
  have "dict_get (map (\<lambda>n. (n, 0::int)) q) v 0 = 0" for v
    by (auto simp: dict_get_def split: option.split dest!: map_of_SomeD)
  moreover have "map fst (map (\<lambda>n. (n, 0::int)) q) = q" by (simp add: o_def)
  ultimately show ?thesis
    using assms unfolding depth_inv_def by (auto simp: image_image intro!: exI [of _ "[]"])
qed

text \<open>The longest chain of dependencies, as the check computes it.\<close>

lemma depth_inv_max:
  assumes inv: "depth_inv E D [] res" and E: "E \<subseteq> set res \<times> set res"
    and m: "m = (if D = [] then 0 else Max (set (map snd D)))"
  shows "walk E p \<Longrightarrow> int (length p) \<le> m + 1"
    and "res \<noteq> [] \<Longrightarrow> \<exists>p. walk E p \<and> int (length p) = m + 1"
proof -
  have val: "(v, n) \<in> set D \<Longrightarrow> dict_get D v 0 = n" for v n
    using inv by (simp add: depth_inv_def dict_get_def)
  have path: "\<exists>p. walk E (p @ [v]) \<and> int (length p) = n" if "(v, n) \<in> set D" for v n
    using inv that val [OF that] by (force simp: depth_inv_def)
  have le: "n \<le> m" if "(v, n) \<in> set D" for v n
    using that m by (auto intro!: Max_ge simp: rev_image_eqI)
  have "0 \<le> m"
  proof (cases D)
    case (Cons d D')
    then have "(fst d, snd d) \<in> set D" by simp
    from path [OF this] le [OF this] show ?thesis by force
  qed (simp add: m)
  moreover have "int (length p') \<le> m" if "walk E (p' @ [v])" "p' \<noteq> []" for p' v
  proof -
    from that E have v: "v \<in> set res" by (cases p' rule: rev_cases) (auto simp: walk_snoc)
    then obtain n where n: "(v, n) \<in> set D" using inv by (force simp: depth_inv_def)
    with depth_inv_longest [OF inv E v that(1)] le [OF n] val [OF n] show ?thesis by simp
  qed
  ultimately show "int (length p) \<le> m + 1" if "walk E p"
    using that by (cases p rule: rev_cases) (auto, metis length_0_conv of_nat_0)
  show "\<exists>p. walk E p \<and> int (length p) = m + 1" if "res \<noteq> []"
  proof -
    from that inv have "D \<noteq> []" by (cases res) (auto simp: depth_inv_def)
    then have "m \<in> set (map snd D)" using m Max_in [of "set (map snd D)"] by simp
    then obtain v where "(v, m) \<in> set D" by auto
    with path obtain p where "walk E (p @ [v])" "int (length p) = m" by blast
    then show ?thesis by (intro exI [of _ "p @ [v]"]) simp
  qed
qed

lemma max_found_longest:
  assumes g: "closed_graph g" and ac: "acyclic (edges g)"
  shows "walk (edges g) p \<Longrightarrow> int (length p) \<le> max_found g + 1"
    and "g \<noteq> [] \<Longrightarrow> \<exists>p. walk (edges g) p \<and> int (length p) = max_found g + 1"
proof -
  let ?ch = "children_of g" let ?N = "fst ` set g" let ?d0 = "map (\<lambda>(node, _). (node, 0::int)) g"
  let ?deg = "count_degrees g ?d0" let ?q = "map fst (filter (\<lambda>(_, n). n = 0) ?deg)"
  let ?D = "kahn_depth ?ch ?deg (map (\<lambda>n. (n, 0)) ?q) ?q"
  note E = child_edges_children_of [of g]
  have d0: "dict_get ?d0 n 0 = 0" for n by (simp add: dict_get_def map_of_const split: option.split)
  have keys: "map fst ?d0 = map fst g" by (induction g) auto
  have inv: "kahn_inv ?ch ?N ?deg ?q []"
  proof (rule kahn_inv_start [OF g d0])
    show "distinct (map fst ?d0)" unfolding keys using g by (simp add: closed_graph_def)
    show "set (map fst ?d0) \<subseteq> ?N" unfolding keys by simp
  qed
  then have "depth_inv (child_edges ?ch) (map (\<lambda>n. (n, 0)) ?q) ?q []"
    by (intro depth_inv_start) (simp add: kahn_inv_def)
  from kahn_depth_result [OF _ _ _ inv this] closed_graph_edges [OF g] ac
  obtain res where res: "set res = ?N" "depth_inv (edges g) ?D [] res" by (auto simp: E)
  have mf: "max_found g = (if ?D = [] then 0 else Max (set (map snd ?D)))"
    by (simp only: max_found_def Let_def)
  have E_res: "edges g \<subseteq> set res \<times> set res" using closed_graph_edges [OF g] res(1) by simp
  note * = depth_inv_max [OF res(2) E_res mf]
  show "walk (edges g) p \<Longrightarrow> int (length p) \<le> max_found g + 1" by (rule *(1))
  show "g \<noteq> [] \<Longrightarrow> \<exists>p. walk (edges g) p \<and> int (length p) = max_found g + 1"
    using *(2) res(1) by (cases res) auto
qed

lemma validate_max_depth_Inr_iff:
  assumes "closed_graph g" "acyclic (edges g)"
  shows "validate_max_depth g = Inr () \<longleftrightarrow> (\<forall>p. walk (edges g) p \<longrightarrow> length p \<le> nat MAX_DEPTH)"
proof (cases "g = []")
  case True
  have "length p \<le> 1" if "walk (edges []) p" for p
    using that by (cases "(edges [], p)" rule: walk.cases) (auto simp: edges_def)
  moreover have "max_found [] = 0" by (simp add: max_found_def Let_def count_degrees_def)
  ultimately show ?thesis using True by (fastforce simp: validate_max_depth_def MAX_DEPTH_def)
next
  case False
  obtain q where q: "walk (edges g) q" "int (length q) = max_found g + 1"
    using max_found_longest(2) [OF assms False] by blast
  show ?thesis
  proof
    assume "validate_max_depth g = Inr ()"
    then have "max_found g + 1 \<le> MAX_DEPTH" by (simp add: validate_max_depth_def split: if_splits)
    then show "\<forall>p. walk (edges g) p \<longrightarrow> length p \<le> nat MAX_DEPTH"
      using max_found_longest(1) [OF assms] by fastforce
  next
    assume "\<forall>p. walk (edges g) p \<longrightarrow> length p \<le> nat MAX_DEPTH"
    with q have "max_found g + 1 \<le> MAX_DEPTH" by (force simp: MAX_DEPTH_def)
    then show "validate_max_depth g = Inr ()" by (simp add: validate_max_depth_def)
  qed
qed

end
