(* ===== verification/Parser.thy ===== *)
theory Parser
  imports Topo
begin

text \<open>
  \<open>src/engine/parser.py\<close>: a raw workflow definition is checked step by step and becomes a
  \<open>workflow_definition\<close>, or the first failing check raises its error. The field constraints
  of the models (\<open>src/engine/models.py\<close>) are \<open>validate_retry_config\<close> and
  \<open>validate_step_definition\<close>: \<open>None\<close> is the validation library's \<open>ValidationError\<close>, whose
  text is the environment's \<open>env_validation_text\<close>, as is the lax reading of an integer.
  The theorems say that an accepted definition is a nonempty acyclic graph within the
  bounds, that every such definition is accepted, and which errors a rejection can carry.
\<close>

section \<open>The models\<close>

definition int_field :: "env \<Rightarrow> dict \<Rightarrow> string \<Rightarrow> int \<Rightarrow> int \<Rightarrow> int \<Rightarrow> int option" where
  "int_field E d k dflt lo hi =
    (case map_of d k of
       None \<Rightarrow> Some dflt
     | Some v \<Rightarrow>
        (case env_lax_int E v of
           None \<Rightarrow> None
         | Some i \<Rightarrow> if lo \<le> i \<and> i \<le> hi then Some i else None))"

definition validate_retry_config :: "env \<Rightarrow> json \<Rightarrow> retry_config option" where
  "validate_retry_config E j =
    (case j of
       JObj d \<Rightarrow>
        (case (int_field E d ''max_attempts'' 3 1 10, int_field E d ''delay_seconds'' 5 0 300) of
           (Some m, Some s) \<Rightarrow> Some \<lparr>rc_max_attempts = m, rc_delay_seconds = s\<rparr>
         | _ \<Rightarrow> None)
     | _ \<Rightarrow> None)"

fun as_strings :: "json list \<Rightarrow> string list option" where
  "as_strings [] = Some []"
| "as_strings (JStr s # js) = map_option (Cons s) (as_strings js)"
| "as_strings (_ # js) = None"

definition id_field :: "dict \<Rightarrow> string option" where
  "id_field d = (case map_of d ''id'' of
     Some (JStr s) \<Rightarrow> if step_id_ok s then Some s else None | _ \<Rightarrow> None)"

definition type_field :: "dict \<Rightarrow> step_type option" where
  "type_field d = (case map_of d ''type'' of Some (JStr s) \<Rightarrow> step_type_of_value s | _ \<Rightarrow> None)"

definition config_field :: "dict \<Rightarrow> dict option" where
  "config_field d = (case map_of d ''config'' of
     None \<Rightarrow> Some [] | Some (JObj c) \<Rightarrow> Some c | _ \<Rightarrow> None)"

definition depends_on_field :: "dict \<Rightarrow> string list option" where
  "depends_on_field d = (case map_of d ''depends_on'' of
     None \<Rightarrow> Some [] | Some (JList js) \<Rightarrow> as_strings js | _ \<Rightarrow> None)"

definition retry_field :: "env \<Rightarrow> dict \<Rightarrow> retry_config option option" where
  "retry_field E d = (case map_of d ''retry'' of
     None \<Rightarrow> Some None | Some JNull \<Rightarrow> Some None
   | Some j \<Rightarrow> map_option Some (validate_retry_config E j))"

definition validate_step_definition :: "env \<Rightarrow> dict \<Rightarrow> step_definition option" where
  "validate_step_definition E d =
    (case (id_field d, type_field d, config_field d, depends_on_field d, retry_field E d) of
       (Some i, Some t, Some c, Some ds, Some r) \<Rightarrow>
         Some \<lparr>sd_id = i, sd_type = t, sd_config = c, sd_depends_on = ds, sd_retry = r\<rparr>
     | _ \<Rightarrow> None)"

section \<open>The checks\<close>

text \<open>\<open>str(value)\<close> of a scalar, as an f-string prints it.\<close>

fun py_str :: "env \<Rightarrow> json \<Rightarrow> string" where
  "py_str E JNull = ''None''"
| "py_str E (JBool b) = (if b then ''True'' else ''False'')"
| "py_str E (JInt i) = string_of_int i"
| "py_str E (JFloat q) = env_float_repr E q"
| "py_str E (JStr s) = s"
| "py_str E (JList js) = env_validation_text E (JList js)"
| "py_str E (JObj d) = env_validation_text E (JObj d)"

definition VALID_STEP_TYPES :: "string list" where
  "VALID_STEP_TYPES = map step_type_value all_step_types"

definition app_error :: "string \<Rightarrow> string \<Rightarrow> json list \<Rightarrow> exn" where
  "app_error code message details = AppError code message 400 details"

text \<open>\<open>len(x)\<close> and iteration of a value that need not be a list.\<close>

fun elements :: "json \<Rightarrow> json list option" where
  "elements (JList js) = Some js"
| "elements (JStr s) = Some (map (\<lambda>c. JStr [c]) s)"
| "elements (JObj d) = Some (map (JStr \<circ> fst) d)"
| "elements _ = None"

definition validate_step_count :: "env \<Rightarrow> json \<Rightarrow> exn + json list" where
  "validate_step_count E raw_steps =
    (if \<not> py_truthy raw_steps
     then Inl (app_error ''NO_STEPS'' ''Workflow must contain at least one step.'' [])
     else case elements raw_steps of
       None \<Rightarrow> Inl (PyError ''TypeError''
         (''object of type '' @ quoted (py_type_name raw_steps) @ '' has no len()''))
     | Some js \<Rightarrow>
        if max_steps_per_workflow (env_settings E) < int (length js)
        then Inl (app_error ''TOO_MANY_STEPS''
          (''Workflow has '' @ string_of_nat (length js) @ '' steps, exceeding the maximum of ''
            @ string_of_int (max_steps_per_workflow (env_settings E)) @ ''.'') [])
        else Inr js)"

definition invalid_step :: "int \<Rightarrow> string \<Rightarrow> exn" where
  "invalid_step i text =
    app_error ''VALIDATION_ERROR'' (''Invalid step at index '' @ string_of_int i @ '': '' @ text) []"

definition parse_step :: "env \<Rightarrow> int \<Rightarrow> json \<Rightarrow> exn + step_definition" where
  "parse_step E i raw =
    (case raw of
       JObj d \<Rightarrow>
        (case validate_step_definition E d of
           Some s \<Rightarrow> Inr s
         | None \<Rightarrow>
            (case dict_get d ''type'' (JStr []) of
               JList (j # js) \<Rightarrow> Inl (PyError ''TypeError'' (''unhashable type: '' @ quoted ''list''))
             | JObj (p # ps) \<Rightarrow> Inl (PyError ''TypeError'' (''unhashable type: '' @ quoted ''dict''))
             | t \<Rightarrow>
                if py_truthy t \<and> (\<forall>s\<in>set VALID_STEP_TYPES. t \<noteq> JStr s)
                then Inl (app_error ''UNKNOWN_STEP_TYPE''
                  (''Unknown step type '' @ quoted (py_str E t) @ '' on step at index ''
                    @ string_of_int i @ ''.'')
                  [JObj [(''step_index'', JInt i), (''step_type'', t)]])
                else Inl (invalid_step i (env_validation_text E raw))))
     | _ \<Rightarrow> Inl (invalid_step i
         (''src.engine.models.StepDefinition() argument after ** must be a mapping, not ''
           @ py_type_name raw)))"

fun parse_steps :: "env \<Rightarrow> int \<Rightarrow> json list \<Rightarrow> exn + step_definition list" where
  "parse_steps E i [] = Inr []"
| "parse_steps E i (raw # raws) =
    sum_bind (parse_step E i raw) (\<lambda>s.
    sum_bind (parse_steps E (i + 1) raws) (\<lambda>ss. Inr (s # ss)))"

fun validate_unique_ids :: "string set \<Rightarrow> step_definition list \<Rightarrow> exn + unit" where
  "validate_unique_ids seen [] = Inr ()"
| "validate_unique_ids seen (s # ss) =
    (if sd_id s \<in> seen
     then Inl (app_error ''DUPLICATE_STEP_ID'' (''Duplicate step ID: '' @ quoted (sd_id s) @ ''.'')
       [JObj [(''step_id'', JStr (sd_id s))]])
     else validate_unique_ids (insert (sd_id s) seen) ss)"

definition validate_step_types :: "step_definition list \<Rightarrow> exn + unit" where
  "validate_step_types = check_all (\<lambda>s.
    if step_type_value (sd_type s) \<in> set VALID_STEP_TYPES then Inr ()
    else Inl (app_error ''UNKNOWN_STEP_TYPE''
      (''Unknown step type '' @ quoted (step_type_value (sd_type s)) @ '' on step ''
        @ quoted (sd_id s) @ ''.'')
      [JObj [(''step_id'', JStr (sd_id s)), (''step_type'', JStr (step_type_value (sd_type s)))]]))"

definition dependency_error :: "step_definition \<Rightarrow> string \<Rightarrow> exn" where
  "dependency_error s dep = app_error ''INVALID_DEPENDENCY''
    (''Step '' @ quoted (sd_id s) @ '' depends on '' @ quoted dep @ '', which does not exist.'')
    [JObj [(''step_id'', JStr (sd_id s)), (''dependency'', JStr dep)]]"

definition validate_dependencies :: "step_definition list \<Rightarrow> exn + unit" where
  "validate_dependencies steps =
    (let step_ids = set (map sd_id steps)
     in check_all (\<lambda>s. check_all (\<lambda>dep.
          if dep \<in> step_ids then Inr () else Inl (dependency_error s dep))
        (sd_depends_on s)) steps)"

definition has_jinja2 :: "string \<Rightarrow> bool" where
  "has_jinja2 v \<longleftrightarrow> contains ''{{'' v \<or> contains ''{%'' v"

definition parse_expression :: "env \<Rightarrow> string \<Rightarrow> string \<Rightarrow> string \<Rightarrow> exn + unit" where
  "parse_expression E step_id key v =
    (case env_jinja_parse E v of
       None \<Rightarrow> Inr ()
     | Some exc \<Rightarrow> Inl (app_error ''EXPRESSION_ERROR''
         (''Invalid Jinja2 expression in step '' @ quoted step_id @ '' config key '' @ quoted key
           @ '': '' @ exc)
         [JObj [(''step_id'', JStr step_id), (''key'', JStr key)]]))"

function validate_config_expressions :: "env \<Rightarrow> string \<Rightarrow> dict \<Rightarrow> exn + unit" where
  "validate_config_expressions E step_id [] = Inr ()"
| "validate_config_expressions E step_id ((key, v) # config) =
    sum_bind
      (case v of
         JStr s \<Rightarrow> if has_jinja2 s then parse_expression E step_id key s else Inr ()
       | JObj d \<Rightarrow> validate_config_expressions E step_id d
       | JList js \<Rightarrow> check_all (\<lambda>j. case j of
             JStr s \<Rightarrow> if has_jinja2 s then parse_expression E step_id key s else Inr ()
           | _ \<Rightarrow> Inr ()) js
       | _ \<Rightarrow> Inr ())
      (\<lambda>_. validate_config_expressions E step_id config)"
  by pat_completeness auto
termination by (relation "measure (\<lambda>(E, step_id, d). size (JObj d))") auto

definition validate_jinja2_expressions :: "env \<Rightarrow> step_definition list \<Rightarrow> exn + unit" where
  "validate_jinja2_expressions E =
    check_all (\<lambda>s. validate_config_expressions E (sd_id s) (sd_config s))"

definition make_definition :: "env \<Rightarrow> dict \<Rightarrow> step_definition list \<Rightarrow> graph \<Rightarrow> exn + workflow_definition" where
  "make_definition E raw steps graph =
    (case (dict_get raw ''name'' (JStr []), dict_get raw ''trigger_type'' (JStr [])) of
       (JStr n, JStr t) \<Rightarrow> Inr \<lparr>wfd_name = n, wfd_trigger_type = t, wfd_steps = steps,
         wfd_dependency_graph = graph\<rparr>
     | _ \<Rightarrow> Inl (PyError ''ValidationError'' (env_validation_text E (JObj raw))))"

text \<open>\<open>None\<close>: the parser does not return; the first theorem below excludes it.\<close>

definition parse_workflow_definition :: "env \<Rightarrow> dict \<Rightarrow> (exn + workflow_definition) option" where
  "parse_workflow_definition E raw =
    (case
       sum_bind (validate_step_count E (dict_get raw ''steps'' (JList []))) (\<lambda>raw_steps.
       sum_bind (parse_steps E 0 raw_steps) (\<lambda>steps.
       sum_bind (validate_unique_ids {} steps) (\<lambda>_.
       sum_bind (validate_step_types steps) (\<lambda>_.
       sum_bind (validate_dependencies steps) (\<lambda>_. Inr steps)))))
     of
       Inl e \<Rightarrow> Some (Inl e)
     | Inr steps \<Rightarrow>
        (let graph = build_dependency_graph steps
         in map_option (\<lambda>acyclic_check.
              sum_bind acyclic_check (\<lambda>_.
              sum_bind (validate_max_depth graph) (\<lambda>_.
              sum_bind (validate_jinja2_expressions E steps) (\<lambda>_.
              make_definition E raw steps graph))))
            (detect_cycles graph)))"

section \<open>What each check accepts\<close>

lemma validate_step_count_Inr:
  "validate_step_count E j = Inr js \<longleftrightarrow>
    elements j = Some js \<and> js \<noteq> [] \<and> int (length js) \<le> max_steps_per_workflow (env_settings E)"
  by (cases j) (auto simp: validate_step_count_def)

lemma parse_step_Inr:
  "parse_step E i raw = Inr s \<longleftrightarrow> (\<exists>d. raw = JObj d \<and> validate_step_definition E d = Some s)"
  by (auto simp: parse_step_def split: json.splits option.splits list.splits)

lemma parse_steps_Inr:
  "parse_steps E i raws = Inr steps \<longleftrightarrow>
    list_all2 (\<lambda>raw s. \<exists>d. raw = JObj d \<and> validate_step_definition E d = Some s) raws steps"
proof (induction raws arbitrary: i steps)
  case Nil
  then show ?case by auto
next
  case (Cons raw raws)
  then show ?case
    by (cases steps) (auto simp: sum_bind_Inr_iff parse_step_Inr)
qed

lemma validate_unique_ids_Inr:
  "validate_unique_ids seen steps = Inr () \<longleftrightarrow>
    distinct (map sd_id steps) \<and> set (map sd_id steps) \<inter> seen = {}"
  by (induction steps arbitrary: seen) auto

lemma validate_step_types_Inr [simp]: "validate_step_types steps = Inr ()"
  by (simp add: validate_step_types_def check_all_Inr_iff VALID_STEP_TYPES_def)

lemma validate_dependencies_Inr:
  "validate_dependencies steps = Inr () \<longleftrightarrow>
    (\<forall>s\<in>set steps. set (sd_depends_on s) \<subseteq> set (map sd_id steps))"
  by (auto simp: validate_dependencies_def check_all_Inr_iff Let_def split: if_splits)

text \<open>The strings of a configuration the scan hands to the template parser.\<close>

function scanned :: "dict \<Rightarrow> string list" where
  "scanned [] = []"
| "scanned ((key, v) # config) =
    (case v of
       JStr s \<Rightarrow> [s]
     | JObj d \<Rightarrow> scanned d
     | JList js \<Rightarrow> concat (map (\<lambda>j. case j of JStr s \<Rightarrow> [s] | _ \<Rightarrow> []) js)
     | _ \<Rightarrow> []) @ scanned config"
  by pat_completeness auto
termination by (relation "measure (\<lambda>d. size (JObj d))") auto

definition templates_ok :: "env \<Rightarrow> dict \<Rightarrow> bool" where
  "templates_ok E d \<longleftrightarrow> (\<forall>s\<in>set (scanned d). has_jinja2 s \<longrightarrow> env_jinja_parse E s = None)"

lemma parse_expression_Inr: "parse_expression E i k s = Inr () \<longleftrightarrow> env_jinja_parse E s = None"
  by (simp add: parse_expression_def split: option.split)

lemma validate_config_expressions_Inr:
  "validate_config_expressions E i d = Inr () \<longleftrightarrow> templates_ok E d"
proof (induction E i d rule: validate_config_expressions.induct)
  case (1 E i)
  then show ?case by (simp add: templates_ok_def)
next
  case (2 E i k v d)
  have js: "check_all (\<lambda>j. case j of JStr s \<Rightarrow> if has_jinja2 s then parse_expression E i k s else Inr ()
        | _ \<Rightarrow> Inr ()) js = Inr () \<longleftrightarrow>
      (\<forall>s\<in>set (concat (map (\<lambda>j. case j of JStr s \<Rightarrow> [s] | _ \<Rightarrow> []) js)).
        has_jinja2 s \<longrightarrow> env_jinja_parse E s = None)" for js
    by (fastforce simp: check_all_Inr_iff parse_expression_Inr split: json.splits if_splits)
  show ?case
    using 2 by (cases v) (auto simp: sum_bind_Inr_iff templates_ok_def parse_expression_Inr js)
qed

lemma validate_jinja2_expressions_Inr:
  "validate_jinja2_expressions E steps = Inr () \<longleftrightarrow> (\<forall>s\<in>set steps. templates_ok E (sd_config s))"
  by (simp add: validate_jinja2_expressions_def check_all_Inr_iff validate_config_expressions_Inr)

lemma make_definition_Inr:
  "make_definition E raw steps g = Inr d \<longleftrightarrow>
    (\<exists>n t. dict_get raw ''name'' (JStr []) = JStr n \<and> dict_get raw ''trigger_type'' (JStr []) = JStr t \<and>
      d = \<lparr>wfd_name = n, wfd_trigger_type = t, wfd_steps = steps, wfd_dependency_graph = g\<rparr>)"
  by (auto simp: make_definition_def split: json.splits)

section \<open>What the parser accepts\<close>

text \<open>
  The specification: a nonempty list of well-formed steps, within the size limit, with
  unique ids and existing dependencies, whose dependency relation has no cycle and no chain
  of more than \<open>MAX_DEPTH\<close> steps, and whose templates parse.
\<close>

definition dag :: "step_definition list \<Rightarrow> bool" where
  "dag steps \<longleftrightarrow> distinct (map sd_id steps) \<and>
    (\<forall>s\<in>set steps. set (sd_depends_on s) \<subseteq> sd_id ` set steps) \<and> acyclic (edges (step_pairs steps))"

definition well_formed :: "env \<Rightarrow> dict \<Rightarrow> step_definition list \<Rightarrow> bool" where
  "well_formed E raw steps \<longleftrightarrow>
    (\<exists>js. elements (dict_get raw ''steps'' (JList [])) = Some js \<and> js \<noteq> [] \<and>
      int (length js) \<le> max_steps_per_workflow (env_settings E) \<and>
      list_all2 (\<lambda>j s. \<exists>d. j = JObj d \<and> validate_step_definition E d = Some s) js steps) \<and>
    dag steps \<and> (\<forall>p. walk (edges (step_pairs steps)) p \<longrightarrow> length p \<le> nat MAX_DEPTH) \<and>
    (\<forall>s\<in>set steps. templates_ok E (sd_config s))"

lemma build_dependency_graph_pairs:
  "distinct (map sd_id steps) \<Longrightarrow> build_dependency_graph steps = step_pairs steps"
proof -
  have "fold (\<lambda>s g. dict_set (sd_id s) (sd_depends_on s) g) steps g = g @ step_pairs steps"
    if "distinct (map sd_id steps)" "set (map sd_id steps) \<inter> fst ` set g = {}" for g
    using that
  proof (induction steps arbitrary: g)
    case Nil
    then show ?case by (simp add: step_pairs_def)
  next
    case (Cons s ss)
    have "dict_set (sd_id s) (sd_depends_on s) g = g @ [(sd_id s, sd_depends_on s)]"
      using Cons.prems(2) by (induction g) (auto simp: dict_set_Cons)
    with Cons show ?case by (auto simp: step_pairs_def)
  qed
  from this [of "[]"] show "distinct (map sd_id steps) \<Longrightarrow> build_dependency_graph steps = step_pairs steps"
    by (simp add: build_dependency_graph_def)
qed

lemma dag_closed: "dag steps \<Longrightarrow> closed_graph (step_pairs steps)"
  by (force simp: dag_def closed_graph_def step_pairs_def o_def)

lemma parse_returns: "\<exists>r. parse_workflow_definition E raw = Some r"
  using detect_cycles_cases
  by (fastforce simp: parse_workflow_definition_def Let_def split: sum.split)

lemma parse_Inr_iff:
  "parse_workflow_definition E raw = Some (Inr d) \<longleftrightarrow>
    well_formed E raw (wfd_steps d) \<and>
    make_definition E raw (wfd_steps d) (step_pairs (wfd_steps d)) = Inr d"
proof -
  let ?checks = "sum_bind (validate_step_count E (dict_get raw ''steps'' (JList []))) (\<lambda>raw_steps.
       sum_bind (parse_steps E 0 raw_steps) (\<lambda>steps.
       sum_bind (validate_unique_ids {} steps) (\<lambda>_.
       sum_bind (validate_step_types steps) (\<lambda>_.
       sum_bind (validate_dependencies steps) (\<lambda>_. Inr steps)))))"
  have checks: "?checks = Inr steps \<longleftrightarrow>
      (\<exists>js. elements (dict_get raw ''steps'' (JList [])) = Some js \<and> js \<noteq> [] \<and>
        int (length js) \<le> max_steps_per_workflow (env_settings E) \<and>
        list_all2 (\<lambda>j s. \<exists>d. j = JObj d \<and> validate_step_definition E d = Some s) js steps) \<and>
      distinct (map sd_id steps) \<and>
      (\<forall>s\<in>set steps. set (sd_depends_on s) \<subseteq> sd_id ` set steps)" for steps
    by (auto simp: sum_bind_Inr_iff validate_step_count_Inr parse_steps_Inr validate_unique_ids_Inr
        validate_dependencies_Inr)
  have graph: "(map_option (\<lambda>c. sum_bind c (\<lambda>_. sum_bind (validate_max_depth g) (\<lambda>_.
        sum_bind (validate_jinja2_expressions E steps) (\<lambda>_. make_definition E raw steps g))))
        (detect_cycles g) = Some (Inr d)) \<longleftrightarrow>
      acyclic (edges g) \<and> validate_max_depth g = Inr () \<and>
      (\<forall>s\<in>set steps. templates_ok E (sd_config s)) \<and> make_definition E raw steps g = Inr d" for steps g
    using detect_cycles_cases [of g] detect_cycles_Inr_iff [of g]
    by (auto simp: sum_bind_Inr_iff validate_jinja2_expressions_Inr)
  have steps: "make_definition E raw steps g = Inr d \<Longrightarrow> wfd_steps d = steps" for steps g
    by (auto simp: make_definition_Inr)
  have "parse_workflow_definition E raw = Some (Inr d) \<longleftrightarrow>
      (\<exists>steps. ?checks = Inr steps \<and> (let g = build_dependency_graph steps in
        acyclic (edges g) \<and> validate_max_depth g = Inr () \<and>
        (\<forall>s\<in>set steps. templates_ok E (sd_config s)) \<and> make_definition E raw steps g = Inr d))"
    by (cases ?checks) (simp_all add: parse_workflow_definition_def Let_def graph del: map_option_eq_Some)
  also have "\<dots> \<longleftrightarrow> (\<exists>steps. ?checks = Inr steps \<and> well_formed E raw steps \<and>
      make_definition E raw steps (step_pairs steps) = Inr d)"
  proof (intro ex_cong1 conj_cong refl)
    fix steps assume c: "?checks = Inr steps"
    then have "distinct (map sd_id steps)" using checks by blast
    then have g: "build_dependency_graph steps = step_pairs steps"
      by (rule build_dependency_graph_pairs)
    have "dag steps \<longleftrightarrow> acyclic (edges (step_pairs steps))" using c unfolding checks dag_def by blast
    moreover have "dag steps \<Longrightarrow> validate_max_depth (step_pairs steps) = Inr () \<longleftrightarrow>
        (\<forall>p. walk (edges (step_pairs steps)) p \<longrightarrow> length p \<le> nat MAX_DEPTH)"
      by (rule validate_max_depth_Inr_iff) (simp_all add: dag_closed dag_def)
    ultimately show "(let g = build_dependency_graph steps in
        acyclic (edges g) \<and> validate_max_depth g = Inr () \<and>
        (\<forall>s\<in>set steps. templates_ok E (sd_config s)) \<and> make_definition E raw steps g = Inr d) \<longleftrightarrow>
      well_formed E raw steps \<and> make_definition E raw steps (step_pairs steps) = Inr d"
      using c unfolding checks well_formed_def g Let_def by blast
  qed
  also have "\<dots> \<longleftrightarrow> (\<exists>steps. well_formed E raw steps \<and>
      make_definition E raw steps (step_pairs steps) = Inr d)"
    unfolding checks well_formed_def dag_def by blast
  also have "\<dots> \<longleftrightarrow> well_formed E raw (wfd_steps d) \<and>
      make_definition E raw (wfd_steps d) (step_pairs (wfd_steps d)) = Inr d"
    using steps by blast
  finally show ?thesis .
qed

text \<open>The constraints the models declare hold of every accepted step.\<close>

lemma int_field_bounds:
  "int_field E d k dflt lo hi = Some i \<Longrightarrow> lo \<le> dflt \<Longrightarrow> dflt \<le> hi \<Longrightarrow> lo \<le> i \<and> i \<le> hi"
  by (auto simp: int_field_def split: option.splits if_splits)

lemma validate_retry_config_ok: "validate_retry_config E j = Some r \<Longrightarrow> retry_ok r"
  by (auto simp: validate_retry_config_def retry_ok_def split: json.splits option.splits
      dest!: int_field_bounds)

lemma validate_step_definition_ok:
  assumes "validate_step_definition E d = Some s"
  shows "step_id_ok (sd_id s)" and "sd_retry s = Some r \<Longrightarrow> retry_ok r"
    and "map_of d ''type'' = Some (JStr (step_type_value (sd_type s)))"
    and "map_of d ''id'' = Some (JStr (sd_id s))"
proof -
  from assms have *: "id_field d = Some (sd_id s)" "type_field d = Some (sd_type s)"
    "retry_field E d = Some (sd_retry s)"
    by (auto simp: validate_step_definition_def split: option.splits)
  from *(1) show "step_id_ok (sd_id s)" "map_of d ''id'' = Some (JStr (sd_id s))"
    by (auto simp: id_field_def split: option.splits json.splits if_splits)
  from *(2) show "map_of d ''type'' = Some (JStr (step_type_value (sd_type s)))"
    by (auto simp: type_field_def split: option.splits json.splits dest: step_type_of_value_Some)
  from *(3) show "retry_ok r" if "sd_retry s = Some r"
    using that by (auto simp: retry_field_def split: option.splits json.splits
        dest: validate_retry_config_ok)
qed

section \<open>How the parser rejects\<close>

definition rejection_codes :: "string list" where
  "rejection_codes = [''NO_STEPS'', ''TOO_MANY_STEPS'', ''UNKNOWN_STEP_TYPE'', ''DUPLICATE_STEP_ID'',
     ''INVALID_DEPENDENCY'', ''CYCLE_DETECTED'', ''MAX_DEPTH_EXCEEDED'', ''EXPRESSION_ERROR'',
     ''VALIDATION_ERROR'']"

definition client_error :: "exn \<Rightarrow> bool" where
  "client_error e \<longleftrightarrow> (\<exists>c m ds. e = AppError c m 400 ds \<and> c \<in> set rejection_codes)"

lemma check_all_client: "check_all f xs = Inl e \<Longrightarrow> (\<And>x e. f x = Inl e \<Longrightarrow> P e) \<Longrightarrow> P e"
  by (induction xs) (auto simp: sum_bind_Inl_iff)

lemma check_all_fails: "check_all f xs = Inl e \<Longrightarrow> \<exists>x\<in>set xs. f x = Inl e"
  by (induction xs) (auto simp: sum_bind_Inl_iff)

lemma app_error_client: "c \<in> set rejection_codes \<Longrightarrow> client_error (app_error c m ds)"
  by (simp add: client_error_def app_error_def)

lemma validate_config_expressions_client:
  "validate_config_expressions E i d = Inl e \<Longrightarrow> client_error e"
proof (induction E i d rule: validate_config_expressions.induct)
  case (2 E i k v d)
  have p: "parse_expression E i k s = Inl e \<Longrightarrow> client_error e" for s e
    by (auto simp: parse_expression_def rejection_codes_def intro!: app_error_client split: option.splits)
  have "(case v of
         JStr s \<Rightarrow> if has_jinja2 s then parse_expression E i k s else Inr ()
       | JObj d \<Rightarrow> validate_config_expressions E i d
       | JList js \<Rightarrow> check_all (\<lambda>j. case j of
             JStr s \<Rightarrow> if has_jinja2 s then parse_expression E i k s else Inr ()
           | _ \<Rightarrow> Inr ()) js
       | _ \<Rightarrow> Inr ()) = Inl e \<Longrightarrow> client_error e"
    using 2(1) by (cases v) (auto split: if_splits json.splits dest!: p elim!: check_all_client)
  with 2 show ?case by (auto simp: sum_bind_Inl_iff split: sum.splits)
qed simp

text \<open>A nonempty list or object: what a Python set cannot be asked for.\<close>

fun compound :: "json \<Rightarrow> bool" where
  "compound (JList js) = (js \<noteq> [])"
| "compound (JObj d) = (d \<noteq> [])"
| "compound _ = False"

lemma parse_step_error:
  "parse_step E i raw = Inl e \<Longrightarrow>
    client_error e \<or> (\<exists>d. raw = JObj d \<and> compound (dict_get d ''type'' (JStr [])))"
  by (auto simp: parse_step_def invalid_step_def rejection_codes_def intro!: app_error_client
      split: json.splits option.splits list.splits if_splits)

lemma parse_steps_error:
  "parse_steps E i raws = Inl e \<Longrightarrow>
    client_error e \<or> (\<exists>d. JObj d \<in> set raws \<and> compound (dict_get d ''type'' (JStr [])))"
proof (induction raws arbitrary: i)
  case (Cons raw raws)
  then show ?case by (auto simp: sum_bind_Inl_iff dest!: parse_step_error)
qed simp

lemma later_checks_client:
  "validate_unique_ids seen steps = Inl e \<Longrightarrow> client_error e"
  "validate_step_types steps = Inl e \<Longrightarrow> client_error e"
  "validate_dependencies steps = Inl e \<Longrightarrow> client_error e"
  "validate_max_depth g = Inl e \<Longrightarrow> client_error e"
  "validate_jinja2_expressions E steps = Inl e \<Longrightarrow> client_error e"
proof -
  show "validate_unique_ids seen steps = Inl e \<Longrightarrow> client_error e"
    by (induction seen steps rule: validate_unique_ids.induct)
      (auto simp: rejection_codes_def intro!: app_error_client split: if_splits)
  show "validate_step_types steps = Inl e \<Longrightarrow> client_error e" by simp
  show "client_error e" if bad: "validate_dependencies steps = Inl e"
  proof -
    let ?check = "\<lambda>(s :: step_definition) dep. if dep \<in> set (map sd_id steps) then Inr () else Inl (dependency_error s dep)"
    obtain s :: step_definition where "check_all (?check s) (sd_depends_on s) = Inl e"
      using bad check_all_fails unfolding validate_dependencies_def Let_def by blast
    then obtain dep where "?check s dep = Inl e" using check_all_fails by blast
    then have "e = dependency_error s dep" by (simp split: if_splits)
    then show ?thesis by (auto simp: dependency_error_def rejection_codes_def intro!: app_error_client)
  qed
  show "client_error e" if "validate_max_depth g = Inl e"
  proof -
    have "e = depth_error (max_found g + 1)" using that by (simp add: validate_max_depth_def split: if_splits)
    moreover have "client_error (depth_error n)" for n
      unfolding depth_error_def client_error_def by (simp add: rejection_codes_def)
    ultimately show ?thesis by simp
  qed
  show "validate_jinja2_expressions E steps = Inl e \<Longrightarrow> client_error e"
    unfolding validate_jinja2_expressions_def
    by (auto dest!: check_all_fails dest: validate_config_expressions_client)
qed

text \<open>A request body of the declared shape is rejected with one of the nine documented errors.\<close>

lemma parse_rejection:
  assumes "parse_workflow_definition E raw = Some (Inl e)"
    and "map_of raw ''name'' = Some (JStr n)" "map_of raw ''trigger_type'' = Some (JStr t)"
    and "map_of raw ''steps'' = Some (JList js)"
    and "\<And>d. JObj d \<in> set js \<Longrightarrow> \<not> compound (dict_get d ''type'' (JStr []))"
  shows "client_error e"
proof -
  let ?checks = "sum_bind (validate_step_count E (JList js)) (\<lambda>raw_steps.
       sum_bind (parse_steps E 0 raw_steps) (\<lambda>steps.
       sum_bind (validate_unique_ids {} steps) (\<lambda>_.
       sum_bind (validate_step_types steps) (\<lambda>_.
       sum_bind (validate_dependencies steps) (\<lambda>_. Inr steps)))))"
  have raw: "dict_get raw ''steps'' (JList []) = JList js" "dict_get raw ''name'' (JStr []) = JStr n"
    "dict_get raw ''trigger_type'' (JStr []) = JStr t"
    using assms(2,3,4) by (simp_all add: dict_get_def)
  have count: "validate_step_count E (JList js) = Inl e \<Longrightarrow> client_error e" for e
    by (auto simp: validate_step_count_def rejection_codes_def intro!: app_error_client split: if_splits)
  have steps: "validate_step_count E (JList js) = Inr rs \<Longrightarrow> rs = js" for rs
    by (auto simp: validate_step_count_def split: if_splits)
  show ?thesis
  proof (cases ?checks)
    case (Inl d)
    have "client_error d"
    proof (cases "validate_step_count E (JList js)")
      case (Inl c)
      with \<open>?checks = Inl d\<close> count show ?thesis by simp
    next
      case (Inr rs)
      with steps have rs: "validate_step_count E (JList js) = Inr js" by simp
      show ?thesis
      proof (cases "parse_steps E 0 js")
        case (Inl c)
        with \<open>?checks = Inl d\<close> rs have "c = d" by simp
        with parse_steps_error [OF Inl] assms(5) show ?thesis by blast
      next
        case (Inr ss)
        with \<open>?checks = Inl d\<close> rs have "validate_unique_ids {} ss = Inl d \<or> validate_dependencies ss = Inl d"
          by (auto simp: sum_bind_Inl_iff)
        with later_checks_client(1,3) show ?thesis by blast
      qed
    qed
    moreover have "e = d" using assms(1) Inl by (simp add: parse_workflow_definition_def raw)
    ultimately show ?thesis by simp
  next
    case (Inr steps)
    let ?g = "build_dependency_graph steps"
    have "map_option (\<lambda>c. sum_bind c (\<lambda>_. sum_bind (validate_max_depth ?g) (\<lambda>_.
        sum_bind (validate_jinja2_expressions E steps) (\<lambda>_. make_definition E raw steps ?g))))
        (detect_cycles ?g) = Some (Inl e)"
      using assms(1) Inr by (simp add: parse_workflow_definition_def Let_def raw del: map_option_eq_Some)
    then obtain c where c: "detect_cycles ?g = Some c" "c = Inl e \<or> validate_max_depth ?g = Inl e \<or>
        validate_jinja2_expressions E steps = Inl e \<or> make_definition E raw steps ?g = Inl e"
      by (auto simp: sum_bind_Inl_iff)
    have "make_definition E raw steps ?g \<noteq> Inl e" by (simp add: make_definition_def raw)
    with c(2) consider "c = Inl e" | "validate_max_depth ?g = Inl e" | "validate_jinja2_expressions E steps = Inl e"
      by blast
    then show ?thesis
    proof cases
      case 1
      with detect_cycles_cases [of ?g] c(1) obtain p where "e = cycle_error p" by auto
      then show ?thesis by (simp add: cycle_error_def client_error_def rejection_codes_def)
    qed (rule later_checks_client, assumption)+
  qed
qed

end
