(* ===== verification/Uuid.thy ===== *)
theory Uuid
  imports World
begin

text \<open>
  \<open>str(uuid)\<close> and \<open>uuid.UUID(text)\<close>, through which identifiers pass when they travel inside
  JSON documents (the tenant id in an execution context, the workflow id of a sub-workflow
  step) and in request paths. The constructor drops \<open>urn:\<close>, \<open>uuid:\<close>, surrounding braces and
  all hyphens, wants 32 characters, and reads them with \<open>int(text, 16)\<close>, which also takes a
  sign, a \<open>0x\<close> prefix, spaces around and single underscores between digits.
  Reading back what was printed gives the same UUID (\<open>uuid_parse_str\<close>).
\<close>

section \<open>Printing\<close>

definition hex_char :: "nat \<Rightarrow> char" where
  "hex_char n = char_of (if n < 10 then 48 + n else 87 + n)"

primrec hex_digits :: "nat \<Rightarrow> nat \<Rightarrow> string" where
  "hex_digits 0 u = []"
| "hex_digits (Suc k) u = hex_digits k (u div 16) @ [hex_char (u mod 16)]"

definition uuid_str :: "uuid \<Rightarrow> string" where
  "uuid_str u =
    (let h = hex_digits 32 u
     in take 8 h @ ''-'' @ take 4 (drop 8 h) @ ''-'' @ take 4 (drop 12 h) @ ''-''
        @ take 4 (drop 16 h) @ ''-'' @ drop 20 h)"

section \<open>Reading\<close>

definition hex_value :: "char \<Rightarrow> nat option" where
  "hex_value c =
    (let n = of_char c :: nat
     in if 48 \<le> n \<and> n \<le> 57 then Some (n - 48)
        else if 97 \<le> n \<and> n \<le> 102 then Some (n - 87)
        else if 65 \<le> n \<and> n \<le> 70 then Some (n - 55) else None)"

fun hex_num :: "bool \<Rightarrow> nat \<Rightarrow> string \<Rightarrow> nat option" where
  "hex_num digit acc [] = (if digit then Some acc else None)"
| "hex_num digit acc (c # cs) =
    (if c = CHR 0x5F then if digit then hex_num False acc cs else None
     else case hex_value c of None \<Rightarrow> None | Some v \<Rightarrow> hex_num True (acc * 16 + v) cs)"

definition py_int16 :: "string \<Rightarrow> int option" where
  "py_int16 s =
    (let t = py_strip s;
         negative = starts_with t ''-'';
         u = (if negative \<or> starts_with t ''+'' then tl t else t);
         v = (if starts_with u ''0x'' \<or> starts_with u ''0X''
              then if starts_with (drop 2 u) ''_'' then drop 3 u else drop 2 u else u)
     in map_option (\<lambda>n. if negative then - int n else int n) (hex_num False 0 v))"

text \<open>\<open>s.replace(p, '')\<close> and \<open>s.strip('{}')\<close>.\<close>

function remove_sub :: "string \<Rightarrow> string \<Rightarrow> string" where
  "remove_sub p [] = []"
| "remove_sub p (c # s) =
    (if p \<noteq> [] \<and> starts_with (c # s) p then remove_sub p (drop (length p) (c # s))
     else c # remove_sub p s)"
  by pat_completeness auto
termination by (relation "measure (\<lambda>(p, s). length s)") auto

definition strip_braces :: "string \<Rightarrow> string" where
  "strip_braces s =
    (let brace = (\<lambda>c. c = CHR 0x7B \<or> c = CHR 0x7D)
     in rev (dropWhile brace (rev (dropWhile brace s))))"

definition uuid_parse :: "string \<Rightarrow> exn + uuid" where
  "uuid_parse s =
    (let hex = remove_sub ''-'' (strip_braces (remove_sub ''uuid:'' (remove_sub ''urn:'' s)))
     in if length hex \<noteq> 32 then Inl (PyError ''ValueError'' ''badly formed hexadecimal UUID string'')
        else case py_int16 hex of
          None \<Rightarrow> Inl (PyError ''ValueError'' (''invalid literal for int() with base 16: '' @ quoted hex))
        | Some i \<Rightarrow> if 0 \<le> i \<and> i < 2 ^ 128 then Inr (nat i)
            else Inl (PyError ''ValueError'' ''int is out of range (need a 128-bit value)''))"

text \<open>\<open>uuid.UUID(value)\<close> of a JSON value: only a string has the methods it calls.\<close>

fun json_uuid :: "json \<Rightarrow> exn + uuid" where
  "json_uuid (JStr s) = uuid_parse s"
| "json_uuid JNull = Inl (PyError ''TypeError''
     ''one of the hex, bytes, bytes_le, fields, or int arguments must be given'')"
| "json_uuid j = Inl (PyError ''AttributeError''
     (quoted (py_type_name j) @ '' object has no attribute '' @ quoted ''replace''))"

section \<open>Round trip\<close>

lemma hex_value_char: "n < 16 \<Longrightarrow> hex_value (hex_char n) = Some n"
  by (auto simp: hex_value_def hex_char_def Let_def of_char_of take_bit_eq_mod)

lemma length_hex_digits [simp]: "length (hex_digits k u) = k"
  by (induction k arbitrary: u) auto

lemma hex_digits_range: "c \<in> set (hex_digits k u) \<Longrightarrow> \<exists>n<16. c = hex_char n"
proof (induction k arbitrary: u)
  case (Suc k)
  consider "c \<in> set (hex_digits k (u div 16))" | "c = hex_char (u mod 16)" using Suc.prems by auto
  then show ?case
  proof cases
    case 2
    moreover have "u mod 16 < 16" by simp
    ultimately show ?thesis by blast
  qed (rule Suc.IH)
qed simp

lemma hex_char_cases:
  assumes "n < 16"
  shows "hex_char n \<in> set ''0123456789abcdef''"
proof -
  have "list_all (\<lambda>n. hex_char n \<in> set ''0123456789abcdef'') [0..<16]" by code_simp
  then show ?thesis using assms by (simp add: list_all_iff)
qed

lemma hex_digits_chars: "c \<in> set (hex_digits k u) \<Longrightarrow> c \<in> set ''0123456789abcdef''"
  using hex_digits_range hex_char_cases by blast

lemma hex_num_digits:
  "hex_num d a (hex_digits k u @ s) = hex_num (d \<or> 0 < k) (a * 16 ^ k + u mod 16 ^ k) s"
proof (induction k arbitrary: u s)
  case 0
  then show ?case by simp
next
  case (Suc k)
  have "hex_char (u mod 16) \<in> set ''0123456789abcdef''" by (intro hex_char_cases) simp
  then have "hex_char (u mod 16) \<noteq> CHR 0x5F" by auto
  moreover have "u mod 16 ^ Suc k = (u div 16) mod 16 ^ k * 16 + u mod 16"
    by (simp add: mod_mult2_eq mult.commute)
  ultimately show ?case
    by (simp add: Suc hex_value_char algebra_simps)
qed

lemma remove_sub_absent:
  "c \<in> set p \<Longrightarrow> c \<notin> set s \<Longrightarrow> remove_sub p s = s"
proof (induction p s rule: remove_sub.induct)
  case (2 p d s)
  have "\<not> starts_with (d # s) p"
  proof
    assume "starts_with (d # s) p"
    then obtain t where "d # s = p @ t" by (auto simp: starts_with_iff)
    with 2(3,4) show False by (metis Un_iff set_append)
  qed
  with 2 show ?case by auto
qed simp

lemma remove_sub_char: "remove_sub [c] s = filter (\<lambda>d. d \<noteq> c) s"
  by (induction "[c]" s rule: remove_sub.induct) auto

lemma strip_braces_id:
  assumes "\<And>c. c \<in> set s \<Longrightarrow> c \<noteq> CHR 0x7B \<and> c \<noteq> CHR 0x7D"
  shows "strip_braces s = s"
proof -
  have "dropWhile (\<lambda>c. c = CHR 0x7B \<or> c = CHR 0x7D) t = t" if "set t \<subseteq> set s" for t
    using that assms by (cases t) auto
  then show ?thesis by (simp add: strip_braces_def Let_def)
qed

lemma py_strip_id:
  assumes "\<And>c. c \<in> set s \<Longrightarrow> \<not> is_space c"
  shows "py_strip s = s"
proof -
  have "dropWhile is_space t = t" if "set t \<subseteq> set s" for t
    using that assms by (cases t) auto
  then show ?thesis by (simp add: py_strip_def)
qed

lemma py_int16_digits:
  assumes "u < 16 ^ k" "0 < k"
  shows "py_int16 (hex_digits k u) = Some (int u)"
proof -
  let ?h = "hex_digits k u"
  have chars: "c \<in> set ''0123456789abcdef''" if "c \<in> set ?h" for c using that by (rule hex_digits_chars)
  have "\<not> is_space c" if "c \<in> set ?h" for c
    using chars [OF that] by (auto simp: is_space_def Let_def of_char_def)
  then have "py_strip ?h = ?h" by (rule py_strip_id)
  moreover have no: "\<not> starts_with ?h p" if "c \<in> set p" "c \<notin> set ''0123456789abcdef''" for c p
    using chars that unfolding starts_with_iff by (metis Un_iff set_append)
  have "\<not> starts_with ?h ''-''" "\<not> starts_with ?h ''+''" "\<not> starts_with ?h ''0x''" "\<not> starts_with ?h ''0X''"
    using no [of "CHR ''-''"] no [of "CHR ''+''"] no [of "CHR ''x''"] no [of "CHR ''X''"] by simp_all
  moreover have "hex_num False 0 ?h = Some u"
    using hex_num_digits [of False 0 k u "[]"] assms by simp
  ultimately show ?thesis by (simp add: py_int16_def Let_def)
qed

lemma uuid_str_dashes: "filter (\<lambda>c. c \<noteq> CHR 0x2D) (uuid_str u) = hex_digits 32 u"
proof -
  let ?h = "hex_digits 32 u"
  have "c \<noteq> CHR 0x2D" if "c \<in> set ?h" for c using hex_digits_chars [OF that] by auto
  then have sub: "filter (\<lambda>c. c \<noteq> CHR 0x2D) t = t" if "set t \<subseteq> set ?h" for t
    using that by (auto simp: filter_id_conv)
  have parts: "take 8 h @ take 4 (drop 8 h) @ take 4 (drop 12 h) @ take 4 (drop 16 h) @ drop 20 h = h"
    for h :: string
    using append_take_drop_id [of 8 h] append_take_drop_id [of 4 "drop 8 h"]
      append_take_drop_id [of 4 "drop 12 h"] append_take_drop_id [of 4 "drop 16 h"]
    by simp
  have "set (take n ?h) \<subseteq> set ?h" "set (drop n ?h) \<subseteq> set ?h" "set (take m (drop n ?h)) \<subseteq> set ?h" for n m
    by (auto dest: in_set_takeD in_set_dropD)
  then show ?thesis by (simp only: uuid_str_def Let_def filter_append sub parts) (simp add: parts)
qed

lemma uuid_str_chars: "c \<in> set (uuid_str u) \<Longrightarrow> c = CHR 0x2D \<or> c \<in> set ''0123456789abcdef''"
proof -
  assume "c \<in> set (uuid_str u)"
  then have "c \<noteq> CHR 0x2D \<Longrightarrow> c \<in> set (filter (\<lambda>c. c \<noteq> CHR 0x2D) (uuid_str u))" by simp
  then show ?thesis unfolding uuid_str_dashes using hex_digits_chars by blast
qed

lemma uuid_parse_str:
  assumes "u < 2 ^ 128"
  shows "uuid_parse (uuid_str u) = Inr u"
proof -
  let ?s = "uuid_str u"
  have no: "c \<notin> set ?s" if "c \<noteq> CHR 0x2D" "c \<notin> set ''0123456789abcdef''" for c
    using that uuid_str_chars by blast
  have "remove_sub ''urn:'' ?s = ?s" "remove_sub ''uuid:'' ?s = ?s"
    using remove_sub_absent [of "CHR '':''"] no [of "CHR '':''"] by simp_all
  moreover have "strip_braces ?s = ?s"
    using no [of "CHR 0x7B"] no [of "CHR 0x7D"] by (intro strip_braces_id) auto
  moreover have "remove_sub ''-'' ?s = hex_digits 32 u"
    by (simp add: remove_sub_char uuid_str_dashes)
  moreover have "py_int16 (hex_digits 32 u) = Some (int u)"
    using assms by (intro py_int16_digits) simp_all
  ultimately show ?thesis using assms by (simp add: uuid_parse_def Let_def)
qed

end
