(* ===== verification/Expressions.thy ===== *)
theory Expressions
  imports Parser Uuid
begin

text \<open>
  \<open>src/lib/expressions.py\<close>: rendering a template against a context. The template engine is
  the environment's \<open>env_render\<close>; every exception it raises becomes one application error.
  Besides the JSON documents listed here a step's context holds the database session under
  \<open>_session\<close>; a template that reaches for it is outside the model.
\<close>

definition expression_error :: "string \<Rightarrow> exn" where
  "expression_error m = app_error ''EXPRESSION_ERROR'' m []"

definition evaluate_expression :: "env \<Rightarrow> json \<Rightarrow> dict \<Rightarrow> exn + string" where
  "evaluate_expression E template context =
    (if \<not> py_truthy template then Inr ''''
     else case env_render E template context of
       Rendered s \<Rightarrow> Inr s
     | TemplateSyntaxError exc \<Rightarrow> Inl (expression_error (''Template syntax error: '' @ exc))
     | UndefinedError exc \<Rightarrow> Inl (expression_error (''Undefined variable in expression: '' @ exc))
     | SecurityError exc \<Rightarrow> Inl (expression_error (''Unsafe expression blocked: '' @ exc))
     | RenderError exc \<Rightarrow> Inl (expression_error (''Expression evaluation failed: '' @ exc)))"

lemma evaluate_expression_error:
  "evaluate_expression E t c = Inl e \<Longrightarrow> \<exists>m. e = AppError ''EXPRESSION_ERROR'' m 400 []"
  by (auto simp: evaluate_expression_def expression_error_def app_error_def
      split: if_splits rendered.splits)

text \<open>The shared errors of the operations that look up a row.\<close>

definition not_found :: "string \<Rightarrow> exn" where
  "not_found what = AppError ''NOT_FOUND'' (what @ '' not found.'') 404 []"

definition attribute_error :: "json \<Rightarrow> string \<Rightarrow> exn" where
  "attribute_error j a = PyError ''AttributeError''
     (quoted (py_type_name j) @ '' object has no attribute '' @ quoted a)"

text \<open>\<open>x[:n]\<close> of a string, for any \<open>n\<close>.\<close>

definition py_prefix :: "int \<Rightarrow> string \<Rightarrow> string" where
  "py_prefix n s = (if 0 \<le> n then take (nat n) s else take (length s - nat (- n)) s)"

lemma length_py_prefix: "0 \<le> n \<Longrightarrow> length (py_prefix n s) \<le> nat n"
  by (simp add: py_prefix_def)

end
