(* ===== verification/Context.thy ===== *)
theory Context
  imports Expressions
begin

text \<open>
  \<open>src/engine/context.py\<close>: the shared context of an execution. A completed step leaves its
  output under \<open>steps.<id>.output\<close>; the input of a step is the \<open>steps\<close> and \<open>trigger\<close> parts.
  \<open>merge_context\<close> is the computation on the dictionary, \<open>merge_step_output\<close> the operation
  on the stored row, made of its read (\<open>fetch_execution\<close>) and its write (\<open>write_output\<close>).
\<close>

text \<open>
  \<open>dict(x)\<close>. A stored context holds an object under \<open>steps\<close>, and \<open>dict\<close> copies it; on
  other values \<open>dict\<close> reads an iterable of pairs or raises.
\<close>

fun pair_of :: "json \<Rightarrow> (string \<times> json) option" where
  "pair_of (JList [JStr k, v]) = Some (k, v)"
| "pair_of (JStr [a, b]) = Some ([a], JStr [b])"
| "pair_of _ = None"

fun pairs_of :: "json list \<Rightarrow> dict \<Rightarrow> dict option" where
  "pairs_of [] d = Some d"
| "pairs_of (j # js) d =
    (case pair_of j of None \<Rightarrow> None | Some (k, v) \<Rightarrow> pairs_of js (dict_set k v d))"

definition py_dict :: "json \<Rightarrow> exn + dict" where
  "py_dict j =
    (case j of
       JObj d \<Rightarrow> Inr d
     | JList js \<Rightarrow> (case pairs_of js [] of Some d \<Rightarrow> Inr d
         | None \<Rightarrow> Inl (PyError ''TypeError'' ''cannot convert dictionary update sequence''))
     | JStr [] \<Rightarrow> Inr []
     | JStr s \<Rightarrow> Inl (PyError ''ValueError'' ''dictionary update sequence element #0 has length 1; 2 is required'')
     | _ \<Rightarrow> Inl (PyError ''TypeError'' (quoted (py_type_name j) @ '' object is not iterable'')))"

definition merge_context :: "dict \<Rightarrow> string \<Rightarrow> dict \<Rightarrow> exn + dict" where
  "merge_context ctx step_id output_data =
    sum_bind (py_dict (dict_get ctx ''steps'' (JObj []))) (\<lambda>steps.
    Inr (dict_set ''steps''
      (JObj (dict_set step_id (JObj [(''output'', JObj output_data)]) steps)) ctx))"

text \<open>
  The operation reads the row, computes, and writes the whole column back. Each of the two
  halves is one access to the database, and another session may act between them.
\<close>

definition fetch_execution :: "uuid \<Rightarrow> (world, execution) proc" where
  "fetch_execution execution_id w =
    (case find_execution w execution_id of
       None \<Rightarrow> raise (not_found ''Execution'') w
     | Some execution \<Rightarrow> ret execution w)"

definition write_output :: "uuid \<Rightarrow> string \<Rightarrow> dict \<Rightarrow> execution \<Rightarrow> (world, unit) proc" where
  "write_output execution_id step_id output_data execution =
    andthen (lift_result (merge_context (ex_context execution) step_id output_data)) (\<lambda>ctx.
    andthen (modify (upd_execution execution_id (\<lambda>r. r\<lparr>ex_context := ctx\<rparr>))) (\<lambda>_.
    log_event (ContextMerge execution_id step_id)))"

definition merge_step_output :: "uuid \<Rightarrow> string \<Rightarrow> dict \<Rightarrow> (world, unit) proc" where
  "merge_step_output execution_id step_id output_data =
    andthen (fetch_execution execution_id) (write_output execution_id step_id output_data)"

definition get_step_input :: "dict \<Rightarrow> string \<Rightarrow> dict \<Rightarrow> dict" where
  "get_step_input context step_id step_config =
    [(''steps'', dict_get context ''steps'' (JObj [])),
     (''trigger'', dict_get context ''trigger'' (JObj []))]"

section \<open>Contexts as the engine writes them\<close>

text \<open>The outputs a context holds, by step id.\<close>

definition outputs :: "dict \<Rightarrow> string \<Rightarrow> dict option" where
  "outputs ctx s =
    (case map_of ctx ''steps'' of
       Some (JObj steps) \<Rightarrow>
         (case map_of steps s of
            Some (JObj d) \<Rightarrow> (case map_of d ''output'' of Some (JObj out) \<Rightarrow> Some out | _ \<Rightarrow> None)
          | _ \<Rightarrow> None)
     | _ \<Rightarrow> None)"

definition context_ok :: "dict \<Rightarrow> bool" where
  "context_ok ctx \<longleftrightarrow> (\<exists>steps. map_of ctx ''steps'' = Some (JObj steps))"

lemma merge_context_ok:
  assumes "context_ok ctx"
  obtains ctx' where "merge_context ctx s out = Inr ctx'" "context_ok ctx'"
    "outputs ctx' = (outputs ctx)(s \<mapsto> out)" "\<And>k. k \<noteq> ''steps'' \<Longrightarrow> map_of ctx' k = map_of ctx k"
proof -
  from assms obtain steps where steps: "map_of ctx ''steps'' = Some (JObj steps)"
    by (auto simp: context_ok_def)
  let ?ctx = "dict_set ''steps'' (JObj (dict_set s (JObj [(''output'', JObj out)]) steps)) ctx"
  have "merge_context ctx s out = Inr ?ctx"
    by (simp add: merge_context_def dict_get_def steps py_dict_def)
  moreover have "context_ok ?ctx" by (simp add: context_ok_def)
  moreover have "outputs ?ctx = (outputs ctx)(s \<mapsto> out)"
    by (rule ext) (simp add: outputs_def steps)
  ultimately show ?thesis using that by simp
qed

text \<open>The context after a step: one more output, or nothing new.\<close>

definition context_after :: "dict \<Rightarrow> string \<Rightarrow> dict option \<Rightarrow> dict \<Rightarrow> bool" where
  "context_after c s out c' \<longleftrightarrow>
    context_ok c' \<and> (\<forall>k. k \<noteq> ''steps'' \<longrightarrow> map_of c' k = map_of c k) \<and>
    outputs c' = (case out of None \<Rightarrow> outputs c | Some d \<Rightarrow> (outputs c)(s \<mapsto> d))"

lemma merge_context_after:
  assumes "context_ok ctx"
  obtains ctx' where "merge_context ctx s out = Inr ctx'" "context_after ctx s (Some out) ctx'"
proof (rule merge_context_ok [OF assms, of s out])
  fix c assume "merge_context ctx s out = Inr c" "context_ok c" "outputs c = (outputs ctx)(s \<mapsto> out)"
    "\<And>k. k \<noteq> ''steps'' \<Longrightarrow> map_of c k = map_of ctx k"
  then show ?thesis by (intro that) (auto simp: context_after_def)
qed

lemma merge_step_output_cases:
  "merge_step_output i s out w =
    (case find_execution w i of
       None \<Rightarrow> raise (not_found ''Execution'') w
     | Some execution \<Rightarrow> write_output i s out execution w)"
  by (simp add: merge_step_output_def fetch_execution_def andthen_def split: option.split)

lemma fetch_execution_found: "find_execution w i = Some x \<Longrightarrow> fetch_execution i w = (Inr x, w)"
  by (simp add: fetch_execution_def)

lemma write_output_run:
  assumes "merge_context (ex_context x) s out = Inr ctx'"
  shows "write_output i s out x w =
    (Inr (), (upd_execution i (\<lambda>r. r\<lparr>ex_context := ctx'\<rparr>) w)\<lparr>w_events := w_events w @ [ContextMerge i s]\<rparr>)"
  using assms by (simp add: write_output_def andthen_def monad_simps)

lemma merge_step_output_None:
  "find_execution w i = None \<Longrightarrow> merge_step_output i s out w = (Inl (not_found ''Execution''), w)"
  by (simp add: merge_step_output_cases)

lemma merge_step_output_ok:
  assumes "find_execution w i = Some x" "merge_context (ex_context x) s out = Inr ctx'"
  shows "merge_step_output i s out w =
    (Inr (), (upd_execution i (\<lambda>r. r\<lparr>ex_context := ctx'\<rparr>) w)\<lparr>w_events := w_events w @ [ContextMerge i s]\<rparr>)"
  using assms by (simp add: merge_step_output_cases write_output_run)

lemma get_step_input_steps:
  "map_of ctx ''steps'' = Some j \<Longrightarrow> map_of (get_step_input ctx s c) ''steps'' = Some j"
  by (simp add: get_step_input_def dict_get_def)

section \<open>Two sessions\<close>

text \<open>
  Two sessions that finish steps of one execution, one after the other or both reading
  before either writes. The write stores what was computed from the row as it was read, so the
  order of the four accesses decides what is left.
\<close>

lemma stored_context_after_write:
  assumes "find_execution w i = Some x" "merge_context (ex_context y) s out = Inr c"
  shows "\<exists>w'. write_output i s out y w = (Inr (), w') \<and>
    find_execution w' i = Some (x\<lparr>ex_context := c\<rparr>) \<and> w_events w' = w_events w @ [ContextMerge i s]"
  using assms ext.find_upd_same [of "\<lambda>r. r\<lparr>ex_context := c\<rparr>" w i x] by (simp add: write_output_run)

lemma merges_in_turn:
  assumes "find_execution w i = Some x" "context_ok (ex_context x)"
  shows "\<exists>c w'. andthen (merge_step_output i s a) (\<lambda>_. merge_step_output i t b) w = (Inr (), w') \<and>
    find_execution w' i = Some (x\<lparr>ex_context := c\<rparr>) \<and> outputs c = (outputs (ex_context x))(s \<mapsto> a, t \<mapsto> b) \<and>
    w_events w' = w_events w @ [ContextMerge i s, ContextMerge i t]"
proof -
  obtain c where c: "merge_context (ex_context x) s a = Inr c" "context_ok c"
    "outputs c = (outputs (ex_context x))(s \<mapsto> a)" by (rule merge_context_ok [OF assms(2)])
  obtain d where d: "merge_context c t b = Inr d" "outputs d = (outputs c)(t \<mapsto> b)"
    by (rule merge_context_ok [OF c(2)])
  from stored_context_after_write [OF assms(1) c(1)] obtain u where u:
    "write_output i s a x w = (Inr (), u)" "find_execution u i = Some (x\<lparr>ex_context := c\<rparr>)"
    "w_events u = w_events w @ [ContextMerge i s]" by blast
  from stored_context_after_write [OF u(2), of "x\<lparr>ex_context := c\<rparr>" t b d] d(1) u
  show ?thesis using c(3) d(2)
    by (auto simp: merge_step_output_cases assms(1) andthen_def)
qed

lemma merges_interleaved:
  assumes "find_execution w i = Some x" "context_ok (ex_context x)"
  shows "\<exists>c w'. andthen (fetch_execution i) (\<lambda>A. andthen (fetch_execution i) (\<lambda>B.
      andthen (write_output i s a A) (\<lambda>_. write_output i t b B))) w = (Inr (), w') \<and>
    find_execution w' i = Some (x\<lparr>ex_context := c\<rparr>) \<and> outputs c = (outputs (ex_context x))(t \<mapsto> b) \<and>
    w_events w' = w_events w @ [ContextMerge i s, ContextMerge i t]"
proof -
  obtain c where c: "merge_context (ex_context x) s a = Inr c" by (rule merge_context_ok [OF assms(2)])
  obtain d where d: "merge_context (ex_context x) t b = Inr d" "outputs d = (outputs (ex_context x))(t \<mapsto> b)"
    by (rule merge_context_ok [OF assms(2)])
  from stored_context_after_write [OF assms(1) c(1)] obtain u where u:
    "write_output i s a x w = (Inr (), u)" "find_execution u i = Some (x\<lparr>ex_context := c\<rparr>)"
    "w_events u = w_events w @ [ContextMerge i s]" by blast
  from stored_context_after_write [OF u(2) d(1)] u d(2) show ?thesis
    by (auto simp: fetch_execution_found [OF assms(1)] andthen_def)
qed

end
