(* ===== verification/Steps.thy ===== *)
theory Steps
  imports Context
begin

text \<open>
  The step executors of \<open>src/steps\<close>. Condition, delay and transform steps compute a result
  from their configuration and the step's input; an HTTP step asks the environment's HTTP
  client; a sub-workflow step calls \<open>start_execution\<close> of the orchestrator, which is its
  argument \<open>start\<close> here and is tied to the real one in \<open>Orchestrator\<close>.
\<close>

section \<open>Conditions, delays, transforms\<close>

definition config_error :: "string \<Rightarrow> exn" where
  "config_error m = app_error ''STEP_CONFIG_ERROR'' m []"

text \<open>\<open>expression[:100] if expression else ''\<close>, evaluated for the log line.\<close>

definition slice_for_log :: "json \<Rightarrow> exn + unit" where
  "slice_for_log j =
    (if \<not> py_truthy j then Inr ()
     else case j of
       JStr s \<Rightarrow> Inr ()
     | JList js \<Rightarrow> Inr ()
     | JObj d \<Rightarrow> Inl (PyError ''KeyError'' ''slice(None, 100, None)'')
     | _ \<Rightarrow> Inl (PyError ''TypeError'' (quoted (py_type_name j) @ '' object is not subscriptable'')))"

definition FALSY_VALUES :: "string list" where
  "FALSY_VALUES = ['''', ''false'', ''0'', ''none'', ''False'', ''None'']"

definition evaluate_truthiness :: "string \<Rightarrow> bool" where
  "evaluate_truthiness v =
    (if v = '''' then False else py_lower (py_strip v) \<notin> set FALSY_VALUES)"

definition condition_execute :: "env \<Rightarrow> dict \<Rightarrow> dict \<Rightarrow> exn + dict" where
  "condition_execute E config context =
    (case map_of config ''expression'' of
       None \<Rightarrow> Inl (config_error (''Condition step requires '' @ quoted ''expression'' @ '' in config.''))
     | Some expression \<Rightarrow>
         (let true_branch = dict_get config ''true_branch'' (JList []);
              false_branch = dict_get config ''false_branch'' (JList [])
          in sum_bind (slice_for_log expression) (\<lambda>_.
             sum_bind (evaluate_expression E expression context) (\<lambda>result_str.
             if evaluate_truthiness result_str
             then Inr [(''result'', JBool True), (''branch'', JStr ''true''), (''branch_steps'', true_branch)]
             else Inr [(''result'', JBool False), (''branch'', JStr ''false''),
                       (''branch_steps'', false_branch)]))))"

definition MAX_DELAY_SECONDS :: rat where
  "MAX_DELAY_SECONDS = 3600"

text \<open>A Python number: \<open>isinstance(x, (int, float))\<close> holds of booleans too.\<close>

fun py_number :: "json \<Rightarrow> rat option" where
  "py_number (JInt i) = Some (of_int i)"
| "py_number (JBool b) = Some (if b then 1 else 0)"
| "py_number (JFloat q) = Some q"
| "py_number _ = None"

definition delay_execute :: "env \<Rightarrow> dict \<Rightarrow> dict \<Rightarrow> exn + dict" where
  "delay_execute E config context =
    (case map_of config ''seconds'' of
       None \<Rightarrow> Inl (config_error (''Delay step requires '' @ quoted ''seconds'' @ '' in config.''))
     | Some seconds \<Rightarrow>
        (case py_number seconds of
           None \<Rightarrow> Inl (config_error (''Delay step '' @ quoted ''seconds'' @ '' must be a number.''))
         | Some q \<Rightarrow>
             if q \<le> 0
             then Inl (config_error (''Delay step '' @ quoted ''seconds'' @ '' must be positive.''))
             else if MAX_DELAY_SECONDS < q
             then Inl (config_error (''Delay step '' @ quoted ''seconds'' @ '' must not exceed 3600.''))
             else Inr [(''delayed_seconds'', seconds)]))"

definition transform_execute :: "env \<Rightarrow> dict \<Rightarrow> dict \<Rightarrow> exn + dict" where
  "transform_execute E config context =
    (case map_of config ''expression'' of
       None \<Rightarrow> Inl (config_error (''Transform step requires '' @ quoted ''expression'' @ '' in config.''))
     | Some expression \<Rightarrow>
         sum_bind (slice_for_log expression) (\<lambda>_.
         sum_bind (evaluate_expression E expression context) (\<lambda>result.
         Inr [(''result'', JStr result)])))"

section \<open>HTTP\<close>

fun render_items :: "env \<Rightarrow> dict \<Rightarrow> dict \<Rightarrow> exn + (string \<times> string) list" where
  "render_items E [] context = Inr []"
| "render_items E ((key, v) # items) context =
    sum_bind (evaluate_expression E v context) (\<lambda>s.
    sum_bind (render_items E items context) (\<lambda>rest. Inr ((key, s) # rest)))"

definition render_headers :: "env \<Rightarrow> json \<Rightarrow> dict \<Rightarrow> exn + (string \<times> string) list" where
  "render_headers E headers context =
    (if \<not> py_truthy headers then Inr []
     else case headers of
       JObj d \<Rightarrow> render_items E d context
     | _ \<Rightarrow> Inl (attribute_error headers ''items''))"

definition render_body :: "env \<Rightarrow> json \<Rightarrow> dict \<Rightarrow> exn + string option" where
  "render_body E body context =
    (if \<not> py_truthy body then Inr None
     else sum_bind (evaluate_expression E body context) (\<lambda>s. Inr (Some s)))"

definition http_prepare :: "env \<Rightarrow> dict \<Rightarrow> dict \<Rightarrow> exn + http_request" where
  "http_prepare E config context =
    (let url_template = dict_get config ''url'' JNull
     in if \<not> py_truthy url_template
        then Inl (config_error (''HTTP step requires '' @ quoted ''url'' @ '' in config.''))
        else
          (case dict_get config ''method'' (JStr ''GET'') of
             JStr m \<Rightarrow>
               sum_bind (evaluate_expression E url_template context) (\<lambda>url.
               sum_bind (render_headers E (dict_get config ''headers'' (JObj [])) context) (\<lambda>headers.
               sum_bind (render_body E (dict_get config ''body'' JNull) context) (\<lambda>body.
               Inr \<lparr>rq_method = py_upper m, rq_url = url, rq_headers = headers,
                 rq_content = (case body of None \<Rightarrow> None | Some b \<Rightarrow> if b = '''' then None else Some b),
                 rq_timeout = dict_get config ''timeout_seconds''
                   (JInt (http_step_timeout (env_settings E)))\<rparr>)))
           | j \<Rightarrow> Inl (attribute_error j ''upper'')))"

definition cap_body :: "env \<Rightarrow> string \<Rightarrow> string" where
  "cap_body E text =
    (if max_response_body_size (env_settings E) < int (length text)
     then py_prefix (max_response_body_size (env_settings E)) text @ ''... [truncated]''
     else text)"

definition http_result :: "env \<Rightarrow> http_request \<Rightarrow> http_outcome \<Rightarrow> int \<Rightarrow> exn + dict" where
  "http_result E rq outcome duration_ms =
    (case outcome of
       HttpTimeout exc \<Rightarrow> Inl (AppError ''HTTP_STEP_TIMEOUT''
         (''HTTP request timed out after '' @ py_str E (rq_timeout rq) @ ''s: '' @ exc) 504 [])
     | HttpError exc \<Rightarrow> Inl (AppError ''HTTP_STEP_ERROR'' (''HTTP request failed: '' @ exc) 502 [])
     | HttpOther cls exc \<Rightarrow> Inl (PyError cls exc)
     | HttpResponse rs \<Rightarrow>
        (let body = cap_body E (rs_text rs)
         in if \<not> (200 \<le> rs_status_code rs \<and> rs_status_code rs < 300)
            then Inl (AppError ''HTTP_STEP_ERROR''
              (''HTTP '' @ rq_method rq @ '' '' @ rq_url rq @ '' returned ''
                @ string_of_int (rs_status_code rs) @ '': '' @ py_prefix 200 body) 502
              [JObj [(''status_code'', JInt (rs_status_code rs)), (''body'', JStr (py_prefix 500 body))]])
            else Inr [(''status_code'', JInt (rs_status_code rs)),
              (''headers'', JObj (map (\<lambda>(k, v). (k, JStr v)) (rs_headers rs))),
              (''body'', JStr body), (''duration_ms'', JInt duration_ms)]))"

definition http_execute :: "env \<Rightarrow> dict \<Rightarrow> dict \<Rightarrow> (world, dict) proc" where
  "http_execute E config context =
    andthen (lift_result (http_prepare E config context)) (\<lambda>rq w.
      (http_result E rq (env_http E (w_ticks w) rq) (env_http_ms E (w_ticks w)),
       w\<lparr>w_ticks := Suc (w_ticks w)\<rparr>))"

section \<open>Sub-workflows\<close>

fun map_inputs :: "env \<Rightarrow> dict \<Rightarrow> dict \<Rightarrow> exn + dict" where
  "map_inputs E [] context = Inr []"
| "map_inputs E ((key, expression) # items) context =
    sum_bind
      (case expression of
         JStr s \<Rightarrow> if contains ''{{'' s
           then sum_bind (evaluate_expression E expression context) (\<lambda>r. Inr (JStr r)) else Inr expression
       | _ \<Rightarrow> Inr expression) (\<lambda>v.
    sum_bind (map_inputs E items context) (\<lambda>rest. Inr ((key, v) # rest)))"

definition build_trigger_data :: "env \<Rightarrow> dict \<Rightarrow> dict \<Rightarrow> exn + dict" where
  "build_trigger_data E config context =
    (let input_mapping = dict_get config ''input_mapping'' (JObj []);
         eval_context = [(''steps'', dict_get context ''steps'' (JObj [])),
                         (''trigger'', dict_get context ''trigger'' (JObj []))]
     in if \<not> py_truthy input_mapping
        then Inr [(''source'', JStr ''sub_workflow''), (''data'', JObj [])]
        else case input_mapping of
          JObj items \<Rightarrow> sum_bind (map_inputs E items eval_context) (\<lambda>mapped_data.
            Inr [(''source'', JStr ''sub_workflow''), (''data'', JObj mapped_data)])
        | j \<Rightarrow> Inl (attribute_error j ''items''))"

text \<open>The nesting depth is an integer: the engine writes nothing else under \<open>_depth\<close>.\<close>

fun depth_of :: "json \<Rightarrow> exn + int" where
  "depth_of (JInt i) = Inr i"
| "depth_of (JBool b) = Inr (if b then 1 else 0)"
| "depth_of j = Inl (PyError ''TypeError'' (quoted ''>='' @ '' not supported between instances of ''
     @ quoted (py_type_name j) @ '' and '' @ quoted ''int''))"

definition sub_workflow_target :: "env \<Rightarrow> dict \<Rightarrow> dict \<Rightarrow> exn + (uuid \<times> uuid \<times> int)" where
  "sub_workflow_target E config context =
    (case map_of config ''workflow_id'' of
       None \<Rightarrow> Inl (config_error (''Sub_workflow step requires '' @ quoted ''workflow_id'' @ '' in config.''))
     | Some wid \<Rightarrow>
        sum_bind (depth_of (dict_get context ''_depth'' (JInt 0))) (\<lambda>current_depth.
        if max_sub_workflow_depth (env_settings E) \<le> current_depth
        then Inl (app_error ''MAX_DEPTH_EXCEEDED''
          (''Sub-workflow depth '' @ string_of_int (current_depth + 1) @ '' exceeds maximum of ''
            @ string_of_int (max_sub_workflow_depth (env_settings E)) @ ''.'') [])
        else
          sum_bind (json_uuid wid) (\<lambda>workflow_id.
          sum_bind
            (case map_of context ''_tenant_id'' of
               None \<Rightarrow> Inl (PyError ''KeyError'' (quoted ''_tenant_id''))
             | Some t \<Rightarrow> json_uuid t) (\<lambda>tenant_id.
          Inr (workflow_id, tenant_id, current_depth)))))"

definition sub_workflow_execute ::
    "env \<Rightarrow> (workflow \<Rightarrow> dict \<Rightarrow> uuid \<Rightarrow> int \<Rightarrow> (world, execution) proc) \<Rightarrow>
     dict \<Rightarrow> dict \<Rightarrow> (world, dict) proc" where
  "sub_workflow_execute E start config context =
    andthen (lift_result (sub_workflow_target E config context)) (\<lambda>(workflow_id, tenant_id, current_depth) w.
      (case find_workflow w workflow_id of
         None \<Rightarrow> raise (not_found (''Sub-workflow '' @ uuid_str workflow_id)) w
       | Some sub \<Rightarrow>
          if wf_tenant_id sub \<noteq> tenant_id
          then raise (not_found (''Sub-workflow '' @ uuid_str workflow_id)) w
          else if \<not> wf_is_active sub
          then raise (app_error ''WORKFLOW_INACTIVE'' ''Sub-workflow is not active.'' []) w
          else
            andthen (lift_result (build_trigger_data E config context)) (\<lambda>trigger_data.
            andthen (start sub trigger_data tenant_id (current_depth + 1)) (\<lambda>execution.
            ret [(''status'', JStr (status_str (ex_status execution))),
                 (''context'', JObj (ex_context execution))])) w))"

section \<open>What the executors promise\<close>

lemma evaluate_truthiness_iff:
  "evaluate_truthiness v \<longleftrightarrow> py_lower (py_strip v) \<notin> {'''', ''false'', ''0'', ''none''}"
proof -
  have no_upper: "CHR ''F'' \<notin> set (py_lower s)" "CHR ''N'' \<notin> set (py_lower s)" for s
  proof -
    have "char_lower c \<noteq> CHR ''F''" "char_lower c \<noteq> CHR ''N''" for c
    proof -
      have "(of_char (char_lower c) :: nat) \<noteq> 70" "(of_char (char_lower c) :: nat) \<noteq> 78"
        by (auto simp: char_lower_def Let_def of_char_of take_bit_eq_mod)
      then show "char_lower c \<noteq> CHR ''F''" "char_lower c \<noteq> CHR ''N''" by auto
    qed
    then show "CHR ''F'' \<notin> set (py_lower s)" "CHR ''N'' \<notin> set (py_lower s)"
      by (auto simp: py_lower_def) metis+
  qed
  have "py_lower s \<noteq> ''False''" "py_lower s \<noteq> ''None''" for s
    using no_upper [of s] by auto
  moreover have "py_lower (py_strip '''') = ''''" by (simp add: py_lower_def py_strip_def)
  ultimately show ?thesis by (auto simp: evaluate_truthiness_def FALSY_VALUES_def)
qed

lemma condition_execute_Inr:
  assumes "condition_execute E config context = Inr out"
  obtains b where "map_of out ''result'' = Some (JBool b)"
    "map_of out ''branch'' = Some (JStr (if b then ''true'' else ''false''))"
    "map_of out ''branch_steps'' = Some (dict_get config (if b then ''true_branch'' else ''false_branch'') (JList []))"
  using assms
  by (fastforce simp: condition_execute_def Let_def sum_bind_Inr_iff split: option.splits if_splits)

lemma http_result_Inr_iff:
  "(\<exists>out. http_result E rq outcome ms = Inr out) \<longleftrightarrow>
    (\<exists>rs. outcome = HttpResponse rs \<and> rs_status_code rs div 100 = 2)"
  by (auto simp: http_result_def Let_def split: http_outcome.splits)

lemma length_cap_body:
  "0 \<le> max_response_body_size (env_settings E) \<Longrightarrow>
    length (cap_body E s) \<le> nat (max_response_body_size (env_settings E)) + 15"
  by (auto simp: cap_body_def py_prefix_def)

text \<open>An executor other than a sub-workflow step changes the clock counter only.\<close>

lemma http_execute_frame: "http_execute E config context w = (r, w') \<Longrightarrow> \<exists>n\<ge>w_ticks w. w' = w\<lparr>w_ticks := n\<rparr>"
  by (auto simp: http_execute_def elim!: andthenE intro: exI [of _ "w_ticks w"]
      exI [of _ "Suc (w_ticks w)"])

end
