(* ===== verification/StateMachine.thy ===== *)
theory StateMachine
  imports World
begin

text \<open>
  \<open>src/engine/state.py\<close>: the transition tables of executions and of steps, the two
  validators, and the two procedures that look a row up, validate, stamp and write it.
  The locale \<open>lifecycle\<close> states what a transition table promises; both tables are
  interpretations of it. A run of the state machine is a sequence of calls of the two
  procedures on any rows, in any order, failed calls included.
\<close>

section \<open>The tables and the validators\<close>

definition ALLOWED_EXECUTION_TRANSITIONS :: "(status \<times> status list) list" where
  "ALLOWED_EXECUTION_TRANSITIONS =
    [(Pending, [Running, Cancelled]),
     (Running, [Completed, Failed, Cancelled]),
     (Completed, []),
     (Failed, []),
     (Cancelled, [])]"

definition ALLOWED_STEP_TRANSITIONS :: "(status \<times> status list) list" where
  "ALLOWED_STEP_TRANSITIONS =
    [(Pending, [Queued, Skipped]),
     (Queued, [Running, Skipped]),
     (Running, [Completed, Failed, Skipped]),
     (Completed, []),
     (Failed, [Queued]),
     (Skipped, [])]"

definition may_move :: "(status \<times> status list) list \<Rightarrow> status \<Rightarrow> status \<Rightarrow> bool" where
  "may_move A s t = (case map_of A s of None \<Rightarrow> False | Some ts \<Rightarrow> t \<in> set ts)"

definition validate_execution_transition :: "status \<Rightarrow> status \<Rightarrow> exn + unit" where
  "validate_execution_transition current_status new_status =
    (let allowed = map_of ALLOWED_EXECUTION_TRANSITIONS current_status
     in if allowed = None \<or> new_status \<notin> set (the allowed) then
          Inl (AppError ''INVALID_TRANSITION''
            (''Invalid execution transition: '' @ quoted (status_str current_status)
              @ '' -> '' @ quoted (status_str new_status)) 409 [])
        else Inr ())"

definition validate_step_transition :: "status \<Rightarrow> status \<Rightarrow> exn + unit" where
  "validate_step_transition current_status new_status =
    (let allowed = map_of ALLOWED_STEP_TRANSITIONS current_status
     in if allowed = None \<or> new_status \<notin> set (the allowed) then
          Inl (AppError ''INVALID_TRANSITION''
            (''Invalid step transition: '' @ quoted (status_str current_status)
              @ '' -> '' @ quoted (status_str new_status)) 409 [])
        else Inr ())"

lemma validate_execution_transition_iff:
  "validate_execution_transition s t = Inr () \<longleftrightarrow> may_move ALLOWED_EXECUTION_TRANSITIONS s t"
  by (auto simp: validate_execution_transition_def may_move_def Let_def split: option.splits)

lemma validate_step_transition_iff:
  "validate_step_transition s t = Inr () \<longleftrightarrow> may_move ALLOWED_STEP_TRANSITIONS s t"
  by (auto simp: validate_step_transition_def may_move_def Let_def split: option.splits)

section \<open>The transitions\<close>

definition stamp_execution :: "env \<Rightarrow> status \<Rightarrow> time \<Rightarrow> execution \<Rightarrow> execution" where
  "stamp_execution E new_status now r0 =
    (let r = r0\<lparr>ex_status := new_status\<rparr>
     in if new_status = Running then r\<lparr>ex_started_at := Some now\<rparr>
        else if new_status \<in> {Completed, Failed, Cancelled} then
          (case ex_started_at r of
             None \<Rightarrow> r\<lparr>ex_completed_at := Some now\<rparr>
           | Some started \<Rightarrow> r\<lparr>ex_completed_at := Some now,
                               ex_duration_ms := Some (env_ms E (now - started))\<rparr>)
        else r)"

definition transition_execution :: "env \<Rightarrow> uuid \<Rightarrow> status \<Rightarrow> (world, execution) proc" where
  "transition_execution E execution_id new_status w =
    (case find_execution w execution_id of
       None \<Rightarrow> raise (AppError ''NOT_FOUND'' ''Execution not found.'' 404 []) w
     | Some execution \<Rightarrow>
         andthen (lift_result (validate_execution_transition (ex_status execution) new_status))
           (\<lambda>_. andthen (utc_now E)
             (\<lambda>now. andthen (modify (upd_execution execution_id (stamp_execution E new_status now)))
               (\<lambda>_. andthen (log_event (ExecutionTransition execution_id new_status))
                 (\<lambda>_. ret (stamp_execution E new_status now execution))))) w)"

definition stamp_step :: "env \<Rightarrow> status \<Rightarrow> time \<Rightarrow> string option \<Rightarrow> step_execution \<Rightarrow> step_execution" where
  "stamp_step E new_status now error r0 =
    (let r = r0\<lparr>se_status := new_status\<rparr>;
         r1 = (if new_status = Running then r\<lparr>se_started_at := Some now\<rparr>
               else if new_status \<in> {Completed, Failed} then
                 (case se_started_at r of
                    None \<Rightarrow> r\<lparr>se_completed_at := Some now\<rparr>
                  | Some started \<Rightarrow> r\<lparr>se_completed_at := Some now,
                                      se_duration_ms := Some (env_ms E (now - started))\<rparr>)
               else r)
     in case error of None \<Rightarrow> r1 | Some m \<Rightarrow> r1\<lparr>se_error := Some m\<rparr>)"

definition transition_step :: "env \<Rightarrow> uuid \<Rightarrow> status \<Rightarrow> string option \<Rightarrow> (world, step_execution) proc" where
  "transition_step E step_execution_id new_status error w =
    (case find_step w step_execution_id of
       None \<Rightarrow> raise (AppError ''NOT_FOUND'' ''Step execution not found.'' 404 []) w
     | Some step_exec \<Rightarrow>
         andthen (lift_result (validate_step_transition (se_status step_exec) new_status))
           (\<lambda>_. andthen (utc_now E)
             (\<lambda>now. andthen (modify (upd_step step_execution_id (stamp_step E new_status now error)))
               (\<lambda>_. andthen (log_event (StepTransition step_execution_id (se_step_id step_exec) new_status))
                 (\<lambda>_. ret (stamp_step E new_status now error step_exec))))) w)"

lemma stamp_execution_frame [simp]:
  "ex_id (stamp_execution E t n r) = ex_id r"
  "ex_status (stamp_execution E t n r) = t"
  "ex_tenant_id (stamp_execution E t n r) = ex_tenant_id r"
  "ex_workflow_id (stamp_execution E t n r) = ex_workflow_id r"
  "ex_context (stamp_execution E t n r) = ex_context r"
  "ex_trigger_data (stamp_execution E t n r) = ex_trigger_data r"
  "ex_replayed_from (stamp_execution E t n r) = ex_replayed_from r"
  "ex_error (stamp_execution E t n r) = ex_error r"
  "ex_created_at (stamp_execution E t n r) = ex_created_at r"
  by (auto simp: stamp_execution_def Let_def split: option.splits)

lemma stamp_step_frame [simp]:
  "se_id (stamp_step E t n e r) = se_id r"
  "se_status (stamp_step E t n e r) = t"
  "se_tenant_id (stamp_step E t n e r) = se_tenant_id r"
  "se_execution_id (stamp_step E t n e r) = se_execution_id r"
  "se_step_id (stamp_step E t n e r) = se_step_id r"
  "se_step_type (stamp_step E t n e r) = se_step_type r"
  "se_output_data (stamp_step E t n e r) = se_output_data r"
  "se_input_data (stamp_step E t n e r) = se_input_data r"
  "se_attempt (stamp_step E t n e r) = se_attempt r"
  "se_max_attempts (stamp_step E t n e r) = se_max_attempts r"
  "se_error (stamp_step E t n e r) = (case e of None \<Rightarrow> se_error r | Some m \<Rightarrow> Some m)"
  by (auto simp: stamp_step_def Let_def split: option.splits)

text \<open>One call, resolved: the three possible outcomes of each procedure.\<close>

lemma transition_execution_None:
  "find_execution w i = None \<Longrightarrow>
    transition_execution E i t w = (Inl (AppError ''NOT_FOUND'' ''Execution not found.'' 404 []), w)"
  by (simp add: transition_execution_def)

lemma transition_execution_ok:
  assumes "find_execution w i = Some r" "may_move ALLOWED_EXECUTION_TRANSITIONS (ex_status r) t"
  shows "transition_execution E i t w =
    (Inr (stamp_execution E t (env_now E (w_ticks w)) r),
     (upd_execution i (stamp_execution E t (env_now E (w_ticks w))) (w\<lparr>w_ticks := Suc (w_ticks w)\<rparr>))
       \<lparr>w_events := w_events w @ [ExecutionTransition i t]\<rparr>)"
  using assms
  by (simp add: transition_execution_def validate_execution_transition_iff [symmetric]
      andthen_def monad_simps)

lemma transition_execution_bad:
  assumes "find_execution w i = Some r" "\<not> may_move ALLOWED_EXECUTION_TRANSITIONS (ex_status r) t"
  shows "\<exists>m. transition_execution E i t w = (Inl (AppError ''INVALID_TRANSITION'' m 409 []), w)"
  using assms
  by (auto simp: transition_execution_def validate_execution_transition_def may_move_def
      andthen_def Let_def split: option.splits)

lemma transition_step_None:
  "find_step w i = None \<Longrightarrow>
    transition_step E i t e w = (Inl (AppError ''NOT_FOUND'' ''Step execution not found.'' 404 []), w)"
  by (simp add: transition_step_def)

lemma transition_step_ok:
  assumes "find_step w i = Some r" "may_move ALLOWED_STEP_TRANSITIONS (se_status r) t"
  shows "transition_step E i t e w =
    (Inr (stamp_step E t (env_now E (w_ticks w)) e r),
     (upd_step i (stamp_step E t (env_now E (w_ticks w)) e) (w\<lparr>w_ticks := Suc (w_ticks w)\<rparr>))
       \<lparr>w_events := w_events w @ [StepTransition i (se_step_id r) t]\<rparr>)"
  using assms
  by (simp add: transition_step_def validate_step_transition_iff [symmetric]
      andthen_def monad_simps)

lemma transition_step_bad:
  assumes "find_step w i = Some r" "\<not> may_move ALLOWED_STEP_TRANSITIONS (se_status r) t"
  shows "\<exists>m. transition_step E i t e w = (Inl (AppError ''INVALID_TRANSITION'' m 409 []), w)"
  using assms
  by (auto simp: transition_step_def validate_step_transition_def may_move_def
      andthen_def Let_def split: option.splits)

section \<open>Runs of the state machine\<close>

text \<open>Legal paths through a table, from a start status.\<close>

fun path :: "(status \<times> status list) list \<Rightarrow> status \<Rightarrow> status list \<Rightarrow> bool" where
  "path A s [] = True"
| "path A s (t # ts) = (may_move A s t \<and> path A t ts)"

lemma path_append: "path A s (xs @ ys) \<longleftrightarrow> path A s xs \<and> path A (last (s # xs)) ys"
  by (induction xs arbitrary: s) auto

locale lifecycle =
  fixes A :: "(status \<times> status list) list" and terminal :: "status \<Rightarrow> bool"
  assumes terminal_stuck: "terminal s \<Longrightarrow> \<not> may_move A s t"
    and target_known: "may_move A s t \<Longrightarrow> map_of A t \<noteq> None"
    and progress: "map_of A s \<noteq> None \<Longrightarrow> \<not> terminal s \<Longrightarrow> \<exists>t. may_move A s t"
begin

lemma terminal_path: "path A s ts \<Longrightarrow> terminal s \<Longrightarrow> ts = []"
  by (cases ts) (auto dest: terminal_stuck)

lemma terminal_is_last: "path A s (xs @ t # ys) \<Longrightarrow> terminal t \<Longrightarrow> ys = []"
  by (auto simp: path_append dest: terminal_path)

lemma path_known: "path A s ts \<Longrightarrow> t \<in> set ts \<Longrightarrow> map_of A t \<noteq> None"
  by (induction ts arbitrary: s) (auto dest: target_known)

end

text \<open>
  Rows with a status that a family of procedures moves along a table: one call either leaves
  a row and its logged history alone, or moves the row to an allowed status and logs it.
\<close>

locale status_table = row_store key find add upd + lifecycle A terminal
  for key :: "'r \<Rightarrow> uuid" and find :: "'d \<Rightarrow> uuid \<Rightarrow> 'r option"
    and add :: "'r \<Rightarrow> 'd \<Rightarrow> 'd" and upd :: "uuid \<Rightarrow> ('r \<Rightarrow> 'r) \<Rightarrow> 'd \<Rightarrow> 'd"
    and A :: "(status \<times> status list) list" and terminal :: "status \<Rightarrow> bool" +
  fixes status_of :: "'r \<Rightarrow> status" and history :: "'d \<Rightarrow> uuid \<Rightarrow> status list"
    and call :: "'d \<Rightarrow> 'd \<Rightarrow> bool"
  assumes call_cases: "call d d' \<Longrightarrow> find d i = Some r \<Longrightarrow>
    (find d' i = Some r \<and> history d' i = history d i) \<or>
    (\<exists>r'. find d' i = Some r' \<and> may_move A (status_of r) (status_of r') \<and>
      history d' i = history d i @ [status_of r'])"
begin

lemma run_history:
  assumes "call\<^sup>*\<^sup>* d d'" "find d i = Some r"
  obtains r' h where "find d' i = Some r'" "history d' i = history d i @ h"
    "path A (status_of r) h" "status_of r' = last (status_of r # h)"
proof -
  from assms have "\<exists>r' h. find d' i = Some r' \<and> history d' i = history d i @ h \<and>
    path A (status_of r) h \<and> status_of r' = last (status_of r # h)"
  proof (induction rule: rtranclp_induct)
    case base
    then show ?case by (auto intro: exI [of _ "[]"])
  next
    case (step e e')
    then obtain r' h where IH: "find e i = Some r'" "history e i = history d i @ h"
      "path A (status_of r) h" "status_of r' = last (status_of r # h)" by blast
    from call_cases [OF step.hyps(2) IH(1)] show ?case
    proof
      assume "find e' i = Some r' \<and> history e' i = history e i"
      with IH show ?thesis by auto
    next
      assume "\<exists>q. find e' i = Some q \<and> may_move A (status_of r') (status_of q) \<and>
        history e' i = history e i @ [status_of q]"
      then obtain q where "find e' i = Some q" "may_move A (status_of r') (status_of q)"
        "history e' i = history e i @ [status_of q]" by blast
      with IH have "find e' i = Some q \<and> history e' i = history d i @ (h @ [status_of q]) \<and>
        path A (status_of r) (h @ [status_of q]) \<and>
        status_of q = last (status_of r # h @ [status_of q])"
        by (auto simp: path_append)
      then show ?thesis by blast
    qed
  qed
  then show ?thesis using that by blast
qed

lemma terminal_row_fixed:
  assumes "call\<^sup>*\<^sup>* d d'" "find d i = Some r" "terminal (status_of r)"
  shows "find d' i = Some r \<and> history d' i = history d i"
  using assms
proof (induction rule: rtranclp_induct)
  case base
  then show ?case by simp
next
  case (step e e')
  then have IH: "find e i = Some r" "history e i = history d i" by simp_all
  from call_cases [OF step.hyps(2) IH(1)] show ?case
    using IH terminal_stuck [OF step.prems(2)] by auto
qed

end

text \<open>The calls of the engine, and the histories its log keeps.\<close>

inductive state_call :: "env \<Rightarrow> world \<Rightarrow> world \<Rightarrow> bool" for E where
  on_execution: "transition_execution E i t w = (r, w') \<Longrightarrow> state_call E w w'"
| on_step: "transition_step E i t e w = (s, w') \<Longrightarrow> state_call E w w'"

fun execution_history :: "uuid \<Rightarrow> event list \<Rightarrow> status list" where
  "execution_history i [] = []"
| "execution_history i (ExecutionTransition j t # es) =
    (if j = i then t # execution_history i es else execution_history i es)"
| "execution_history i (e # es) = execution_history i es"

fun step_history :: "uuid \<Rightarrow> event list \<Rightarrow> status list" where
  "step_history i [] = []"
| "step_history i (StepTransition j s t # es) =
    (if j = i then t # step_history i es else step_history i es)"
| "step_history i (e # es) = step_history i es"

lemma execution_history_append [simp]:
  "execution_history i (es @ fs) = execution_history i es @ execution_history i fs"
  by (induction i es rule: execution_history.induct) auto

lemma step_history_append [simp]:
  "step_history i (es @ fs) = step_history i es @ step_history i fs"
  by (induction i es rule: step_history.induct) auto

definition execution_terminal :: "status \<Rightarrow> bool" where
  "execution_terminal s \<longleftrightarrow> s \<in> {Completed, Failed, Cancelled}"

definition step_terminal :: "status \<Rightarrow> bool" where
  "step_terminal s \<longleftrightarrow> s \<in> {Completed, Skipped}"

lemma execution_moves:
  "may_move ALLOWED_EXECUTION_TRANSITIONS s t \<longleftrightarrow>
    s = Pending \<and> t \<in> {Running, Cancelled} \<or> s = Running \<and> t \<in> {Completed, Failed, Cancelled}"
  by (auto simp: may_move_def ALLOWED_EXECUTION_TRANSITIONS_def split: if_splits)

lemma step_moves:
  "may_move ALLOWED_STEP_TRANSITIONS s t \<longleftrightarrow>
    s = Pending \<and> t \<in> {Queued, Skipped} \<or> s = Queued \<and> t \<in> {Running, Skipped} \<or>
    s = Running \<and> t \<in> {Completed, Failed, Skipped} \<or> s = Failed \<and> t = Queued"
  by (auto simp: may_move_def ALLOWED_STEP_TRANSITIONS_def split: if_splits)

lemma execution_call_cases:
  assumes "state_call E w w'" "find_execution w i = Some r"
  shows "(find_execution w' i = Some r \<and>
      execution_history i (w_events w') = execution_history i (w_events w)) \<or>
    (\<exists>k. w_ticks w \<le> k \<and> k < w_ticks w' \<and> (\<exists>t. may_move ALLOWED_EXECUTION_TRANSITIONS (ex_status r) t \<and>
      find_execution w' i = Some (stamp_execution E t (env_now E k) r) \<and>
      execution_history i (w_events w') = execution_history i (w_events w) @ [t]))"
  using assms(1)
proof cases
  case (on_execution j t q)
  show ?thesis
  proof (cases "find_execution w j")
    case None
    with on_execution assms(2) show ?thesis by (simp add: transition_execution_None)
  next
    case (Some s)
    show ?thesis
    proof (cases "may_move ALLOWED_EXECUTION_TRANSITIONS (ex_status s) t")
      case True
      note run = transition_execution_ok [OF Some True, of E] on_execution
      show ?thesis
      proof (cases "i = j")
        case True
        with run assms(2) Some \<open>may_move _ (ex_status s) t\<close> show ?thesis
          by (intro disjI2 exI [of _ "w_ticks w"] conjI exI [of _ t]) (auto simp: ext.find_upd)
      next
        case False
        with run assms(2) show ?thesis by (auto simp: ext.find_upd)
      qed
    next
      case False
      with on_execution Some assms(2) transition_execution_bad [OF Some False, of E] show ?thesis by auto
    qed
  qed
next
  case (on_step j t e q)
  then show ?thesis
    using assms(2) transition_step_bad [of w j _ t E e]
    by (cases "find_step w j"; cases "may_move ALLOWED_STEP_TRANSITIONS (se_status (the (find_step w j))) t")
      (auto simp: transition_step_None transition_step_ok)
qed

lemma step_call_cases:
  assumes "state_call E w w'" "find_step w i = Some r"
  shows "(find_step w' i = Some r \<and> step_history i (w_events w') = step_history i (w_events w)) \<or>
    (\<exists>t n e. may_move ALLOWED_STEP_TRANSITIONS (se_status r) t \<and>
      find_step w' i = Some (stamp_step E t n e r) \<and>
      step_history i (w_events w') = step_history i (w_events w) @ [t])"
  using assms(1)
proof cases
  case (on_step j t e q)
  show ?thesis
  proof (cases "find_step w j")
    case None
    with on_step assms(2) show ?thesis by (simp add: transition_step_None)
  next
    case (Some s)
    show ?thesis
    proof (cases "may_move ALLOWED_STEP_TRANSITIONS (se_status s) t")
      case True
      note run = transition_step_ok [OF Some True, of E e] on_step
      show ?thesis
      proof (cases "i = j")
        case True
        with run assms(2) Some \<open>may_move _ (se_status s) t\<close> show ?thesis
          by (intro disjI2 exI [of _ t] exI [of _ "env_now E (w_ticks w)"] exI [of _ e] conjI)
            (auto simp: stt.find_upd)
      next
        case False
        with run assms(2) show ?thesis by (auto simp: stt.find_upd)
      qed
    next
      case False
      with on_step Some assms(2) transition_step_bad [OF Some False, of E e] show ?thesis by auto
    qed
  qed
next
  case (on_execution j t q)
  then show ?thesis
    using assms(2) transition_execution_bad [of w j _ t E]
    by (cases "find_execution w j";
        cases "may_move ALLOWED_EXECUTION_TRANSITIONS (ex_status (the (find_execution w j))) t")
      (auto simp: transition_execution_None transition_execution_ok)
qed

interpretation exl: status_table ex_id find_execution add_execution upd_execution
  ALLOWED_EXECUTION_TRANSITIONS execution_terminal ex_status
  "\<lambda>w i. execution_history i (w_events w)" "state_call E" for E
proof (unfold_locales, goal_cases)
  case (1 s t)
  then show ?case by (auto simp: execution_moves execution_terminal_def)
next
  case (2 s t)
  then show ?case unfolding execution_moves
    by (auto simp: ALLOWED_EXECUTION_TRANSITIONS_def)
next
  case (3 s)
  then show ?case unfolding execution_moves
    by (auto simp: execution_terminal_def ALLOWED_EXECUTION_TRANSITIONS_def split: if_splits)
next
  case (4 d d' i r)
  from execution_call_cases [OF 4] show ?case by auto
qed

interpretation stl: status_table se_id find_step add_step upd_step
  ALLOWED_STEP_TRANSITIONS step_terminal se_status
  "\<lambda>w i. step_history i (w_events w)" "state_call E" for E
proof (unfold_locales, goal_cases)
  case (1 s t)
  then show ?case by (auto simp: step_moves step_terminal_def)
next
  case (2 s t)
  then show ?case unfolding step_moves by (auto simp: ALLOWED_STEP_TRANSITIONS_def)
next
  case (3 s)
  then show ?case unfolding step_moves
    by (auto simp: step_terminal_def ALLOWED_STEP_TRANSITIONS_def split: if_splits)
next
  case (4 d d' i r)
  from step_call_cases [OF 4] show ?case by auto
qed

end
