(* ===== verification/Orchestrator.thy ===== *)
theory Orchestrator
  imports Steps StateMachine
begin

text \<open>
  \<open>src/engine/orchestrator.py\<close>: an execution from its creation to its end. The rows are
  created, the steps are walked in topological order, each step is attempted until it
  succeeds or its attempts are used up, a condition step decides which steps are skipped,
  and the execution ends completed or failed.

  The functions take the step runner as an argument \<open>run\<close>, because a sub-workflow step runs
  a whole execution. \<open>sub_start\<close> ties the knot with fuel: level \<open>n + 1\<close> runs its steps with
  level \<open>n\<close>. The top level gets as much fuel as \<open>max_sub_workflow_depth\<close>; the theory
  \<open>Nesting\<close> shows that this is enough on every input.
\<close>

type_synonym runner = "step_definition \<Rightarrow> dict \<Rightarrow> (world, dict) proc"

section \<open>One step\<close>

definition refreshed :: "uuid \<Rightarrow> (world, execution) proc" where
  "refreshed execution_id w =
    (case find_execution w execution_id of
       None \<Rightarrow> raise (PyError ''InvalidRequestError'' ''Could not refresh instance'') w
     | Some execution \<Rightarrow> ret execution w)"

definition step_input_of :: "dict \<Rightarrow> step_definition \<Rightarrow> dict" where
  "step_input_of context step_def =
    get_step_input context (sd_id step_def) (sd_config step_def) @
    [(''_depth'', dict_get context ''_depth'' (JInt 0)),
     (''_tenant_id'', dict_get context ''_tenant_id'' (JStr ''''))]"

definition begin_attempt :: "env \<Rightarrow> uuid \<Rightarrow> int \<Rightarrow> (world, unit) proc" where
  "begin_attempt E step_exec attempt =
    andthen (modify (upd_step step_exec (\<lambda>r. r\<lparr>se_attempt := attempt\<rparr>))) (\<lambda>_.
    andthen (\<lambda>w.
      (case find_step w step_exec of
         None \<Rightarrow> ret () w
       | Some r \<Rightarrow>
          if se_status r = Pending \<or> se_status r = Failed
          then andthen (transition_step E step_exec Queued None) (\<lambda>_. ret ()) w
          else ret () w)) (\<lambda>_.
    andthen (transition_step E step_exec Running None) (\<lambda>_. ret ())))"

definition attempt_step :: "env \<Rightarrow> runner \<Rightarrow> uuid \<Rightarrow> step_definition \<Rightarrow> uuid \<Rightarrow> (world, bool) proc" where
  "attempt_step E run execution_id step_def step_exec =
    andthen (refreshed execution_id) (\<lambda>execution.
    andthen (run step_def (step_input_of (ex_context execution) step_def)) (\<lambda>output.
    andthen (transition_step E step_exec Completed None) (\<lambda>_.
    andthen (modify (upd_step step_exec (\<lambda>r. r\<lparr>se_output_data := Some output\<rparr>))) (\<lambda>_.
    andthen (merge_step_output execution_id (sd_id step_def) output) (\<lambda>_.
    ret True)))))"

text \<open>
  The \<open>while attempt < max_attempts\<close> loop: the recursion is on the attempts that are left,
  \<open>max_attempts - attempt\<close>, which each turn lowers by one.
\<close>

primrec retry_loop :: "env \<Rightarrow> runner \<Rightarrow> uuid \<Rightarrow> step_definition \<Rightarrow> uuid \<Rightarrow> int \<Rightarrow> nat \<Rightarrow> int \<Rightarrow>
    (world, bool) proc" where
  "retry_loop E run execution_id step_def step_exec max_attempts 0 done = ret False"
| "retry_loop E run execution_id step_def step_exec max_attempts (Suc left) done =
    (let attempt = done + 1
     in andthen (begin_attempt E step_exec attempt) (\<lambda>_.
        on_error (attempt_step E run execution_id step_def step_exec) (\<lambda>exc.
          andthen (transition_step E step_exec Failed (Some (exn_str exc))) (\<lambda>_.
          if max_attempts \<le> attempt
          then andthen (log_event (StepRetriesExhausted execution_id (sd_id step_def) attempt)) (\<lambda>_. ret False)
          else andthen (log_event (StepRetry execution_id (sd_id step_def) attempt)) (\<lambda>_.
            retry_loop E run execution_id step_def step_exec max_attempts left attempt)))))"

definition execute_step_with_retry ::
    "env \<Rightarrow> runner \<Rightarrow> uuid \<Rightarrow> step_definition \<Rightarrow> uuid \<Rightarrow> (world, bool) proc" where
  "execute_step_with_retry E run execution_id step_def step_exec w =
    (case find_step w step_exec of
       None \<Rightarrow> raise (PyError ''InvalidRequestError'' ''Could not refresh instance'') w
     | Some r \<Rightarrow>
         retry_loop E run execution_id step_def step_exec (se_max_attempts r)
           (nat (se_max_attempts r)) 0 w)"

section \<open>Branches\<close>

text \<open>\<open>set(x)\<close>, of which only the strings can be step ids.\<close>

definition unhashable :: "json \<Rightarrow> bool" where
  "unhashable j = (case j of JList js \<Rightarrow> True | JObj d \<Rightarrow> True | _ \<Rightarrow> False)"

fun strings_in :: "json list \<Rightarrow> string list" where
  "strings_in [] = []"
| "strings_in (JStr s # js) = s # strings_in js"
| "strings_in (_ # js) = strings_in js"

definition branch_set :: "json \<Rightarrow> exn + string list" where
  "branch_set j =
    (case j of
       JList js \<Rightarrow>
         (case List.find unhashable js of
            Some x \<Rightarrow> Inl (PyError ''TypeError'' (''unhashable type: '' @ quoted (py_type_name x)))
          | None \<Rightarrow> Inr (strings_in js))
     | JStr s \<Rightarrow> Inr (map (\<lambda>c. [c]) s)
     | JObj d \<Rightarrow> Inr (map fst d)
     | _ \<Rightarrow> Inl (PyError ''TypeError'' (quoted (py_type_name j) @ '' object is not iterable'')))"

definition condition_taken :: "env \<Rightarrow> dict option \<Rightarrow> bool" where
  "condition_taken E output_data =
    (let output = (case output_data of None \<Rightarrow> [] | Some d \<Rightarrow> d)
     in case dict_get output ''result'' (JBool False) of
       JBool b \<Rightarrow> b
     | v \<Rightarrow> (let result_str = py_str E v
             in result_str \<noteq> '''' \<and> py_lower result_str \<notin> {''false'', ''0'', ''none'', ''''}))"

definition resolve_condition_branches :: "env \<Rightarrow> step_definition \<Rightarrow> dict option \<Rightarrow> exn + string list" where
  "resolve_condition_branches E step_def output_data =
    (let true_branch = dict_get (sd_config step_def) ''true_branch'' (JList []);
         false_branch = dict_get (sd_config step_def) ''false_branch'' (JList [])
     in if condition_taken E output_data then branch_set false_branch else branch_set true_branch)"

section \<open>The walk\<close>

definition exhausted_error :: "string \<Rightarrow> string" where
  "exhausted_error step_id = ''Step '' @ quoted step_id @ '' failed after exhausting retries.''"

definition mark_failed :: "uuid \<Rightarrow> string \<Rightarrow> (world, unit) proc" where
  "mark_failed execution_id step_id =
    modify (upd_execution execution_id
      (\<lambda>r. r\<lparr>ex_status := Failed, ex_error := Some (exhausted_error step_id)\<rparr>))"

fun dag_loop :: "env \<Rightarrow> runner \<Rightarrow> uuid \<Rightarrow> (string \<times> step_definition) list \<Rightarrow> (string \<times> uuid) list \<Rightarrow>
    string list \<Rightarrow> string list \<Rightarrow> (world, unit) proc" where
  "dag_loop E run execution_id step_defs step_map [] skipped_steps w =
    andthen (transition_execution E execution_id Completed) (\<lambda>_. ret ()) w"
| "dag_loop E run execution_id step_defs step_map (step_id # order) skipped_steps w =
    (case (map_of step_defs step_id, map_of step_map step_id) of
       (Some step_def, Some step_exec) \<Rightarrow>
         if step_id \<in> set skipped_steps
         then andthen (transition_step E step_exec Skipped None) (\<lambda>_.
           dag_loop E run execution_id step_defs step_map order skipped_steps) w
         else
           andthen (execute_step_with_retry E run execution_id step_def step_exec) (\<lambda>success.
             if \<not> success then mark_failed execution_id step_id
             else if sd_type step_def = CONDITION then
               (\<lambda>w. andthen
                 (lift_result (resolve_condition_branches E step_def
                   (Option.bind (find_step w step_exec) se_output_data))) (\<lambda>newly_skipped.
                 dag_loop E run execution_id step_defs step_map order (skipped_steps @ newly_skipped)) w)
             else dag_loop E run execution_id step_defs step_map order skipped_steps) w
     | _ \<Rightarrow> raise (PyError ''KeyError'' (quoted step_id)) w)"

definition execute_dag :: "env \<Rightarrow> runner \<Rightarrow> uuid \<Rightarrow> step_definition list \<Rightarrow> (string \<times> uuid) list \<Rightarrow>
    (world, unit) proc" where
  "execute_dag E run execution_id steps step_map =
    dag_loop E run execution_id (map (\<lambda>s. (sd_id s, s)) (rev steps)) step_map (topological_sort steps) []"

section \<open>Starting\<close>

definition raw_definition :: "workflow \<Rightarrow> dict" where
  "raw_definition flow = [(''name'', JStr (wf_name flow)), (''trigger_type'', JStr (wf_trigger_type flow)),
     (''steps'', JList (wf_steps flow))]"

definition new_execution :: "uuid \<Rightarrow> uuid \<Rightarrow> uuid \<Rightarrow> dict \<Rightarrow> uuid option \<Rightarrow> time \<Rightarrow> execution" where
  "new_execution i tenant_id workflow_id trigger_data replayed_from now = \<lparr>
     ex_id = i, ex_tenant_id = tenant_id, ex_workflow_id = workflow_id, ex_status = Pending,
     ex_trigger_data = trigger_data,
     ex_context = [(''trigger'', JObj trigger_data), (''steps'', JObj [])],
     ex_replayed_from = replayed_from, ex_started_at = None, ex_completed_at = None,
     ex_error = None, ex_duration_ms = None, ex_created_at = now\<rparr>"

definition max_attempts_of :: "step_definition \<Rightarrow> int" where
  "max_attempts_of s = (case sd_retry s of Some r \<Rightarrow> rc_max_attempts r | None \<Rightarrow> 3)"

definition new_step :: "uuid \<Rightarrow> uuid \<Rightarrow> uuid \<Rightarrow> step_definition \<Rightarrow> time \<Rightarrow> step_execution" where
  "new_step i tenant_id execution_id step_def now = \<lparr>
     se_id = i, se_tenant_id = tenant_id, se_execution_id = execution_id, se_step_id = sd_id step_def,
     se_step_type = step_type_value (sd_type step_def), se_status = Pending, se_input_data = [],
     se_output_data = None, se_error = None, se_attempt = 1, se_max_attempts = max_attempts_of step_def,
     se_started_at = None, se_completed_at = None, se_duration_ms = None, se_created_at = now\<rparr>"

primrec create_steps :: "env \<Rightarrow> uuid \<Rightarrow> uuid \<Rightarrow> step_definition list \<Rightarrow> (string \<times> uuid) list \<Rightarrow>
    (world, (string \<times> uuid) list) proc" where
  "create_steps E tenant_id execution_id [] step_map = ret step_map"
| "create_steps E tenant_id execution_id (s # ss) step_map =
    andthen (generate_uuid E) (\<lambda>i.
    andthen (modify (\<lambda>w. add_step (new_step i tenant_id execution_id s (w_txn_now w)) w)) (\<lambda>_.
    create_steps E tenant_id execution_id ss (dict_set (sd_id s) i step_map)))"

definition store_metadata :: "env \<Rightarrow> uuid \<Rightarrow> int \<Rightarrow> uuid \<Rightarrow> (world, unit) proc" where
  "store_metadata E execution_id depth tenant_id =
    modify (\<lambda>w. if env_tracks_mutation E
      then upd_execution execution_id (\<lambda>r. r\<lparr>ex_context :=
        dict_set ''_tenant_id'' (JStr (uuid_str tenant_id))
          (dict_set ''_depth'' (JInt depth) (ex_context r))\<rparr>) w
      else w)"

definition start_execution_with :: "env \<Rightarrow> runner \<Rightarrow> workflow \<Rightarrow> dict \<Rightarrow> uuid \<Rightarrow> uuid option \<Rightarrow> int \<Rightarrow>
    (world, execution) proc" where
  "start_execution_with E run flow trigger_data tenant_id replayed_from depth =
    (case parse_workflow_definition E (raw_definition flow) of
       None \<Rightarrow> raise (PyError ''RecursionError'' ''maximum recursion depth exceeded'')
     | Some (Inl e) \<Rightarrow> raise e
     | Some (Inr parsed) \<Rightarrow>
         andthen (generate_uuid E) (\<lambda>execution_id.
         andthen (modify (\<lambda>w. add_execution (new_execution execution_id tenant_id (wf_id flow)
           trigger_data replayed_from (w_txn_now w)) w)) (\<lambda>_.
         andthen (transition_execution E execution_id Running) (\<lambda>_.
         andthen (create_steps E tenant_id execution_id (wfd_steps parsed) []) (\<lambda>step_map.
         andthen (store_metadata E execution_id depth tenant_id) (\<lambda>_.
         andthen (execute_dag E run execution_id (wfd_steps parsed) step_map) (\<lambda>_.
         refreshed execution_id)))))))"

definition run_step_with ::
    "env \<Rightarrow> (workflow \<Rightarrow> dict \<Rightarrow> uuid \<Rightarrow> int \<Rightarrow> (world, execution) proc) \<Rightarrow> runner" where
  "run_step_with E start step_def context =
    (case sd_type step_def of
       HTTP \<Rightarrow> http_execute E (sd_config step_def) context
     | TRANSFORM \<Rightarrow> lift_result (transform_execute E (sd_config step_def) context)
     | CONDITION \<Rightarrow> lift_result (condition_execute E (sd_config step_def) context)
     | DELAY \<Rightarrow> lift_result (delay_execute E (sd_config step_def) context)
     | SUB_WORKFLOW \<Rightarrow> sub_workflow_execute E start (sd_config step_def) context)"

primrec sub_start :: "nat \<Rightarrow> env \<Rightarrow> workflow \<Rightarrow> dict \<Rightarrow> uuid \<Rightarrow> int \<Rightarrow> (world, execution) proc" where
  "sub_start 0 E flow trigger_data tenant_id depth =
    raise (PyError ''RecursionError'' ''maximum recursion depth exceeded'')"
| "sub_start (Suc n) E flow trigger_data tenant_id depth =
    start_execution_with E (run_step_with E (sub_start n E)) flow trigger_data tenant_id None depth"

definition run_step :: "nat \<Rightarrow> env \<Rightarrow> runner" where
  "run_step n E = run_step_with E (sub_start n E)"

definition start_execution :: "env \<Rightarrow> workflow \<Rightarrow> dict \<Rightarrow> uuid \<Rightarrow> uuid option \<Rightarrow> int \<Rightarrow>
    (world, execution) proc" where
  "start_execution E =
    start_execution_with E (run_step (nat (max_sub_workflow_depth (env_settings E))) E)"

end
