(* ===== verification/Frames.thy ===== *)
theory Frames
  imports Orchestrator
begin

text \<open>
  What a part of a run may change. \<open>evolves E T X S w w'\<close>: of the rows of \<open>w\<close> only the
  executions in \<open>X\<close> and the steps in \<open>S\<close> may differ in \<open>w'\<close>, and those keep what identifies them; new
  rows belong to tenant \<open>T\<close>; the log of every other row grows by nothing; the other tables
  are untouched. The relation composes, and when everything in \<open>X\<close> and \<open>S\<close> is new since
  some earlier world, nothing of that earlier world has changed.
\<close>

text \<open>What no update of a row changes.\<close>

definition ex_base :: "execution \<Rightarrow> uuid \<times> uuid \<times> uuid \<times> dict \<times> uuid option \<times> time" where
  "ex_base r = (ex_id r, ex_tenant_id r, ex_workflow_id r, ex_trigger_data r, ex_replayed_from r, ex_created_at r)"

definition se_base :: "step_execution \<Rightarrow> uuid \<times> uuid \<times> uuid \<times> string \<times> string \<times> int \<times> time" where
  "se_base r = (se_id r, se_tenant_id r, se_execution_id r, se_step_id r, se_step_type r,
     se_max_attempts r, se_created_at r)"

lemma ex_base_eq: "ex_base x = ex_base y \<longleftrightarrow>
    ex_id x = ex_id y \<and> ex_tenant_id x = ex_tenant_id y \<and> ex_workflow_id x = ex_workflow_id y \<and>
    ex_trigger_data x = ex_trigger_data y \<and> ex_replayed_from x = ex_replayed_from y \<and>
    ex_created_at x = ex_created_at y"
  by (auto simp: ex_base_def)

lemma se_base_eq: "se_base x = se_base y \<longleftrightarrow>
    se_id x = se_id y \<and> se_tenant_id x = se_tenant_id y \<and> se_execution_id x = se_execution_id y \<and>
    se_step_id x = se_step_id y \<and> se_step_type x = se_step_type y \<and>
    se_max_attempts x = se_max_attempts y \<and> se_created_at x = se_created_at y"
  by (auto simp: se_base_def)

lemma base_stamp [simp]:
  "ex_base (stamp_execution E t n r) = ex_base r" "se_base (stamp_step E t n e q) = se_base q"
  by (simp_all add: ex_base_eq se_base_eq) (simp add: stamp_step_def Let_def split: option.splits)

lemma base_updates [simp]:
  "ex_base (r\<lparr>ex_context := c\<rparr>) = ex_base r"
  "ex_base (r\<lparr>ex_status := st, ex_error := err\<rparr>) = ex_base r"
  "se_base (q\<lparr>se_attempt := a\<rparr>) = se_base q"
  "se_base (q\<lparr>se_output_data := d\<rparr>) = se_base q"
  by (simp_all add: ex_base_eq se_base_eq)

text \<open>
  Fresh identifiers: a generated UUID differs from all others, and one that is still to be
  generated names no row and no log line.
\<close>

definition fresh_ids :: "env \<Rightarrow> world \<Rightarrow> bool" where
  "fresh_ids E w \<longleftrightarrow> inj (env_uuid E) \<and>
    (\<forall>n\<ge>w_ticks w. find_execution w (env_uuid E n) = None \<and> find_step w (env_uuid E n) = None \<and>
      execution_history (env_uuid E n) (w_events w) = [] \<and>
      step_history (env_uuid E n) (w_events w) = [])"

definition same_tables :: "world \<Rightarrow> world \<Rightarrow> bool" where
  "same_tables w w' \<longleftrightarrow> w_tenants w' = w_tenants w \<and> w_workflows w' = w_workflows w \<and>
    w_logs w' = w_logs w \<and> w_deliveries w' = w_deliveries w \<and> w_txn_now w' = w_txn_now w"

definition evolves :: "env \<Rightarrow> uuid \<Rightarrow> uuid set \<Rightarrow> uuid set \<Rightarrow> world \<Rightarrow> world \<Rightarrow> bool" where
  "evolves E T X S w w' \<longleftrightarrow> w_ticks w \<le> w_ticks w' \<and> same_tables w w' \<and>
    (\<forall>i x. find_execution w i = Some x \<longrightarrow>
      (\<exists>x'. find_execution w' i = Some x' \<and> ex_base x' = ex_base x \<and>
        (i \<notin> X \<longrightarrow> x' = x \<and> execution_history i (w_events w') = execution_history i (w_events w)))) \<and>
    (\<forall>i s. find_step w i = Some s \<longrightarrow>
      (\<exists>s'. find_step w' i = Some s' \<and> se_base s' = se_base s \<and>
        (i \<notin> S \<longrightarrow> s' = s \<and> step_history i (w_events w') = step_history i (w_events w)))) \<and>
    (\<forall>i x. find_execution w i = None \<longrightarrow> find_execution w' i = Some x \<longrightarrow> ex_tenant_id x = T) \<and>
    (\<forall>i s. find_step w i = None \<longrightarrow> find_step w' i = Some s \<longrightarrow> se_tenant_id s = T) \<and>
    (fresh_ids E w \<longrightarrow> fresh_ids E w')"

lemma evolves_refl [simp]: "evolves E T X S w w"
  by (auto simp: evolves_def same_tables_def)

lemma evolves_ticks: "evolves E T X S w w' \<Longrightarrow> w_ticks w \<le> w_ticks w'"
  by (simp add: evolves_def)

lemma evolves_tables: "evolves E T X S w w' \<Longrightarrow> same_tables w w'"
  by (simp add: evolves_def)

lemma evolves_fresh_ids: "evolves E T X S w w' \<Longrightarrow> fresh_ids E w \<Longrightarrow> fresh_ids E w'"
  by (simp add: evolves_def)

lemma evolves_execution:
  "evolves E T X S w w' \<Longrightarrow> find_execution w i = Some x \<Longrightarrow> i \<notin> X \<Longrightarrow>
    find_execution w' i = Some x \<and> execution_history i (w_events w') = execution_history i (w_events w)"
  by (force simp: evolves_def)

lemma evolves_step:
  "evolves E T X S w w' \<Longrightarrow> find_step w i = Some s \<Longrightarrow> i \<notin> S \<Longrightarrow>
    find_step w' i = Some s \<and> step_history i (w_events w') = step_history i (w_events w)"
  by (force simp: evolves_def)

lemma evolves_execution_found:
  "evolves E T X S w w' \<Longrightarrow> find_execution w i = Some x \<Longrightarrow>
    \<exists>x'. find_execution w' i = Some x' \<and> ex_base x' = ex_base x"
  by (force simp: evolves_def)

lemma evolves_step_found:
  "evolves E T X S w w' \<Longrightarrow> find_step w i = Some s \<Longrightarrow>
    \<exists>s'. find_step w' i = Some s' \<and> se_base s' = se_base s"
  by (force simp: evolves_def)

lemma evolves_new_execution:
  "evolves E T X S w w' \<Longrightarrow> find_execution w i = None \<Longrightarrow> find_execution w' i = Some x \<Longrightarrow> ex_tenant_id x = T"
  unfolding evolves_def by blast

lemma evolves_new_step:
  "evolves E T X S w w' \<Longrightarrow> find_step w i = None \<Longrightarrow> find_step w' i = Some s \<Longrightarrow> se_tenant_id s = T"
  unfolding evolves_def by blast

lemma evolves_trans:
  assumes 1: "evolves E T X S w v" and 2: "evolves E T X' S' v u"
    and X: "\<And>i. i \<in> X' \<Longrightarrow> i \<in> X \<or> find_execution w i = None"
    and S: "\<And>i. i \<in> S' \<Longrightarrow> i \<in> S \<or> find_step w i = None"
  shows "evolves E T X S w u"
  unfolding evolves_def
proof (intro conjI allI impI)
  show "w_ticks w \<le> w_ticks u" using evolves_ticks [OF 1] evolves_ticks [OF 2] by simp
  show "same_tables w u" using evolves_tables [OF 1] evolves_tables [OF 2] by (simp add: same_tables_def)
  show "fresh_ids E u" if "fresh_ids E w" using evolves_fresh_ids [OF 1 that] by (rule evolves_fresh_ids [OF 2])
next
  fix i x assume w: "find_execution w i = Some x"
  obtain y where y: "find_execution v i = Some y" "ex_base y = ex_base x"
    using evolves_execution_found [OF 1 w] by blast
  obtain z where z: "find_execution u i = Some z" "ex_base z = ex_base y"
    using evolves_execution_found [OF 2 y(1)] by blast
  have "z = x \<and> execution_history i (w_events u) = execution_history i (w_events w)" if "i \<notin> X"
  proof -
    from X [of i] w that have "i \<notin> X'" by auto
    then show ?thesis
      using evolves_execution [OF 1 w that] evolves_execution [OF 2 y(1)] y(1) z(1) by simp
  qed
  with y z show "\<exists>x'. find_execution u i = Some x' \<and> ex_base x' = ex_base x \<and>
      (i \<notin> X \<longrightarrow> x' = x \<and> execution_history i (w_events u) = execution_history i (w_events w))" by simp
next
  fix i s assume w: "find_step w i = Some s"
  obtain y where y: "find_step v i = Some y" "se_base y = se_base s"
    using evolves_step_found [OF 1 w] by blast
  obtain z where z: "find_step u i = Some z" "se_base z = se_base y"
    using evolves_step_found [OF 2 y(1)] by blast
  have "z = s \<and> step_history i (w_events u) = step_history i (w_events w)" if "i \<notin> S"
  proof -
    from S [of i] w that have "i \<notin> S'" by auto
    then show ?thesis
      using evolves_step [OF 1 w that] evolves_step [OF 2 y(1)] y(1) z(1) by simp
  qed
  with y z show "\<exists>s'. find_step u i = Some s' \<and> se_base s' = se_base s \<and>
      (i \<notin> S \<longrightarrow> s' = s \<and> step_history i (w_events u) = step_history i (w_events w))" by simp
next
  fix i x assume "find_execution w i = None" "find_execution u i = Some x"
  then show "ex_tenant_id x = T"
    using evolves_new_execution [OF 1] evolves_new_execution [OF 2] evolves_execution_found [OF 2]
    by (cases "find_execution v i") (force, fastforce simp: ex_base_eq)
next
  fix i s assume "find_step w i = None" "find_step u i = Some s"
  then show "se_tenant_id s = T"
    using evolves_new_step [OF 1] evolves_new_step [OF 2] evolves_step_found [OF 2]
    by (cases "find_step v i") (force, fastforce simp: se_base_eq)
qed

lemma evolves_trans_same: "evolves E T X S w v \<Longrightarrow> evolves E T X S v u \<Longrightarrow> evolves E T X S w u"
  by (rule evolves_trans) auto

lemma evolves_weaken:
  "evolves E T X S w w' \<Longrightarrow> X \<subseteq> X' \<Longrightarrow> S \<subseteq> S' \<Longrightarrow> evolves E T X' S' w w'"
  unfolding evolves_def
proof (elim conjE, intro conjI, goal_cases)
  case 3
  then show ?case by (meson subsetD)
next
  case 4
  then show ?case by (meson subsetD)
qed

section \<open>The elementary changes\<close>

lemma evolves_tick [simp]: "w_ticks w \<le> n \<Longrightarrow> evolves E T X S w (w\<lparr>w_ticks := n\<rparr>)"
  by (auto simp: evolves_def same_tables_def fresh_ids_def)

lemma same_tables_simps [simp]:
  "same_tables w (upd_execution i f w)" "same_tables w (upd_step i g w)"
  "same_tables w (add_execution x w)" "same_tables w (add_step s w)"
  "same_tables w (w\<lparr>w_events := es\<rparr>)" "same_tables w (w\<lparr>w_ticks := n\<rparr>)"
  by (simp_all add: same_tables_def upd_execution_def upd_step_def add_execution_def add_step_def)

lemma evolves_upd_execution:
  assumes "\<And>r. ex_base (f r) = ex_base r" "i \<in> X"
  shows "evolves E T X S w (upd_execution i f w)"
proof -
  have key: "ex_id (f r) = ex_id r" for r using assms(1) [of r] by (simp add: ex_base_eq)
  have "find_execution (upd_execution i f w) j = None \<longleftrightarrow> find_execution w j = None" for j
    by (simp add: ext.find_upd key)
  then show ?thesis
    using assms by (auto simp: evolves_def ext.find_upd [of f, OF key] fresh_ids_def)
qed

lemma evolves_upd_step:
  assumes "\<And>r. se_base (f r) = se_base r" "i \<in> S"
  shows "evolves E T X S w (upd_step i f w)"
proof -
  have key: "se_id (f r) = se_id r" for r using assms(1) [of r] by (simp add: se_base_eq)
  have "find_step (upd_step i f w) j = None \<longleftrightarrow> find_step w j = None" for j
    by (simp add: stt.find_upd key)
  then show ?thesis
    using assms by (auto simp: evolves_def stt.find_upd [of f, OF key] fresh_ids_def)
qed

text \<open>Log lines about the rows in \<open>X\<close> and \<open>S\<close>, which exist.\<close>

fun about :: "uuid set \<Rightarrow> uuid set \<Rightarrow> event \<Rightarrow> bool" where
  "about X S (ExecutionTransition i t) = (i \<in> X)"
| "about X S (StepTransition i s t) = (i \<in> S)"
| "about X S _ = True"

lemma about_history:
  "about X S e \<Longrightarrow> i \<notin> X \<Longrightarrow> execution_history i [e] = []"
  "about X S e \<Longrightarrow> i \<notin> S \<Longrightarrow> step_history i [e] = []"
  by (cases e; auto)+

lemma evolves_event:
  assumes "about X S e" "\<And>i. i \<in> X \<Longrightarrow> find_execution w i \<noteq> None" "\<And>i. i \<in> S \<Longrightarrow> find_step w i \<noteq> None"
  shows "evolves E T X S w (w\<lparr>w_events := w_events w @ [e]\<rparr>)"
proof -
  have "fresh_ids E (w\<lparr>w_events := w_events w @ [e]\<rparr>)" if "fresh_ids E w"
    unfolding fresh_ids_def
  proof (intro conjI allI impI)
    show "inj (env_uuid E)" using that by (simp add: fresh_ids_def)
  next
    fix n assume "w_ticks (w\<lparr>w_events := w_events w @ [e]\<rparr>) \<le> n"
    then have *: "find_execution w (env_uuid E n) = None" "find_step w (env_uuid E n) = None"
      "execution_history (env_uuid E n) (w_events w) = []" "step_history (env_uuid E n) (w_events w) = []"
      using that by (simp_all add: fresh_ids_def)
    with assms(2,3) [of "env_uuid E n"] have "env_uuid E n \<notin> X" "env_uuid E n \<notin> S" by auto
    with * about_history [OF assms(1)]
    show "find_execution (w\<lparr>w_events := w_events w @ [e]\<rparr>) (env_uuid E n) = None"
      "find_step (w\<lparr>w_events := w_events w @ [e]\<rparr>) (env_uuid E n) = None"
      "execution_history (env_uuid E n) (w_events (w\<lparr>w_events := w_events w @ [e]\<rparr>)) = []"
      "step_history (env_uuid E n) (w_events (w\<lparr>w_events := w_events w @ [e]\<rparr>)) = []" by simp_all
  qed
  then show ?thesis
    using about_history [OF assms(1)] by (auto simp: evolves_def)
qed

text \<open>Inserting a row under the identifier just generated.\<close>

lemma fresh_ids_next:
  assumes "fresh_ids E w"
  shows "find_execution w (env_uuid E (w_ticks w)) = None" "find_step w (env_uuid E (w_ticks w)) = None"
    "execution_history (env_uuid E (w_ticks w)) (w_events w) = []"
    "step_history (env_uuid E (w_ticks w)) (w_events w) = []"
  using assms by (auto simp: fresh_ids_def)

lemma fresh_ids_other: "fresh_ids E w \<Longrightarrow> w_ticks w \<le> m \<Longrightarrow> n < m \<Longrightarrow> env_uuid E m \<noteq> env_uuid E n"
  by (metis fresh_ids_def inj_eq less_irrefl)

lemma evolves_insert_execution:
  assumes "fresh_ids E w" "ex_id r = env_uuid E (w_ticks w)" "ex_tenant_id r = T"
  shows "evolves E T X S w (add_execution r (w\<lparr>w_ticks := Suc (w_ticks w)\<rparr>))"
proof -
  let ?w = "w\<lparr>w_ticks := Suc (w_ticks w)\<rparr>"
  have "find_execution (add_execution r ?w) i =
      (case find_execution w i of Some x \<Rightarrow> Some x | None \<Rightarrow> if ex_id r = i then Some r else None)" for i
    by (simp add: ext.find_add)
  moreover have "ex_id r \<noteq> env_uuid E n" if "Suc (w_ticks w) \<le> n" for n
    using fresh_ids_other [OF assms(1), of n "w_ticks w"] that assms(2) by simp
  moreover have "same_tables w (add_execution r ?w)" by (simp add: same_tables_def add_execution_def)
  ultimately show ?thesis
    using assms by (auto simp: evolves_def fresh_ids_def)
qed

lemma evolves_insert_step:
  assumes "fresh_ids E w" "se_id r = env_uuid E (w_ticks w)" "se_tenant_id r = T"
  shows "evolves E T X S w (add_step r (w\<lparr>w_ticks := Suc (w_ticks w)\<rparr>))"
proof -
  let ?w = "w\<lparr>w_ticks := Suc (w_ticks w)\<rparr>"
  have "find_step (add_step r ?w) i =
      (case find_step w i of Some x \<Rightarrow> Some x | None \<Rightarrow> if se_id r = i then Some r else None)" for i
    by (simp add: stt.find_add)
  moreover have "se_id r \<noteq> env_uuid E n" if "Suc (w_ticks w) \<le> n" for n
    using fresh_ids_other [OF assms(1), of n "w_ticks w"] that assms(2) by simp
  moreover have "same_tables w (add_step r ?w)" by (simp add: same_tables_def add_step_def)
  ultimately show ?thesis
    using assms by (auto simp: evolves_def fresh_ids_def)
qed

section \<open>The transitions and the merge\<close>

lemma transition_step_run:
  assumes "find_step w i = Some r" "may_move ALLOWED_STEP_TRANSITIONS (se_status r) t"
  obtains n w' where "transition_step E i t e w = (Inr (stamp_step E t n e r), w')"
    "find_step w' i = Some (stamp_step E t n e r)"
    "step_history i (w_events w') = step_history i (w_events w) @ [t]"
    "evolves E T X {i} w w'"
proof -
  let ?n = "env_now E (w_ticks w)" let ?f = "stamp_step E t ?n e"
  let ?w = "upd_step i ?f (w\<lparr>w_ticks := Suc (w_ticks w)\<rparr>)"
  let ?w' = "?w\<lparr>w_events := w_events w @ [StepTransition i (se_step_id r) t]\<rparr>"
  have "evolves E T {} {i} w (w\<lparr>w_ticks := Suc (w_ticks w)\<rparr>)" by simp
  then have "evolves E T {} {i} w ?w"
    by (rule evolves_trans_same) (rule evolves_upd_step; simp)
  then have "evolves E T {} {i} w (?w\<lparr>w_events := w_events ?w @ [StepTransition i (se_step_id r) t]\<rparr>)"
    by (rule evolves_trans_same) (rule evolves_event; simp add: stt.find_upd assms)
  then have "evolves E T {} {i} w ?w'" by simp
  then have "evolves E T X {i} w ?w'" by (rule evolves_weaken) auto
  then show ?thesis
    using that [OF transition_step_ok [OF assms, of E e]] assms(1)
    by (simp add: stt.find_upd)
qed

lemma transition_execution_run:
  assumes "find_execution w i = Some r" "may_move ALLOWED_EXECUTION_TRANSITIONS (ex_status r) t"
  obtains n w' where "transition_execution E i t w = (Inr (stamp_execution E t n r), w')"
    "find_execution w' i = Some (stamp_execution E t n r)"
    "execution_history i (w_events w') = execution_history i (w_events w) @ [t]"
    "evolves E T {i} S w w'"
proof -
  let ?n = "env_now E (w_ticks w)" let ?f = "stamp_execution E t ?n"
  let ?w = "upd_execution i ?f (w\<lparr>w_ticks := Suc (w_ticks w)\<rparr>)"
  let ?w' = "?w\<lparr>w_events := w_events w @ [ExecutionTransition i t]\<rparr>"
  have "evolves E T {i} {} w (w\<lparr>w_ticks := Suc (w_ticks w)\<rparr>)" by simp
  then have "evolves E T {i} {} w ?w"
    by (rule evolves_trans_same) (rule evolves_upd_execution; simp)
  then have "evolves E T {i} {} w (?w\<lparr>w_events := w_events ?w @ [ExecutionTransition i t]\<rparr>)"
    by (rule evolves_trans_same) (rule evolves_event; simp add: ext.find_upd assms)
  then have "evolves E T {i} {} w ?w'" by simp
  then have "evolves E T {i} S w ?w'" by (rule evolves_weaken) auto
  then show ?thesis
    using that [OF transition_execution_ok [OF assms, of E]] assms(1)
    by (simp add: ext.find_upd)
qed

lemma merge_step_output_run:
  assumes "find_execution w i = Some x" "context_ok (ex_context x)"
  obtains c w' where "merge_step_output i s out w = (Inr (), w')"
    "find_execution w' i = Some (x\<lparr>ex_context := c\<rparr>)" "context_after (ex_context x) s (Some out) c"
    "evolves E T {i} {} w w'" "execution_history i (w_events w') = execution_history i (w_events w)"
proof -
  obtain c where c: "merge_context (ex_context x) s out = Inr c"
    "context_after (ex_context x) s (Some out) c" by (rule merge_context_after [OF assms(2)])
  let ?w = "upd_execution i (\<lambda>r. r\<lparr>ex_context := c\<rparr>) w"
  have "evolves E T {i} {} w ?w" by (rule evolves_upd_execution; simp)
  then have "evolves E T {i} {} w (?w\<lparr>w_events := w_events ?w @ [ContextMerge i s]\<rparr>)"
    by (rule evolves_trans_same) (rule evolves_event; simp add: ext.find_upd assms)
  then have ev: "evolves E T {i} {} w (?w\<lparr>w_events := w_events w @ [ContextMerge i s]\<rparr>)" by simp
  show ?thesis
  proof (rule that [OF merge_step_output_ok [OF assms(1) c(1)] _ c(2) ev])
    show "find_execution (?w\<lparr>w_events := w_events w @ [ContextMerge i s]\<rparr>) i = Some (x\<lparr>ex_context := c\<rparr>)"
      using assms(1) by (simp add: ext.find_upd)
  qed simp_all
qed

end
