(* ===== verification/Execution.thy ===== *)
theory Execution
  imports Frames
begin

text \<open>
  What a run of the orchestrator does, for every step runner that keeps to the contract
  \<open>step_runner\<close>: it may insert rows of the same tenant and change those, nothing else.
  From the contract alone follow the outcome of the retry loop, the invariant of the walk
  and the shape of a finished execution. The engine's own runner is the interpretation at
  the end: it keeps the contract because a sub-workflow is again such a run.
\<close>

section \<open>The contract of a step runner\<close>

text \<open>
  The tenant a step input names. The engine writes nothing else than the tenant of the
  execution, or, where the metadata is missing, the empty text, which names no tenant.
\<close>

definition tenant_input :: "uuid \<Rightarrow> dict \<Rightarrow> bool" where
  "tenant_input T ctx \<longleftrightarrow> (\<forall>j t. map_of ctx ''_tenant_id'' = Some j \<longrightarrow> json_uuid j = Inr t \<longrightarrow> t = T)"

text \<open>
  The contexts of an execution of tenant \<open>T\<close> at nesting depth \<open>D\<close>: with the metadata, where
  the ORM tracks changes inside the column, and without it otherwise.
\<close>

definition stored :: "env \<Rightarrow> uuid \<Rightarrow> int \<Rightarrow> dict \<Rightarrow> bool" where
  "stored E T D c \<longleftrightarrow> context_ok c \<and>
    map_of c ''_tenant_id'' = (if env_tracks_mutation E then Some (JStr (uuid_str T)) else None) \<and>
    map_of c ''_depth'' = (if env_tracks_mutation E then Some (JInt D) else None)"

lemma step_input_tenant:
  assumes "stored E T D ctx" "T < 2 ^ 128"
  shows "tenant_input T (step_input_of ctx s)"
proof -
  have "uuid_parse '''' = Inl (PyError ''ValueError'' ''badly formed hexadecimal UUID string'')"
    by (simp add: uuid_parse_def Let_def strip_braces_def)
  then show ?thesis
    using assms by (auto simp: tenant_input_def stored_def step_input_of_def get_step_input_def
        dict_get_def uuid_parse_str)
qed

locale step_runner =
  fixes E :: env and run :: runner and T :: uuid
  assumes run_evolves: "T < 2 ^ 128 \<Longrightarrow> tenant_input T ctx \<Longrightarrow> run s ctx w = (r, w') \<Longrightarrow> fresh_ids E w \<Longrightarrow>
    evolves E T {} {} w w'"

section \<open>Outcomes of one step\<close>

declare retry_loop.simps(2) [simp del]

definition same_step :: "step_execution \<Rightarrow> step_execution \<Rightarrow> bool" where
  "same_step r r' \<longleftrightarrow> se_id r' = se_id r \<and> se_tenant_id r' = se_tenant_id r \<and>
    se_execution_id r' = se_execution_id r \<and> se_step_id r' = se_step_id r \<and>
    se_step_type r' = se_step_type r \<and> se_max_attempts r' = se_max_attempts r"

lemma same_step_refl [simp]: "same_step r r"
  by (simp add: same_step_def)

lemma same_step_trans: "same_step r s \<Longrightarrow> same_step s t \<Longrightarrow> same_step r t"
  by (simp add: same_step_def)

lemma same_step_stamp [simp]: "same_step r (stamp_step E t n e r)"
  by (simp add: same_step_def)

lemma stored_after: "stored E T D c \<Longrightarrow> context_after c s out c' \<Longrightarrow> stored E T D c'"
  by (simp add: stored_def context_after_def)

text \<open>The statuses a step goes through in \<open>a\<close> attempts, the last of which ends as \<open>b\<close> says.\<close>

definition attempts_history :: "nat \<Rightarrow> bool \<Rightarrow> status list" where
  "attempts_history a b = concat (replicate (a - 1) [Queued, Running, Failed]) @
     [Queued, Running, if b then Completed else Failed]"

lemma attempts_history_1: "attempts_history (Suc 0) b = [Queued, Running, if b then Completed else Failed]"
  by (simp add: attempts_history_def)

lemma attempts_history_Suc:
  "0 < a \<Longrightarrow> attempts_history (Suc a) b = [Queued, Running, Failed] @ attempts_history a b"
  by (cases a) (simp_all add: attempts_history_def)

text \<open>An output that the runner returned for the input of a context.\<close>

definition produced :: "env \<Rightarrow> uuid \<Rightarrow> int \<Rightarrow> runner \<Rightarrow> step_definition \<Rightarrow> dict \<Rightarrow> dict \<Rightarrow> bool" where
  "produced E T D run d c out \<longleftrightarrow>
    stored E T D c \<and> (\<exists>v v'. run d (step_input_of c d) v = (Inr out, v'))"

definition step_outcome :: "(dict \<Rightarrow> dict \<Rightarrow> bool) \<Rightarrow> env \<Rightarrow> uuid \<Rightarrow> uuid \<Rightarrow> string \<Rightarrow> uuid \<Rightarrow> int \<Rightarrow> world \<Rightarrow> bool \<Rightarrow> nat \<Rightarrow> world \<Rightarrow> bool" where
  "step_outcome P E T i sid j m w b a w' \<longleftrightarrow>
    evolves E T {i} {j} w w' \<and>
    execution_history i (w_events w') = execution_history i (w_events w) \<and>
    step_history j (w_events w') = step_history j (w_events w) @ attempts_history a b \<and>
    (\<exists>x r c out r'. find_execution w i = Some x \<and> find_step w j = Some r \<and>
      find_execution w' i = Some (x\<lparr>ex_context := c\<rparr>) \<and>
      context_after (ex_context x) sid (if b then Some out else None) c \<and>
      find_step w' j = Some r' \<and> same_step r r' \<and> se_attempt r' = m + int a \<and>
      se_status r' = (if b then Completed else Failed) \<and>
      (if b then se_output_data r' = Some out \<and> P (ex_context x) out
       else se_output_data r' = se_output_data r \<and> se_error r' \<noteq> None))"

lemma begin_attempt_run:
  assumes "find_step w j = Some r" "se_status r = Pending \<or> se_status r = Failed"
  obtains r' w' where "begin_attempt E j a w = (Inr (), w')" "find_step w' j = Some r'"
    "same_step r r'" "se_status r' = Running" "se_attempt r' = a" "se_output_data r' = se_output_data r"
    "evolves E T {} {j} w w'" "step_history j (w_events w') = step_history j (w_events w) @ [Queued, Running]"
proof -
  let ?r1 = "r\<lparr>se_attempt := a\<rparr>" let ?w1 = "upd_step j (\<lambda>r. r\<lparr>se_attempt := a\<rparr>) w"
  have 1: "find_step ?w1 j = Some ?r1" by (simp add: stt.find_upd assms(1))
  have e1: "evolves E T {} {j} w ?w1" by (rule evolves_upd_step; simp)
  have "may_move ALLOWED_STEP_TRANSITIONS (se_status ?r1) Queued" using assms(2) by (auto simp: step_moves)
  from transition_step_run [OF 1 this]
  obtain n2 w2 where 2: "transition_step E j Queued None ?w1 = (Inr (stamp_step E Queued n2 None ?r1), w2)"
    "find_step w2 j = Some (stamp_step E Queued n2 None ?r1)"
    "step_history j (w_events w2) = step_history j (w_events ?w1) @ [Queued]" "evolves E T {} {j} ?w1 w2" by blast
  have "may_move ALLOWED_STEP_TRANSITIONS (se_status (stamp_step E Queued n2 None ?r1)) Running"
    by (simp add: step_moves)
  from transition_step_run [OF 2(2) this]
  obtain n3 w3 where 3: "transition_step E j Running None w2 =
      (Inr (stamp_step E Running n3 None (stamp_step E Queued n2 None ?r1)), w3)"
    "find_step w3 j = Some (stamp_step E Running n3 None (stamp_step E Queued n2 None ?r1))"
    "step_history j (w_events w3) = step_history j (w_events w2) @ [Running]" "evolves E T {} {j} w2 w3" by blast
  show ?thesis
  proof (rule that [of w3 "stamp_step E Running n3 None (stamp_step E Queued n2 None ?r1)"])
    show "begin_attempt E j a w = (Inr (), w3)"
      using assms(2) 1 2(1) 3(1) by (simp add: begin_attempt_def andthen_def)
    show "evolves E T {} {j} w w3"
      using e1 2(4) 3(4) by (blast intro: evolves_trans_same)
  qed (use 2 3 in \<open>simp_all add: same_step_def\<close>)
qed

lemma step_outcome_Suc:
  assumes "evolves E T {i} {j} w v" "find_execution w i = Some x" "find_execution v i = Some x"
    and "execution_history i (w_events v) = execution_history i (w_events w)"
    and "find_step w j = Some r" "find_step v j = Some q" "same_step r q" "se_output_data q = se_output_data r"
    and "step_history j (w_events v) = step_history j (w_events w) @ [Queued, Running, Failed]"
    and out: "step_outcome P E T i sid j (m + 1) v b a w'" and "0 < a"
  shows "step_outcome P E T i sid j m w b (Suc a) w'"
proof -
  from out have "evolves E T {i} {j} v w'" by (simp add: step_outcome_def)
  with assms(1) have ev: "evolves E T {i} {j} w w'" by (rule evolves_trans_same)
  from out obtain c d r' where "find_execution w' i = Some (x\<lparr>ex_context := c\<rparr>)"
    "context_after (ex_context x) sid (if b then Some d else None) c" "find_step w' j = Some r'"
    "same_step q r'" "se_attempt r' = m + int (Suc a)" "se_status r' = (if b then Completed else Failed)"
    "if b then se_output_data r' = Some d \<and> P (ex_context x) d else se_output_data r' = se_output_data q \<and> se_error r' \<noteq> None"
    using assms(3,6) by (auto simp: step_outcome_def algebra_simps)
  moreover have "same_step r r'" using assms(7) calculation(4) by (rule same_step_trans)
  moreover have "execution_history i (w_events w') = execution_history i (w_events w)"
    "step_history j (w_events w') = step_history j (w_events w) @ attempts_history (Suc a) b"
    using out assms(4,9,11) by (simp_all add: step_outcome_def attempts_history_Suc)
  ultimately show ?thesis using ev assms(2,5,8) unfolding step_outcome_def by auto
qed

context step_runner
begin

lemma attempt_step_run:
  assumes T: "T < 2 ^ 128" and fresh: "fresh_ids E w"
    and x: "find_execution w i = Some x" "stored E T D (ex_context x)"
    and r: "find_step w j = Some r" "se_status r = Running"
  obtains (ok) out c r' w' where "attempt_step E run i s j w = (Inr True, w')"
      "find_execution w' i = Some (x\<lparr>ex_context := c\<rparr>)" "context_after (ex_context x) (sd_id s) (Some out) c"
      "find_step w' j = Some r'" "same_step r r'" "se_attempt r' = se_attempt r" "se_status r' = Completed"
      "se_output_data r' = Some out" "produced E T D run s (ex_context x) out" "evolves E T {i} {j} w w'"
      "execution_history i (w_events w') = execution_history i (w_events w)"
      "step_history j (w_events w') = step_history j (w_events w) @ [Completed]"
  | (err) e w' where "attempt_step E run i s j w = (Inl e, w')" "evolves E T {} {} w w'"
proof (cases "run s (step_input_of (ex_context x) s) w")
  case (Pair res w1)
  have e1: "evolves E T {} {} w w1"
    using run_evolves [OF T step_input_tenant [OF x(2) T] Pair fresh] .
  note x1 = evolves_execution [OF e1 x(1)] note r1 = evolves_step [OF e1 r(1)]
  have refreshed: "refreshed i w = (Inr x, w)" using x(1) by (simp add: refreshed_def)
  show ?thesis
  proof (cases res)
    case (Inl e)
    then have "attempt_step E run i s j w = (Inl e, w1)"
      using refreshed Pair by (simp add: attempt_step_def andthen_def)
    then show ?thesis using err e1 by blast
  next
    case (Inr out)
    have "may_move ALLOWED_STEP_TRANSITIONS (se_status r) Completed" using r(2) by (simp add: step_moves)
    from transition_step_run [OF _ this, of w1 j E None T "{i}"] r1
    obtain n w2 where 2: "transition_step E j Completed None w1 = (Inr (stamp_step E Completed n None r), w2)"
      "find_step w2 j = Some (stamp_step E Completed n None r)"
      "step_history j (w_events w2) = step_history j (w_events w) @ [Completed]" "evolves E T {i} {j} w1 w2"
      by auto
    let ?f = "\<lambda>r. r\<lparr>se_output_data := Some out\<rparr>" let ?w3 = "upd_step j ?f w2"
    have e3: "evolves E T {i} {j} w2 ?w3" by (rule evolves_upd_step; simp)
    have e13: "evolves E T {} {j} w1 ?w3"
    proof -
      have "evolves E T {} {j} w1 w2"
        using transition_step_run [OF _ \<open>may_move _ _ _\<close>, of w1 j E None T "{}"] r1 2(1) by auto
      moreover have "evolves E T {} {j} w2 ?w3" by (rule evolves_upd_step; simp)
      ultimately show ?thesis by (rule evolves_trans_same)
    qed
    have x3: "find_execution ?w3 i = Some x" "execution_history i (w_events ?w3) = execution_history i (w_events w)"
      using evolves_execution [OF e13] x1 by simp_all
    from x(2) have "context_ok (ex_context x)" by (simp add: stored_def)
    from merge_step_output_run [OF x3(1) this, where s = "sd_id s" and out = out]
    obtain c w4 where 4: "merge_step_output i (sd_id s) out ?w3 = (Inr (), w4)"
      "find_execution w4 i = Some (x\<lparr>ex_context := c\<rparr>)" "context_after (ex_context x) (sd_id s) (Some out) c"
      "evolves E T {i} {} ?w3 w4" "execution_history i (w_events w4) = execution_history i (w_events ?w3)"
      by blast
    have r3: "find_step ?w3 j = Some (?f (stamp_step E Completed n None r))" by (simp add: stt.find_upd 2)
    note r4 = evolves_step [OF 4(4) r3, simplified]
    show ?thesis
    proof (rule ok)
      show "attempt_step E run i s j w = (Inr True, w4)"
        using refreshed Pair Inr 2(1) 4(1) by (simp add: attempt_step_def andthen_def)
      have "evolves E T {i} {j} w w1" using e1 by (rule evolves_weaken) auto
      moreover have "evolves E T {i} {j} ?w3 w4" using 4(4) by (rule evolves_weaken) auto
      ultimately show "evolves E T {i} {j} w w4"
        using 2(4) e3 by (blast intro: evolves_trans_same)
      show "find_step w4 j = Some (?f (stamp_step E Completed n None r))" using r4 by simp
      show "step_history j (w_events w4) = step_history j (w_events w) @ [Completed]" using r4 2(3) by simp
      show "produced E T D run s (ex_context x) out"
        using x(2) Pair Inr by (auto simp: produced_def)
    qed (use 4 x3 in \<open>simp_all add: same_step_def\<close>)
  qed
qed

lemma failed_attempt_run:
  assumes T: "T < 2 ^ 128" and fresh: "fresh_ids E w"
    and x: "find_execution w i = Some x" "stored E T D (ex_context x)"
    and r: "find_step w j = Some r" "se_status r = Running"
    and run: "attempt_step E run i s j w = (Inl e, v)"
  obtains r' w' where "transition_step E j Failed (Some m) v = (Inr r', w')" "find_step w' j = Some r'"
    "same_step r r'" "se_attempt r' = se_attempt r" "se_output_data r' = se_output_data r"
    "se_status r' = Failed" "se_error r' = Some m" "evolves E T {} {j} w w'"
    "step_history j (w_events w') = step_history j (w_events w) @ [Failed]"
proof -
  from attempt_step_run [OF T fresh x r, of s] run have e1: "evolves E T {} {} w v" by fastforce
  note r1 = evolves_step [OF e1 r(1)]
  have "may_move ALLOWED_STEP_TRANSITIONS (se_status r) Failed" using r(2) by (simp add: step_moves)
  from transition_step_run [OF _ this, of v j E "Some m" T "{}"] r1
  obtain n w' where 2: "transition_step E j Failed (Some m) v = (Inr (stamp_step E Failed n (Some m) r), w')"
    "find_step w' j = Some (stamp_step E Failed n (Some m) r)"
    "step_history j (w_events w') = step_history j (w_events w) @ [Failed]" "evolves E T {} {j} v w'"
    by auto
  have "evolves E T {} {j} w v" using e1 by (rule evolves_weaken) auto
  then have "evolves E T {} {j} w w'" using 2(4) by (rule evolves_trans_same)
  then show ?thesis using that [OF 2(1,2)] 2(3) by simp
qed

lemma retry_turn:
  assumes T: "T < 2 ^ 128" and fresh: "fresh_ids E w"
    and x: "find_execution w i = Some x" "stored E T D (ex_context x)"
    and r: "find_step w j = Some r" "se_status r = Pending \<or> se_status r = Failed"
  obtains (ok) w' where "\<And>k mx. retry_loop E run i s j mx (Suc k) m w = (Inr True, w')"
      "step_outcome (produced E T D run s) E T i (sd_id s) j m w True 1 w'"
  | (err) q v where "\<And>k mx. retry_loop E run i s j mx (Suc k) m w =
        (if mx \<le> m + 1
         then (Inr False, v\<lparr>w_events := w_events v @ [StepRetriesExhausted i (sd_id s) (m + 1)]\<rparr>)
         else retry_loop E run i s j mx k (m + 1)
           (v\<lparr>w_events := w_events v @ [StepRetry i (sd_id s) (m + 1)]\<rparr>))"
      "evolves E T {} {j} w v" "find_step v j = Some q" "same_step r q" "se_attempt q = m + 1"
      "se_output_data q = se_output_data r" "se_status q = Failed" "se_error q \<noteq> None"
      "step_history j (w_events v) = step_history j (w_events w) @ [Queued, Running, Failed]"
proof -
  obtain r1 w1 where 1: "begin_attempt E j (m + 1) w = (Inr (), w1)" "find_step w1 j = Some r1"
    "same_step r r1" "se_status r1 = Running" "se_attempt r1 = m + 1" "se_output_data r1 = se_output_data r"
    "evolves E T {} {j} w w1" "step_history j (w_events w1) = step_history j (w_events w) @ [Queued, Running]"
    by (rule begin_attempt_run [OF r])
  have fresh1: "fresh_ids E w1" using evolves_fresh_ids [OF 1(7) fresh] .
  have x1: "find_execution w1 i = Some x" "execution_history i (w_events w1) = execution_history i (w_events w)"
    using evolves_execution [OF 1(7) x(1)] by simp_all
  have loop: "retry_loop E run i s j mx (Suc k) m w = on_error (attempt_step E run i s j) (\<lambda>exc.
      andthen (transition_step E j Failed (Some (exn_str exc))) (\<lambda>_.
      if mx \<le> m + 1 then andthen (log_event (StepRetriesExhausted i (sd_id s) (m + 1))) (\<lambda>_. ret False)
      else andthen (log_event (StepRetry i (sd_id s) (m + 1))) (\<lambda>_.
        retry_loop E run i s j mx k (m + 1)))) w1" for k mx
    unfolding retry_loop.simps Let_def by (rule andthen_Inr) (rule 1(1))
  show ?thesis
  proof (cases rule: attempt_step_run [OF T fresh1 x1(1) x(2) 1(2,4), of s])
    case (1 out c r' w')
    have "evolves E T {i} {j} w w1" using \<open>evolves E T {} {j} w w1\<close> by (rule evolves_weaken) auto
    then have "evolves E T {i} {j} w w'" using 1(10) by (rule evolves_trans_same)
    moreover have "same_step r r'" using \<open>same_step r r1\<close> 1(5) by (rule same_step_trans)
    ultimately have "step_outcome (produced E T D run s) E T i (sd_id s) j m w True 1 w'"
      using 1 x x1 r \<open>se_attempt r1 = _\<close> \<open>step_history j (w_events w1) = _\<close>
      by (auto simp: step_outcome_def attempts_history_1)
    moreover have "retry_loop E run i s j mx (Suc k) m w = (Inr True, w')" for k mx
      unfolding loop using 1(1) by (simp add: on_error_def)
    ultimately show ?thesis using ok by blast
  next
    case (2 e v)
    obtain q u where 3: "transition_step E j Failed (Some (exn_str e)) v = (Inr q, u)"
      "find_step u j = Some q" "same_step r1 q" "se_attempt q = se_attempt r1"
      "se_output_data q = se_output_data r1" "se_status q = Failed" "se_error q = Some (exn_str e)"
      "evolves E T {} {j} w1 u" "step_history j (w_events u) = step_history j (w_events w1) @ [Failed]"
      by (rule failed_attempt_run [OF T fresh1 x1(1) x(2) \<open>find_step w1 j = _\<close> \<open>se_status r1 = _\<close> 2(1)])
    show ?thesis
    proof (rule err [of u q])
      show "retry_loop E run i s j mx (Suc k) m w =
        (if mx \<le> m + 1
         then (Inr False, u\<lparr>w_events := w_events u @ [StepRetriesExhausted i (sd_id s) (m + 1)]\<rparr>)
         else retry_loop E run i s j mx k (m + 1)
           (u\<lparr>w_events := w_events u @ [StepRetry i (sd_id s) (m + 1)]\<rparr>))" for k mx
        unfolding loop using 2(1) 3(1) by (simp add: on_error_def andthen_def monad_simps)
      show "evolves E T {} {j} w u" using 1(7) 3(8) by (rule evolves_trans_same)
      show "same_step r q" using 1(3) 3(3) by (rule same_step_trans)
    qed (use 1 3 in simp_all)
  qed
qed

lemma evolves_log:
  "about {} {} e \<Longrightarrow> evolves E T X S w v \<Longrightarrow> evolves E T X S w (v\<lparr>w_events := w_events v @ [e]\<rparr>)"
  by (rule evolves_trans [where X' = "{}" and S' = "{}"]) (auto intro: evolves_event)

lemma retry_loop_run:
  assumes T: "T < 2 ^ 128" and "fresh_ids E w" "find_execution w i = Some x" "stored E T D (ex_context x)"
    and "find_step w j = Some r" "se_status r = Pending \<or> se_status r = Failed" "mx = m + int (Suc k)"
  shows "\<exists>b a w'. retry_loop E run i s j mx (Suc k) m w = (Inr b, w') \<and> 1 \<le> a \<and> a \<le> Suc k \<and>
    (\<not> b \<longrightarrow> a = Suc k) \<and> step_outcome (produced E T D run s) E T i (sd_id s) j m w b a w'"
  using assms(2-)
proof (induction k arbitrary: m w r)
  case (0 m w r)
  show ?case
  proof (cases rule: retry_turn [OF T 0(1-5), of s m])
    case (1 w')
    then show ?thesis by (intro exI [of _ True] exI [of _ 1] exI [of _ w']) simp
  next
    case (2 q v)
    let ?v = "v\<lparr>w_events := w_events v @ [StepRetriesExhausted i (sd_id s) (m + 1)]\<rparr>"
    have ev: "evolves E T {} {j} w ?v" using 2(2) by (intro evolves_log) simp_all
    then have "evolves E T {i} {j} w ?v" by (rule evolves_weaken) auto
    moreover have "find_execution ?v i = Some x"
      "execution_history i (w_events ?v) = execution_history i (w_events w)"
      using evolves_execution [OF ev 0(2)] by simp_all
    moreover have "x = x\<lparr>ex_context := ex_context x\<rparr>" by simp
    moreover have "context_after (ex_context x) (sd_id s) None (ex_context x)"
      using 0(3) by (simp add: context_after_def stored_def)
    ultimately have "step_outcome (produced E T D run s) E T i (sd_id s) j m w False 1 ?v"
      using 2 0(2,4) unfolding step_outcome_def
      by (auto simp: attempts_history_1 intro!: exI [of _ "ex_context x"])
    with 2(1) [of mx 0] 0(6) show ?thesis
      by (intro exI [of _ False] exI [of _ 1] exI [of _ ?v]) simp
  qed
next
  case (Suc k m w r)
  show ?case
  proof (cases rule: retry_turn [OF T Suc.prems(1-5), of s m])
    case (1 w')
    then show ?thesis by (intro exI [of _ True] exI [of _ 1] exI [of _ w']) simp
  next
    case (2 q v)
    let ?v = "v\<lparr>w_events := w_events v @ [StepRetry i (sd_id s) (m + 1)]\<rparr>"
    have ev: "evolves E T {} {j} w ?v" using 2(2) by (intro evolves_log) simp_all
    note x = evolves_execution [OF ev Suc.prems(2)]
    have q: "find_step ?v j = Some q" using 2(3) by simp
    have st: "se_status q = Pending \<or> se_status q = Failed" and mx: "mx = (m + 1) + int (Suc k)"
      using 2(7) Suc.prems(6) by simp_all
    obtain b a w' where IH: "retry_loop E run i s j mx (Suc k) (m + 1) ?v = (Inr b, w')"
      "1 \<le> a" "a \<le> Suc k" "\<not> b \<longrightarrow> a = Suc k" "step_outcome (produced E T D run s) E T i (sd_id s) j (m + 1) ?v b a w'"
      using Suc.IH [OF evolves_fresh_ids [OF ev Suc.prems(1)] x [THEN conjunct1] Suc.prems(3) q st mx] by blast
    have "evolves E T {i} {j} w ?v" using ev by (rule evolves_weaken) auto
    then have "step_outcome (produced E T D run s) E T i (sd_id s) j m w b (Suc a) w'"
      using step_outcome_Suc [OF _ Suc.prems(2) _ _ Suc.prems(4) q 2(4) 2(6) _ IH(5)] x 2(9) IH(2) by simp
    moreover have "retry_loop E run i s j mx (Suc (Suc k)) m w = (Inr b, w')"
      using 2(1) [of mx "Suc k"] Suc.prems(6) IH(1) by simp
    ultimately show ?thesis using IH(2-4)
      by (intro exI [of _ b] exI [of _ "Suc a"] exI [of _ w']) simp
  qed
qed

lemma execute_step_run:
  assumes T: "T < 2 ^ 128" and fresh: "fresh_ids E w"
    and x: "find_execution w i = Some x" "stored E T D (ex_context x)"
    and r: "find_step w j = Some r" "se_status r = Pending" "1 \<le> se_max_attempts r"
  obtains b a w' where "execute_step_with_retry E run i s j w = (Inr b, w')"
    "1 \<le> a" "int a \<le> se_max_attempts r" "\<not> b \<longrightarrow> int a = se_max_attempts r"
    "step_outcome (produced E T D run s) E T i (sd_id s) j 0 w b a w'"
proof -
  obtain k where k: "nat (se_max_attempts r) = Suc k" "se_max_attempts r = 0 + int (Suc k)"
    using r(3) by (intro that [of "nat (se_max_attempts r - 1)"]) linarith+
  from retry_loop_run [OF T fresh x r(1) disjI1 [OF r(2)] k(2), of s]
  obtain b a w' where "retry_loop E run i s j (se_max_attempts r) (Suc k) 0 w = (Inr b, w')"
    "1 \<le> a" "a \<le> Suc k" "\<not> b \<longrightarrow> a = Suc k" "step_outcome (produced E T D run s) E T i (sd_id s) j 0 w b a w'" by blast
  moreover from this have "execute_step_with_retry E run i s j w = (Inr b, w')"
    using r(1) k(1) by (simp add: execute_step_with_retry_def)
  ultimately show ?thesis using that k(2) by simp
qed

end

section \<open>The walk over the steps\<close>

type_synonym step_view = "string \<Rightarrow> (step_execution \<times> status list) option"

text \<open>The row of a step and its logged history, by step id.\<close>

definition view_of :: "(string \<times> uuid) list \<Rightarrow> world \<Rightarrow> step_view" where
  "view_of sm w s =
    (case map_of sm s of
       None \<Rightarrow> None
     | Some j \<Rightarrow> map_option (\<lambda>r. (r, step_history j (w_events w))) (find_step w j))"

text \<open>The steps a completed condition step takes out of the walk.\<close>

definition skipped_by :: "env \<Rightarrow> (string \<Rightarrow> step_definition option) \<Rightarrow> step_view \<Rightarrow> string \<Rightarrow> string set" where
  "skipped_by E defs view c =
    (case (defs c, view c) of
       (Some d, Some (r, h)) \<Rightarrow>
         if sd_type d = CONDITION \<and> se_status r = Completed
         then (case resolve_condition_branches E d (se_output_data r) of Inr bs \<Rightarrow> set bs | Inl e \<Rightarrow> {})
         else {}
     | _ \<Rightarrow> {})"

text \<open>
  A settled step has completed, with its output in the context, after one to
  \<open>max_attempts\<close> attempts all of which but the last failed; or it was skipped, which
  happens exactly when an earlier condition step put it on the other branch.
\<close>

definition completed_step :: "(step_definition \<Rightarrow> dict \<Rightarrow> dict \<Rightarrow> bool) \<Rightarrow> (string \<Rightarrow> step_definition option) \<Rightarrow>
    step_view \<Rightarrow> (string \<Rightarrow> dict option) \<Rightarrow> string list \<Rightarrow> string \<Rightarrow> bool" where
  "completed_step P defs view outs pre s \<longleftrightarrow>
    (\<exists>r a out d c. view s = Some (r, attempts_history a True) \<and> 1 \<le> a \<and> int a \<le> se_max_attempts r \<and>
      se_attempt r = int a \<and> se_status r = Completed \<and> se_output_data r = Some out \<and> outs s = Some out \<and>
      defs s = Some d \<and> P d c out \<and> (\<forall>t. outputs c t = (if t \<in> set pre then outs t else None)))"

definition skipped_step :: "step_view \<Rightarrow> (string \<Rightarrow> dict option) \<Rightarrow> string \<Rightarrow> bool" where
  "skipped_step view outs s \<longleftrightarrow>
    (\<exists>r. view s = Some (r, [Skipped]) \<and> se_status r = Skipped \<and> se_output_data r = None \<and> outs s = None)"

definition untouched_step :: "step_view \<Rightarrow> string \<Rightarrow> bool" where
  "untouched_step view s \<longleftrightarrow>
    (\<exists>r. view s = Some (r, []) \<and> se_status r = Pending \<and> se_output_data r = None \<and> 1 \<le> se_max_attempts r)"

definition failed_step :: "step_view \<Rightarrow> string \<Rightarrow> bool" where
  "failed_step view s \<longleftrightarrow>
    (\<exists>r. view s = Some (r, attempts_history (nat (se_max_attempts r)) False) \<and> se_status r = Failed \<and>
      se_attempt r = se_max_attempts r \<and> se_output_data r = None \<and> se_error r \<noteq> None)"

definition settled :: "(step_definition \<Rightarrow> dict \<Rightarrow> dict \<Rightarrow> bool) \<Rightarrow> env \<Rightarrow> (string \<Rightarrow> step_definition option) \<Rightarrow> step_view \<Rightarrow> (string \<Rightarrow> dict option) \<Rightarrow>
    string list \<Rightarrow> bool" where
  "settled P E defs view outs done \<longleftrightarrow>
    (\<forall>s. s \<notin> set done \<longrightarrow> outs s = None) \<and>
    (\<forall>pre s post. done = pre @ s # post \<longrightarrow>
      (if \<exists>c\<in>set pre. s \<in> skipped_by E defs view c then skipped_step view outs s
       else completed_step P defs view outs pre s))"

definition finished :: "(step_definition \<Rightarrow> dict \<Rightarrow> dict \<Rightarrow> bool) \<Rightarrow> env \<Rightarrow> (string \<Rightarrow> step_definition option) \<Rightarrow> string list \<Rightarrow> step_view \<Rightarrow>
    (string \<Rightarrow> dict option) \<Rightarrow> status \<Rightarrow> string option \<Rightarrow> status list \<Rightarrow> bool" where
  "finished P E defs order view outs st err hist \<longleftrightarrow>
    (\<exists>done rest. order = done @ rest \<and> settled P E defs view outs done \<and>
      (case rest of
         [] \<Rightarrow> st = Completed \<and> err = None \<and> hist = [Running, Completed]
       | s # later \<Rightarrow> st = Failed \<and> err = Some (exhausted_error s) \<and> hist = [Running] \<and>
           failed_step view s \<and> (\<forall>c\<in>set done. s \<notin> skipped_by E defs view c) \<and>
           (\<forall>t\<in>set later. untouched_step view t)))"

lemma skipped_by_cong: "view' c = view c \<Longrightarrow> skipped_by E defs view' c = skipped_by E defs view c"
  by (simp add: skipped_by_def)

lemma settled_Nil: "settled P E defs view outs [] \<longleftrightarrow> (\<forall>s. outs s = None)"
  by (simp add: settled_def)

lemma settled_snoc:
  assumes set: "settled P E defs view outs done" and s: "s \<notin> set done"
    and view: "\<And>t. t \<in> set done \<Longrightarrow> view' t = view t"
    and outs: "\<And>t. t \<noteq> s \<Longrightarrow> outs' t = outs t"
    and last: "if \<exists>c\<in>set done. s \<in> skipped_by E defs view c then skipped_step view' outs' s
       else completed_step P defs view' outs' done s"
  shows "settled P E defs view' outs' (done @ [s])"
  unfolding settled_def
proof (intro conjI allI impI)
  fix t assume "t \<notin> set (done @ [s])"
  then show "outs' t = None" using set outs [of t] by (simp add: settled_def)
next
  have skip: "skipped_by E defs view' c = skipped_by E defs view c" if "c \<in> set done" for c
    using view [OF that] by (rule skipped_by_cong)
  fix pre t post assume split: "done @ [s] = pre @ t # post"
  show "if \<exists>c\<in>set pre. t \<in> skipped_by E defs view' c then skipped_step view' outs' t
      else completed_step P defs view' outs' pre t"
  proof (cases post rule: rev_cases)
    case Nil
    with split have "pre = done" "t = s" by simp_all
    with last skip show ?thesis by simp
  next
    case (snoc post' u)
    with split have d: "done = pre @ t # post'" by simp
    then have t: "t \<in> set done" "t \<noteq> s" using s by auto
    have pre: "u \<in> set pre \<Longrightarrow> outs' u = outs u" for u using d s outs [of u] by auto
    have "if \<exists>c\<in>set pre. t \<in> skipped_by E defs view c then skipped_step view outs t
      else completed_step P defs view outs pre t" using set d unfolding settled_def by blast
    moreover have "skipped_step view' outs' t = skipped_step view outs t"
      "completed_step P defs view' outs' pre t = completed_step P defs view outs pre t"
      using view [OF t(1)] outs [OF t(2)] pre by (simp_all add: skipped_step_def completed_step_def cong: if_cong)
    ultimately show ?thesis using skip d by simp
  qed
qed

lemma view_frame:
  assumes ev: "evolves E T X S w w'" and "map_of sm s = Some j" "find_step w j = Some r" "j \<notin> S"
  shows "view_of sm w' s = view_of sm w s"
  using evolves_step [OF ev assms(3,4)] assms(2,3) by (simp add: view_of_def)

text \<open>What the walk relies on: the tables of the definitions and of the rows.\<close>

definition step_tables :: "(string \<times> step_definition) list \<Rightarrow> (string \<times> uuid) list \<Rightarrow> string list \<Rightarrow> bool" where
  "step_tables defs sm N \<longleftrightarrow>
    (\<forall>s\<in>set N. (\<exists>d. map_of defs s = Some d \<and> sd_id d = s) \<and> map_of sm s \<noteq> None) \<and>
    (\<forall>s\<in>set N. \<forall>t\<in>set N. map_of sm s = map_of sm t \<longrightarrow> s = t)"

definition step_ids :: "(string \<times> uuid) list \<Rightarrow> string list \<Rightarrow> uuid set" where
  "step_ids sm N = {j. \<exists>s\<in>set N. map_of sm s = Some j}"

definition walk_inv :: "(step_definition \<Rightarrow> dict \<Rightarrow> dict \<Rightarrow> bool) \<Rightarrow> env \<Rightarrow> uuid \<Rightarrow> int \<Rightarrow> uuid \<Rightarrow> (string \<times> step_definition) list \<Rightarrow> (string \<times> uuid) list \<Rightarrow>
    string list \<Rightarrow> string list \<Rightarrow> string list \<Rightarrow> world \<Rightarrow> bool" where
  "walk_inv P E T D i defs sm done todo skipped w \<longleftrightarrow>
    fresh_ids E w \<and> distinct (done @ todo) \<and> step_tables defs sm (done @ todo) \<and>
    (\<exists>x. find_execution w i = Some x \<and> ex_status x = Running \<and> ex_error x = None \<and>
      stored E T D (ex_context x) \<and>
      execution_history i (w_events w) = [Running] \<and>
      settled P E (map_of defs) (view_of sm w) (outputs (ex_context x)) done) \<and>
    (\<forall>s\<in>set todo. untouched_step (view_of sm w) s) \<and>
    (\<forall>s\<in>set done. view_of sm w s \<noteq> None) \<and>
    set skipped = (\<Union>c\<in>set done. skipped_by E (map_of defs) (view_of sm w) c)"

lemma view_of_Some:
  "view_of sm w s = Some (r, h) \<longleftrightarrow>
    (\<exists>j. map_of sm s = Some j \<and> find_step w j = Some r \<and> h = step_history j (w_events w))"
  by (auto simp: view_of_def split: option.splits)

lemma walk_views:
  assumes inv: "walk_inv P E T D i defs sm done (s # todo) skipped w"
    and j: "map_of sm s = Some j" and ev: "evolves E T X {j} w w'"
  shows "t \<in> set (done @ todo) \<Longrightarrow> view_of sm w' t = view_of sm w t"
proof -
  assume t: "t \<in> set (done @ todo)"
  from inv have dist: "t \<noteq> s" using t by (auto simp: walk_inv_def)
  have "view_of sm w t \<noteq> None"
    using inv t by (auto simp: walk_inv_def untouched_step_def)
  then obtain k r where k: "map_of sm t = Some k" "find_step w k = Some r"
    by (auto simp: view_of_def split: option.splits)
  have "k \<noteq> j"
    using inv t dist j k(1) unfolding walk_inv_def step_tables_def by (metis Un_iff list.set_intros set_append)
  then show ?thesis by (intro view_frame [OF ev k]) simp
qed

text \<open>One settled step keeps the invariant.\<close>

lemma walk_inv_settle:
  assumes inv: "walk_inv P E T D i defs sm done (s # todo) skipped w"
    and j: "map_of sm s = Some j" and ev: "evolves E T X {j} w w'"
    and x: "find_execution w i = Some x" "find_execution w' i = Some (x\<lparr>ex_context := c\<rparr>)"
    and hist: "execution_history i (w_events w') = execution_history i (w_events w)"
    and c: "stored E T D c" "\<And>t. t \<noteq> s \<Longrightarrow> outputs c t = outputs (ex_context x) t"
    and last: "if s \<in> set skipped then skipped_step (view_of sm w') (outputs c) s
       else completed_step P (map_of defs) (view_of sm w') (outputs c) done s"
    and skipped': "set skipped' = set skipped \<union> skipped_by E (map_of defs) (view_of sm w') s"
  shows "walk_inv P E T D i defs sm (done @ [s]) todo skipped' w'"
proof -
  note views = walk_views [OF inv j ev]
  have s: "s \<notin> set done" "s \<notin> set todo" "distinct (done @ todo)" using inv by (auto simp: walk_inv_def)
  have skips: "skipped_by E (map_of defs) (view_of sm w') t = skipped_by E (map_of defs) (view_of sm w) t"
    if "t \<in> set done" for t
    using views [of t] that by (intro skipped_by_cong) simp
  have "settled P E (map_of defs) (view_of sm w) (outputs (ex_context x)) done"
    using inv x(1) by (auto simp: walk_inv_def)
  then have "settled P E (map_of defs) (view_of sm w') (outputs c) (done @ [s])"
  proof (rule settled_snoc [OF _ s(1)])
    show "if \<exists>c\<in>set done. s \<in> skipped_by E (map_of defs) (view_of sm w) c
        then skipped_step (view_of sm w') (outputs c) s else completed_step P (map_of defs) (view_of sm w') (outputs c) done s"
      using last inv by (auto simp: walk_inv_def split: if_splits)
  qed (use views c(2) in auto)
  moreover have "untouched_step (view_of sm w') t" if "t \<in> set todo" for t
    using inv that views [of t] by (simp add: walk_inv_def untouched_step_def)
  moreover have "view_of sm w' t \<noteq> None" if "t \<in> set (done @ [s])" for t
    using inv that views [of t] last by (auto simp: walk_inv_def skipped_step_def completed_step_def
        split: if_splits)
  moreover have "set skipped' = (\<Union>c\<in>set (done @ [s]). skipped_by E (map_of defs) (view_of sm w') c)"
    using inv skips skipped' by (auto simp: walk_inv_def)
  moreover have "step_tables defs sm ((done @ [s]) @ todo)" "fresh_ids E w"
    using inv by (auto simp: walk_inv_def)
  ultimately show ?thesis
    using x hist c(1) inv s evolves_fresh_ids [OF ev] unfolding walk_inv_def by auto
qed

lemma settled_cong:
  assumes "settled P E defs view outs done" "\<And>t. t \<in> set done \<Longrightarrow> view' t = view t"
  shows "settled P E defs view' outs done"
  unfolding settled_def
proof (intro conjI allI impI)
  show "outs t = None" if "t \<notin> set done" for t using assms(1) that by (simp add: settled_def)
  fix pre t post assume split: "done = pre @ t # post"
  then have "skipped_by E defs view' c = skipped_by E defs view c" if "c \<in> set pre" for c
    using assms(2) [of c] that by (intro skipped_by_cong) simp
  moreover have "view' t = view t" using assms(2) split by simp
  then have "skipped_step view' outs t = skipped_step view outs t"
    "completed_step P defs view' outs pre t = completed_step P defs view outs pre t"
    by (simp_all add: skipped_step_def completed_step_def)
  moreover have "if \<exists>c\<in>set pre. t \<in> skipped_by E defs view c then skipped_step view outs t
      else completed_step P defs view outs pre t" using assms(1) split unfolding settled_def by blast
  ultimately show "if \<exists>c\<in>set pre. t \<in> skipped_by E defs view' c then skipped_step view' outs t
      else completed_step P defs view' outs pre t" by simp
qed

lemma walk_row:
  assumes "walk_inv P E T D i defs sm done (s # todo) skipped w"
  obtains d j r where "map_of defs s = Some d" "sd_id d = s" "map_of sm s = Some j" "find_step w j = Some r"
    "step_history j (w_events w) = []" "se_status r = Pending" "se_output_data r = None" "1 \<le> se_max_attempts r"
proof -
  have "untouched_step (view_of sm w) s" "step_tables defs sm (done @ s # todo)"
    using assms by (simp_all add: walk_inv_def)
  then show ?thesis using that by (auto simp: untouched_step_def view_of_Some step_tables_def)
qed

lemma walk_execution:
  assumes "walk_inv P E T D i defs sm done todo skipped w"
  obtains x where "find_execution w i = Some x" "ex_status x = Running" "ex_error x = None"
    "stored E T D (ex_context x)" "execution_history i (w_events w) = [Running]"
    "settled P E (map_of defs) (view_of sm w) (outputs (ex_context x)) done"
  using assms by (auto simp: walk_inv_def)

lemma walk_skip:
  assumes inv: "walk_inv P E T D i defs sm done (s # todo) skipped w" and "s \<in> set skipped"
    and j: "map_of sm s = Some j"
  obtains r' w' where "transition_step E j Skipped None w = (Inr r', w')" "evolves E T {} {j} w w'"
    "walk_inv P E T D i defs sm (done @ [s]) todo skipped w'"
proof -
  obtain d r where r: "map_of defs s = Some d" "find_step w j = Some r" "se_status r = Pending"
    "se_output_data r = None" "step_history j (w_events w) = []"
    by (rule walk_row [OF inv]) (use j in auto)
  have "may_move ALLOWED_STEP_TRANSITIONS (se_status r) Skipped" using r(3) by (simp add: step_moves)
  from transition_step_run [OF r(2) this, of E None T "{}"]
  obtain n w' where w': "transition_step E j Skipped None w = (Inr (stamp_step E Skipped n None r), w')"
    "find_step w' j = Some (stamp_step E Skipped n None r)"
    "step_history j (w_events w') = [Skipped]" "evolves E T {} {j} w w'" using r(5) by auto
  obtain x where x: "find_execution w i = Some x" "stored E T D (ex_context x)"
    "settled P E (map_of defs) (view_of sm w) (outputs (ex_context x)) done"
    by (rule walk_execution [OF inv])
  have same: "find_execution w' i = Some (x\<lparr>ex_context := ex_context x\<rparr>)"
    "execution_history i (w_events w') = execution_history i (w_events w)"
    using evolves_execution [OF w'(4) x(1)] by simp_all
  have "s \<notin> set done" using inv by (auto simp: walk_inv_def)
  then have "outputs (ex_context x) s = None" using x(3) by (simp add: settled_def)
  then have "skipped_step (view_of sm w') (outputs (ex_context x)) s"
    using w' j r(4) by (simp add: skipped_step_def view_of_def)
  moreover have "skipped_by E (map_of defs) (view_of sm w') s = {}"
    using w'(2) j r(1) by (simp add: skipped_by_def view_of_def)
  ultimately have "walk_inv P E T D i defs sm (done @ [s]) todo skipped w'"
    using assms(2) by (intro walk_inv_settle [OF inv j w'(4) x(1) same x(2)]) simp_all
  with w' that show ?thesis by blast
qed

context step_runner
begin

lemma walk_success:
  assumes inv: "walk_inv (produced E T D run) E T D i defs sm done (s # todo) skipped w" and no: "s \<notin> set skipped"
    and j: "map_of sm s = Some j" and d: "map_of defs s = Some d"
    and a: "1 \<le> a" "\<And>r. find_step w j = Some r \<Longrightarrow> int a \<le> se_max_attempts r"
    and out: "step_outcome (produced E T D run d) E T i s j 0 w True a w'"
    and skipped': "set skipped' = set skipped \<union> skipped_by E (map_of defs) (view_of sm w') s"
  shows "walk_inv (produced E T D run) E T D i defs sm (done @ [s]) todo skipped' w'"
proof -
  obtain x where x: "find_execution w i = Some x" "stored E T D (ex_context x)"
    "settled (produced E T D run) E (map_of defs) (view_of sm w) (outputs (ex_context x)) done"
    by (rule walk_execution [OF inv])
  have s: "s \<notin> set done" using inv by (simp add: walk_inv_def)
  from out x(1) obtain r c out r' where o: "find_step w j = Some r"
    "find_execution w' i = Some (x\<lparr>ex_context := c\<rparr>)" "context_after (ex_context x) s (Some out) c"
    "find_step w' j = Some r'" "same_step r r'" "se_attempt r' = int a" "se_status r' = Completed"
    "se_output_data r' = Some out" "produced E T D run d (ex_context x) out" by (auto simp: step_outcome_def)
  from out have ev: "evolves E T {i} {j} w w'"
    "execution_history i (w_events w') = execution_history i (w_events w)"
    "step_history j (w_events w') = step_history j (w_events w) @ attempts_history a True"
    by (simp_all add: step_outcome_def)
  have "step_history j (w_events w) = []"
    by (rule walk_row [OF inv]) (use j in auto)
  then have view: "view_of sm w' s = Some (r', attempts_history a True)"
    using o(4) ev(3) j by (simp add: view_of_def)
  have before: "outputs (ex_context x) t = (if t \<in> set done then outputs c t else None)" for t
    using x(3) o(3) s by (auto simp: settled_def context_after_def)
  have "int a \<le> se_max_attempts r'" using a(2) [OF o(1)] o(5) by (simp add: same_step_def)
  moreover have "outputs c s = Some out" using o(3) by (simp add: context_after_def)
  ultimately have "completed_step (produced E T D run) (map_of defs) (view_of sm w') (outputs c) done s"
    unfolding completed_step_def using view o(6-9) d a(1) before
    by (intro exI conjI allI) assumption+
  then show ?thesis
    using no o(3) by (intro walk_inv_settle [OF inv j ev(1) x(1) o(2) ev(2) _ _ _ skipped'])
      (auto simp: context_after_def intro: stored_after [OF x(2) o(3)])
qed

lemma walk_failure:
  assumes inv: "walk_inv (produced E T D run) E T D i defs sm done (s # todo) skipped w" and no: "s \<notin> set skipped"
    and j: "map_of sm s = Some j"
    and a: "\<And>r. find_step w j = Some r \<Longrightarrow> int a = se_max_attempts r"
    and out: "step_outcome (produced E T D run d) E T i s j 0 w False a v"
  obtains w' x' where "mark_failed i s v = (Inr (), w')" "evolves E T {i} {j} w w'" "find_execution w' i = Some x'"
    "finished (produced E T D run) E (map_of defs) (done @ s # todo) (view_of sm w') (outputs (ex_context x'))
      (ex_status x') (ex_error x') (execution_history i (w_events w'))"
proof -
  obtain x where x: "find_execution w i = Some x" "execution_history i (w_events w) = [Running]"
    "settled (produced E T D run) E (map_of defs) (view_of sm w) (outputs (ex_context x)) done"
    by (rule walk_execution [OF inv])
  from out x(1) obtain r c r' where o: "find_step w j = Some r" "find_execution v i = Some (x\<lparr>ex_context := c\<rparr>)"
    "context_after (ex_context x) s None c" "find_step v j = Some r'" "same_step r r'"
    "se_attempt r' = int a" "se_status r' = Failed" "se_output_data r' = se_output_data r" "se_error r' \<noteq> None"
    by (auto simp: step_outcome_def)
  from out have ev: "evolves E T {i} {j} w v"
    "execution_history i (w_events v) = execution_history i (w_events w)"
    "step_history j (w_events v) = step_history j (w_events w) @ attempts_history a False"
    by (simp_all add: step_outcome_def)
  let ?f = "\<lambda>r. r\<lparr>ex_status := Failed, ex_error := Some (exhausted_error s)\<rparr>"
  let ?w = "upd_execution i ?f v" let ?x = "?f (x\<lparr>ex_context := c\<rparr>)"
  have "evolves E T {i} {j} v ?w" by (rule evolves_upd_execution) simp_all
  with ev(1) have ev': "evolves E T {i} {j} w ?w" by (rule evolves_trans_same)
  have r: "step_history j (w_events w) = []" "se_output_data r = None"
    by (rule walk_row [OF inv], use j o(1) in auto)+
  note views = walk_views [OF inv j ev']
  have "int a = se_max_attempts r'" using a [OF o(1)] o(5) by (simp add: same_step_def)
  then have "a = nat (se_max_attempts r')" "int a = se_max_attempts r'" by simp_all
  then have "failed_step (view_of sm ?w) s"
    using o ev(3) j r by (auto simp: failed_step_def view_of_def)
  moreover
  have "settled (produced E T D run) E (map_of defs) (view_of sm ?w) (outputs c) done"
    using settled_cong [OF x(3), of "view_of sm ?w"] views o(3) by (simp add: context_after_def)
  moreover have "s \<notin> skipped_by E (map_of defs) (view_of sm ?w) t" if "t \<in> set done" for t
    using inv no that views [of t] skipped_by_cong [of "view_of sm ?w" t "view_of sm w"]
    by (auto simp: walk_inv_def)
  moreover have "untouched_step (view_of sm ?w) t" if "t \<in> set todo" for t
    using inv that views [of t] by (simp add: walk_inv_def untouched_step_def)
  ultimately have fin: "finished (produced E T D run) E (map_of defs) (done @ s # todo) (view_of sm ?w) (outputs (ex_context ?x))
      (ex_status ?x) (ex_error ?x) (execution_history i (w_events ?w))"
    using x(2) ev(2) unfolding finished_def
    by (intro exI [of _ "done"] exI [of _ "s # todo"]) simp
  have "find_execution ?w i = Some ?x" by (simp add: ext.find_upd o(2))
  from that [OF _ ev' this fin] show ?thesis by (simp add: mark_failed_def)
qed

end

text \<open>What a walk that raises has met: a branch of a condition step that is no set of ids.\<close>

definition branch_failure :: "env \<Rightarrow> (string \<Rightarrow> step_definition option) \<Rightarrow> string list \<Rightarrow> exn \<Rightarrow> bool" where
  "branch_failure E defs N e \<longleftrightarrow>
    (\<exists>s\<in>set N. \<exists>d out. defs s = Some d \<and> sd_type d = CONDITION \<and> resolve_condition_branches E d out = Inl e)"

definition walk_result :: "(step_definition \<Rightarrow> dict \<Rightarrow> dict \<Rightarrow> bool) \<Rightarrow> env \<Rightarrow> uuid \<Rightarrow> uuid \<Rightarrow> (string \<times> step_definition) list \<Rightarrow> (string \<times> uuid) list \<Rightarrow>
    string list \<Rightarrow> string list \<Rightarrow> world \<Rightarrow> exn + unit \<Rightarrow> world \<Rightarrow> bool" where
  "walk_result P E T i defs sm done todo w res w' \<longleftrightarrow>
    evolves E T {i} (step_ids sm todo) w w' \<and>
    (case res of
       Inl e \<Rightarrow> branch_failure E (map_of defs) todo e
     | Inr _ \<Rightarrow> (\<exists>x'. find_execution w' i = Some x' \<and>
         finished P E (map_of defs) (done @ todo) (view_of sm w') (outputs (ex_context x'))
           (ex_status x') (ex_error x') (execution_history i (w_events w'))))"

lemma walk_result_step:
  assumes j: "map_of sm s = Some j" and ev: "evolves E T {i} {j} w v"
    and res: "walk_result P E T i defs sm (done @ [s]) todo v res w'"
  shows "walk_result P E T i defs sm done (s # todo) w res w'"
proof -
  have "evolves E T {i} (step_ids sm (s # todo)) w v"
    by (rule evolves_weaken [OF ev]) (use j in \<open>auto simp: step_ids_def\<close>)
  moreover have "evolves E T {i} (step_ids sm (s # todo)) v w'"
    using res by (auto simp: walk_result_def step_ids_def elim!: evolves_weaken)
  ultimately have "evolves E T {i} (step_ids sm (s # todo)) w w'" by (rule evolves_trans_same)
  then show ?thesis using res by (auto simp: walk_result_def branch_failure_def split: sum.splits)
qed

lemma walk_end:
  assumes inv: "walk_inv P E T D i defs sm done [] skipped w"
  obtains w' where "dag_loop E run i defs sm [] skipped w = (Inr (), w')"
    "walk_result P E T i defs sm done [] w (Inr ()) w'"
proof -
  obtain x where x: "find_execution w i = Some x" "ex_status x = Running" "ex_error x = None"
    "execution_history i (w_events w) = [Running]"
    "settled P E (map_of defs) (view_of sm w) (outputs (ex_context x)) done"
    by (rule walk_execution [OF inv])
  have "may_move ALLOWED_EXECUTION_TRANSITIONS (ex_status x) Completed" using x(2) by (simp add: execution_moves)
  from transition_execution_run [OF x(1) this, of E T "{}"]
  obtain n w' where 1: "transition_execution E i Completed w = (Inr (stamp_execution E Completed n x), w')"
    "find_execution w' i = Some (stamp_execution E Completed n x)"
    "execution_history i (w_events w') = [Running, Completed]" "evolves E T {i} {} w w'" using x(4) by auto
  have "view_of sm w' t = view_of sm w t" if "t \<in> set done" for t
  proof -
    from inv that have "view_of sm w t \<noteq> None" by (simp add: walk_inv_def)
    then obtain j r where "map_of sm t = Some j" "find_step w j = Some r"
      by (auto simp: view_of_def split: option.splits)
    then show ?thesis by (intro view_frame [OF 1(4)]) simp_all
  qed
  with x(5) have "settled P E (map_of defs) (view_of sm w') (outputs (ex_context x)) done"
    by (rule settled_cong)
  with x(3) have "finished P E (map_of defs) done (view_of sm w') (outputs (ex_context x)) Completed
      (ex_error x) [Running, Completed]"
    unfolding finished_def by (intro exI [of _ "done"] exI [of _ "[]"]) simp
  with 1 have "walk_result P E T i defs sm done [] w (Inr ()) w'"
    by (auto simp: walk_result_def step_ids_def)
  with 1 show ?thesis by (intro that) (simp_all add: andthen_def)
qed

context step_runner
begin

lemma dag_loop_run:
  assumes T: "T < 2 ^ 128" and "walk_inv (produced E T D run) E T D i defs sm done todo skipped w"
  shows "\<exists>res w'. dag_loop E run i defs sm todo skipped w = (res, w') \<and>
    walk_result (produced E T D run) E T i defs sm done todo w res w'"
  using assms(2)
proof (induction todo arbitrary: "done" skipped w)
  case Nil
  then show ?case by (metis walk_end)
next
  case (Cons s todo)
  note inv = Cons.prems
  obtain d j r where row: "map_of defs s = Some d" "sd_id d = s" "map_of sm s = Some j" "find_step w j = Some r"
    "se_status r = Pending" "1 \<le> se_max_attempts r" by (rule walk_row [OF inv])
  have fresh: "fresh_ids E w" using inv by (simp add: walk_inv_def)
  have continue: "\<exists>res w'. dag_loop E run i defs sm todo skipped' v = (res, w') \<and>
      walk_result (produced E T D run) E T i defs sm done (s # todo) w res w'"
    if "walk_inv (produced E T D run) E T D i defs sm (done @ [s]) todo skipped' v" "evolves E T {i} {j} w v" for skipped' v
    using Cons.IH [OF that(1)] walk_result_step [OF row(3) that(2)] by blast
  show ?case
  proof (cases "s \<in> set skipped")
    case True
    obtain r' v where v: "transition_step E j Skipped None w = (Inr r', v)" "evolves E T {} {j} w v"
      "walk_inv (produced E T D run) E T D i defs sm (done @ [s]) todo skipped v" by (rule walk_skip [OF inv True row(3)])
    have "evolves E T {i} {j} w v" using v(2) by (rule evolves_weaken) auto
    from continue [OF v(3) this] show ?thesis
      using True row(1,3) v(1) by (simp add: andthen_def)
  next
    case False
    obtain x where x: "find_execution w i = Some x" "stored E T D (ex_context x)"
      by (rule walk_execution [OF inv])
    obtain b a v where v: "execute_step_with_retry E run i d j w = (Inr b, v)" "1 \<le> a"
      "int a \<le> se_max_attempts r" "\<not> b \<longrightarrow> int a = se_max_attempts r" "step_outcome (produced E T D run d) E T i s j 0 w b a v"
      using execute_step_run [OF T fresh x row(4-6), of d] row(2) by metis
    have ev: "evolves E T {i} {j} w v" using v(5) by (simp add: step_outcome_def)
    show ?thesis
    proof (cases b)
      case False
      obtain w' x' where w': "mark_failed i s v = (Inr (), w')" "evolves E T {i} {j} w w'"
        "find_execution w' i = Some x'" "finished (produced E T D run) E (map_of defs) (done @ s # todo) (view_of sm w')
          (outputs (ex_context x')) (ex_status x') (ex_error x') (execution_history i (w_events w'))"
        using walk_failure [OF inv \<open>s \<notin> set skipped\<close> row(3), where a = a and v = v] v(4,5) False row(4) by auto
      have "evolves E T {i} (step_ids sm (s # todo)) w w'"
        by (rule evolves_weaken [OF w'(2)]) (use row(3) in \<open>auto simp: step_ids_def\<close>)
      with w' have "walk_result (produced E T D run) E T i defs sm done (s # todo) w (Inr ()) w'"
        by (auto simp: walk_result_def)
      moreover have "dag_loop E run i defs sm (s # todo) skipped w = (Inr (), w')"
        using \<open>s \<notin> set skipped\<close> row(1,3) v(1) False w'(1) by (simp add: andthen_def)
      ultimately show ?thesis by blast
    next
      case True
      let ?out = "Option.bind (find_step v j) se_output_data"
      have success: "walk_inv (produced E T D run) E T D i defs sm (done @ [s]) todo skipped' v"
        if "set skipped' = set skipped \<union> skipped_by E (map_of defs) (view_of sm v) s" for skipped'
        using walk_success [OF inv \<open>s \<notin> set skipped\<close> row(3,1) v(2) _ _ that] v(3,5) True row(4) by auto
      have skips: "skipped_by E (map_of defs) (view_of sm v) s =
          (if sd_type d = CONDITION then
             (case resolve_condition_branches E d ?out of Inr bs \<Rightarrow> set bs | Inl e \<Rightarrow> {}) else {})"
        using v(5) True row(1,3) by (auto simp: skipped_by_def view_of_def step_outcome_def)
      show ?thesis
      proof (cases "sd_type d = CONDITION")
        case False
        then have "walk_inv (produced E T D run) E T D i defs sm (done @ [s]) todo skipped v" using success skips by simp
        from continue [OF this ev] show ?thesis
          using \<open>s \<notin> set skipped\<close> row(1,3) v(1) True False by (simp add: andthen_def)
      next
        case cond: True
        show ?thesis
        proof (cases "resolve_condition_branches E d ?out")
          case (Inl e)
          have "evolves E T {i} (step_ids sm (s # todo)) w v"
            by (rule evolves_weaken [OF ev]) (use row(3) in \<open>auto simp: step_ids_def\<close>)
          then have "walk_result (produced E T D run) E T i defs sm done (s # todo) w (Inl e) v"
            using Inl row(1) cond by (auto simp: walk_result_def branch_failure_def)
          moreover have "dag_loop E run i defs sm (s # todo) skipped w = (Inl e, v)"
            using \<open>s \<notin> set skipped\<close> row(1,3) v(1) True cond Inl by (simp add: andthen_def)
          ultimately show ?thesis by blast
        next
          case (Inr bs)
          then have "walk_inv (produced E T D run) E T D i defs sm (done @ [s]) todo (skipped @ bs) v"
            using success [of "skipped @ bs"] skips cond by simp
          from continue [OF this ev] show ?thesis
            using \<open>s \<notin> set skipped\<close> row(1,3) v(1) True cond Inr by (simp add: andthen_def)
        qed
      qed
    qed
  qed
qed

end

end
