(* ===== verification/Runs.thy ===== *)
theory Runs
  imports Execution
begin

text \<open>
  A whole run: the rows \<open>start_execution\<close> creates, the walk over them and the execution it
  returns (\<open>start_run\<close>). The engine's own step runner keeps the contract at every level of
  nesting (\<open>run_step_contract\<close>), so what was proved for any runner holds of it.
\<close>

section \<open>Creating the step rows\<close>

definition fresh_step_row :: "uuid \<Rightarrow> uuid \<Rightarrow> world \<Rightarrow> world \<Rightarrow> step_definition \<Rightarrow> uuid \<Rightarrow> bool" where
  "fresh_step_row T i w w' s j \<longleftrightarrow> find_step w j = None \<and>
    find_step w' j = Some (new_step j T i s (w_txn_now w)) \<and> step_history j (w_events w') = []"

lemma create_steps_run:
  assumes "fresh_ids E w" "distinct (map sd_id ss)"
  shows "\<exists>sm' w'. create_steps E T i ss sm w = (Inr sm', w') \<and> evolves E T {} {} w w' \<and>
    (\<forall>s\<in>set ss. \<exists>j. map_of sm' (sd_id s) = Some j \<and> fresh_step_row T i w w' s j) \<and>
    (\<forall>s. s \<notin> sd_id ` set ss \<longrightarrow> map_of sm' s = map_of sm s) \<and>
    (\<forall>s\<in>set ss. \<forall>t\<in>set ss. map_of sm' (sd_id s) = map_of sm' (sd_id t) \<longrightarrow> sd_id s = sd_id t)"
  using assms
proof (induction ss arbitrary: sm w)
  case Nil
  then show ?case by simp
next
  case (Cons s ss)
  let ?j = "env_uuid E (w_ticks w)" let ?r = "new_step ?j T i s (w_txn_now w)"
  let ?v = "add_step ?r (w\<lparr>w_ticks := Suc (w_ticks w)\<rparr>)"
  have ev: "evolves E T {} {} w ?v"
    using Cons.prems(1) by (rule evolves_insert_step) (simp_all add: new_step_def)
  note fresh = fresh_ids_next [OF Cons.prems(1)]
  from Cons.IH [OF evolves_fresh_ids [OF ev Cons.prems(1)], of "dict_set (sd_id s) ?j sm"] Cons.prems(2)
  obtain sm' w' where IH: "create_steps E T i ss (dict_set (sd_id s) ?j sm) ?v = (Inr sm', w')"
    "evolves E T {} {} ?v w'"
    "\<forall>s\<in>set ss. \<exists>j. map_of sm' (sd_id s) = Some j \<and> fresh_step_row T i ?v w' s j"
    "\<forall>t. t \<notin> sd_id ` set ss \<longrightarrow> map_of sm' t = map_of (dict_set (sd_id s) ?j sm) t"
    "\<forall>s\<in>set ss. \<forall>t\<in>set ss. map_of sm' (sd_id s) = map_of sm' (sd_id t) \<longrightarrow> sd_id s = sd_id t"
    by auto
  have new: "find_step ?v k = (case find_step w k of Some q \<Rightarrow> Some q | None \<Rightarrow> if k = ?j then Some ?r else None)" for k
    by (simp add: stt.find_add new_step_def split: option.split)
  have row: "find_step ?v ?j = Some ?r" using fresh(2) by (simp add: new)
  have s: "map_of sm' (sd_id s) = Some ?j" using IH(4) Cons.prems(2) by auto
  have "fresh_step_row T i w w' s ?j"
    using evolves_step [OF IH(2) row] fresh by (simp add: fresh_step_row_def)
  moreover have "fresh_step_row T i w w' t k \<and> k \<noteq> ?j" if "fresh_step_row T i ?v w' t k" for t k
    using that row by (auto simp: fresh_step_row_def new split: option.splits if_splits)
  ultimately have rows: "\<forall>t\<in>set (s # ss). \<exists>k. map_of sm' (sd_id t) = Some k \<and> fresh_step_row T i w w' t k"
    and other: "\<forall>t\<in>set ss. map_of sm' (sd_id t) \<noteq> Some ?j"
    using IH(3) s by fastforce+
  have "create_steps E T i (s # ss) sm w = (Inr sm', w')"
    using IH(1) by (simp add: andthen_def generate_uuid_def)
  moreover have "evolves E T {} {} w w'" using ev IH(2) by (rule evolves_trans_same)
  moreover have "\<forall>t. t \<notin> sd_id ` set (s # ss) \<longrightarrow> map_of sm' t = map_of sm t" using IH(4) by simp
  moreover have "\<forall>t\<in>set (s # ss). \<forall>u\<in>set (s # ss). map_of sm' (sd_id t) = map_of sm' (sd_id u) \<longrightarrow> sd_id t = sd_id u"
    using IH(5) other s by (metis set_ConsD)
  ultimately show ?case using rows by blast
qed

section \<open>Starting\<close>

text \<open>What a returned execution is: a new row of the tenant, its step rows, and their outcome.\<close>

definition run_result :: "(step_definition \<Rightarrow> dict \<Rightarrow> dict \<Rightarrow> bool) \<Rightarrow> env \<Rightarrow> uuid \<Rightarrow> workflow \<Rightarrow> dict \<Rightarrow> uuid option \<Rightarrow> step_definition list \<Rightarrow>
    world \<Rightarrow> execution \<Rightarrow> world \<Rightarrow> bool" where
  "run_result P E T flow trigger replayed steps w x w' \<longleftrightarrow>
    find_execution w (ex_id x) = None \<and> find_execution w' (ex_id x) = Some x \<and>
    ex_tenant_id x = T \<and> ex_workflow_id x = wf_id flow \<and> ex_trigger_data x = trigger \<and>
    ex_replayed_from x = replayed \<and>
    (\<exists>sm.
      (\<forall>s\<in>set steps. \<exists>j r. map_of sm (sd_id s) = Some j \<and> find_step w j = None \<and>
        find_step w' j = Some r \<and> se_tenant_id r = T \<and> se_execution_id r = ex_id x \<and>
        se_step_id r = sd_id s \<and> se_step_type r = step_type_value (sd_type s) \<and>
        se_max_attempts r = max_attempts_of s) \<and>
      finished P E (map_of (map (\<lambda>s. (sd_id s, s)) steps)) (topological_sort steps) (view_of sm w')
        (outputs (ex_context x)) (ex_status x) (ex_error x) (execution_history (ex_id x) (w_events w')))"

lemma max_attempts_positive:
  assumes "parse_workflow_definition E raw = Some (Inr d)" "s \<in> set (wfd_steps d)"
  shows "1 \<le> max_attempts_of s" "max_attempts_of s \<le> 10"
proof -
  from assms(1) have "well_formed E raw (wfd_steps d)" by (simp add: parse_Inr_iff)
  with assms(2) obtain e where "validate_step_definition E e = Some s"
    by (auto simp: well_formed_def list_all2_conv_all_nth in_set_conv_nth)
  then show "1 \<le> max_attempts_of s" "max_attempts_of s \<le> 10"
    using validate_step_definition_ok(2) by (auto simp: max_attempts_of_def retry_ok_def split: option.split)
qed

lemma parsed_dag: "parse_workflow_definition E raw = Some (Inr d) \<Longrightarrow> dag (wfd_steps d)"
  by (simp add: parse_Inr_iff well_formed_def)

lemma dag_order:
  assumes "dag steps"
  shows "distinct (topological_sort steps)" "set (topological_sort steps) = sd_id ` set steps"
    "ordered (edges (step_pairs steps)) (topological_sort steps)"
  using topological_sort_result [of steps] dag_closed [OF assms] assms by (simp_all add: dag_def)

lemma map_of_steps:
  assumes "distinct (map sd_id steps)"
  shows "map_of (map (\<lambda>s. (sd_id s, s)) (rev steps)) = map_of (map (\<lambda>s. (sd_id s, s)) steps)"
    and "s \<in> set steps \<Longrightarrow> map_of (map (\<lambda>s. (sd_id s, s)) steps) (sd_id s) = Some s"
proof -
  let ?p = "map (\<lambda>s. (sd_id s, s)) steps"
  have d: "distinct (map fst ?p)" using assms by (simp add: o_def)
  then show "map_of (map (\<lambda>s. (sd_id s, s)) (rev steps)) = map_of ?p"
    using map_of_inject_set [of "rev ?p" ?p] by (simp add: rev_map [symmetric])
  show "s \<in> set steps \<Longrightarrow> map_of ?p (sd_id s) = Some s"
    using map_of_is_SomeI [OF d] by force
qed

lemma walk_inv_start:
  assumes dag: "dag steps" and fresh: "fresh_ids E w"
    and x: "find_execution w i = Some x" "ex_status x = Running" "ex_error x = None" "stored E T D (ex_context x)"
    and hist: "execution_history i (w_events w) = [Running]" and outs: "outputs (ex_context x) = Map.empty"
    and rows: "\<forall>s\<in>set steps. \<exists>j. map_of sm (sd_id s) = Some j \<and> fresh_step_row T i w0 w s j"
    and inj: "\<forall>s\<in>set steps. \<forall>t\<in>set steps. map_of sm (sd_id s) = map_of sm (sd_id t) \<longrightarrow> sd_id s = sd_id t"
    and attempts: "\<forall>s\<in>set steps. 1 \<le> max_attempts_of s"
  shows "walk_inv P E T D i (map (\<lambda>s. (sd_id s, s)) (rev steps)) sm [] (topological_sort steps) [] w"
proof -
  let ?order = "topological_sort steps" let ?defs = "map (\<lambda>s. (sd_id s, s)) (rev steps)"
  have d: "distinct (map sd_id steps)" using dag by (simp add: dag_def)
  note order = dag_order [OF dag]
  have defs: "map_of ?defs (sd_id s) = Some s" if "s \<in> set steps" for s
    using map_of_steps(2) [OF d that] by (simp only: map_of_steps(1) [OF d])
  have "step_tables ?defs sm ([] @ ?order)"
    using order(2) defs rows inj unfolding step_tables_def by fastforce
  moreover have "untouched_step (view_of sm w) s" if "s \<in> set ?order" for s
  proof -
    from that obtain t where t: "t \<in> set steps" "s = sd_id t" using order(2) by auto
    then obtain j where "map_of sm s = Some j" "fresh_step_row T i w0 w t j" using rows by auto
    then show ?thesis
      using attempts t(1) by (auto simp: untouched_step_def view_of_def fresh_step_row_def new_step_def)
  qed
  moreover have "settled P E (map_of ?defs) (view_of sm w) (outputs (ex_context x)) []"
    using outs by (simp add: settled_Nil)
  ultimately show ?thesis
    using fresh order(1) x hist by (simp add: walk_inv_def)
qed

text \<open>Changes to rows that are new since \<open>w\<close> are no changes to \<open>w\<close>.\<close>

lemma evolves_fresh_rows:
  assumes "evolves E T X S w w'" "\<And>i. i \<in> X \<Longrightarrow> find_execution w i = None" "\<And>j. j \<in> S \<Longrightarrow> find_step w j = None"
  shows "evolves E T {} {} w w'"
  by (rule evolves_trans [OF evolves_refl assms(1)]) (use assms(2,3) in auto)

lemma evolves_step_None: "evolves E T X S w w' \<Longrightarrow> find_step w' j = None \<Longrightarrow> find_step w j = None"
  using evolves_step_found by (cases "find_step w j") fastforce+

text \<open>The rows a walk starts from.\<close>

lemma start_rows:
  assumes "fresh_ids E w"
  defines "i \<equiv> env_uuid E (w_ticks w)"
  obtains n w2 x where "transition_execution E i Running (add_execution
        (new_execution i T wid trigger replayed (w_txn_now w)) (w\<lparr>w_ticks := Suc (w_ticks w)\<rparr>)) = (Inr x, w2)"
    "find_execution w2 i = Some x" "ex_base x = (i, T, wid, trigger, replayed, w_txn_now w)"
    "ex_status x = Running" "ex_error x = None"
    "ex_context x = [(''trigger'', JObj trigger), (''steps'', JObj [])]"
    "execution_history i (w_events w2) = [Running]" "evolves E T {i} {} w w2"
proof -
  let ?r = "new_execution i T wid trigger replayed (w_txn_now w)"
  let ?v = "add_execution ?r (w\<lparr>w_ticks := Suc (w_ticks w)\<rparr>)"
  have ev: "evolves E T {i} {} w ?v"
    using assms(1) by (rule evolves_insert_execution) (simp_all add: new_execution_def i_def)
  have row: "find_execution ?v i = Some ?r"
    using fresh_ids_next [OF assms(1)] by (simp add: ext.find_add new_execution_def i_def)
  have "may_move ALLOWED_EXECUTION_TRANSITIONS (ex_status ?r) Running"
    by (simp add: execution_moves new_execution_def)
  from transition_execution_run [OF row this, of E T "{}"]
  obtain n w2 where 2: "transition_execution E i Running ?v = (Inr (stamp_execution E Running n ?r), w2)"
    "find_execution w2 i = Some (stamp_execution E Running n ?r)"
    "execution_history i (w_events w2) = [Running]" "evolves E T {i} {} ?v w2"
    using fresh_ids_next(3) [OF assms(1)] by (auto simp: i_def)
  show ?thesis
  proof (rule that [OF 2(1,2) _ _ _ _ 2(3)])
    show "evolves E T {i} {} w w2" using ev 2(4) by (rule evolves_trans_same)
    show "ex_base (stamp_execution E Running n ?r) = (i, T, wid, trigger, replayed, w_txn_now w)"
      by (simp, simp add: ex_base_def new_execution_def)
  qed (simp_all add: new_execution_def)
qed

lemma store_metadata_run:
  assumes x: "find_execution w i = Some x" and c: "context_ok (ex_context x)"
    "map_of (ex_context x) ''_tenant_id'' = None" "map_of (ex_context x) ''_depth'' = None"
  obtains w' d where "store_metadata E i depth T w = (Inr (), w')" "evolves E T {i} {} w w'"
    "find_execution w' i = Some (x\<lparr>ex_context := d\<rparr>)" "stored E T depth d"
    "outputs d = outputs (ex_context x)" "w_events w' = w_events w" "\<And>j. find_step w' j = find_step w j"
proof (cases "env_tracks_mutation E")
  case True
  let ?d = "\<lambda>c. dict_set ''_tenant_id'' (JStr (uuid_str T)) (dict_set ''_depth'' (JInt depth) c)"
  let ?w = "upd_execution i (\<lambda>r. r\<lparr>ex_context := ?d (ex_context r)\<rparr>) w"
  have ev: "evolves E T {i} {} w ?w" by (rule evolves_upd_execution) simp_all
  show ?thesis
  proof (rule that [of ?w "?d (ex_context x)"])
    show "find_execution ?w i = Some (x\<lparr>ex_context := ?d (ex_context x)\<rparr>)"
      using x by (simp add: ext.find_upd)
  qed (use True ev c in \<open>auto simp: store_metadata_def stored_def context_ok_def outputs_def fun_eq_iff\<close>)
next
  case False
  show ?thesis
    by (rule that [of w "ex_context x"]) (use False x c in \<open>auto simp: store_metadata_def stored_def\<close>)
qed

text \<open>The rows and the world every runner starts its walk from.\<close>

lemma start_walk:
  assumes fresh: "fresh_ids E w"
    and parsed: "parse_workflow_definition E (raw_definition flow) = Some (Inr parsed)"
  defines "i \<equiv> env_uuid E (w_ticks w)" and "steps \<equiv> wfd_steps parsed"
  obtains sm v x where
    "\<forall>run. start_execution_with E run flow trigger T replayed depth w =
      (case execute_dag E run i steps sm v of (Inl e, w') \<Rightarrow> (Inl e, w') | (Inr u, w') \<Rightarrow> refreshed i w')"
    "\<forall>P. walk_inv P E T depth i (map (\<lambda>s. (sd_id s, s)) (rev steps)) sm [] (topological_sort steps) [] v"
    "evolves E T {i} {} w v" "find_execution v i = Some x" "stored E T depth (ex_context x)"
    "ex_base x = (i, T, wf_id flow, trigger, replayed, w_txn_now w)"
    "\<forall>s\<in>set steps. \<exists>j r. map_of sm (sd_id s) = Some j \<and> find_step w j = None \<and>
      find_step v j = Some r \<and> r = new_step j T i s (se_created_at r)"
proof -
  have dag: "dag steps" using parsed unfolding steps_def by (rule parsed_dag)
  then have d: "distinct (map sd_id steps)" by (simp add: dag_def)
  obtain w2 x where 2: "transition_execution E i Running (add_execution
        (new_execution i T (wf_id flow) trigger replayed (w_txn_now w)) (w\<lparr>w_ticks := Suc (w_ticks w)\<rparr>)) = (Inr x, w2)"
    "find_execution w2 i = Some x" "ex_base x = (i, T, wf_id flow, trigger, replayed, w_txn_now w)"
    "ex_status x = Running" "ex_error x = None"
    "ex_context x = [(''trigger'', JObj trigger), (''steps'', JObj [])]"
    "execution_history i (w_events w2) = [Running]" "evolves E T {i} {} w w2"
    unfolding i_def by (rule start_rows [OF fresh])
  note fresh2 = evolves_fresh_ids [OF 2(8) fresh]
  obtain sm w3 where 3: "create_steps E T i steps [] w2 = (Inr sm, w3)" "evolves E T {} {} w2 w3"
    "\<forall>s\<in>set steps. \<exists>j. map_of sm (sd_id s) = Some j \<and> fresh_step_row T i w2 w3 s j"
    "\<forall>s\<in>set steps. \<forall>t\<in>set steps. map_of sm (sd_id s) = map_of sm (sd_id t) \<longrightarrow> sd_id s = sd_id t"
    using create_steps_run [OF fresh2 d, of T i "[]"] by blast
  note x3 = evolves_execution [OF 3(2) 2(2), simplified]
  have ok: "context_ok (ex_context x)" "map_of (ex_context x) ''_tenant_id'' = None"
    "map_of (ex_context x) ''_depth'' = None" "outputs (ex_context x) = Map.empty"
    by (auto simp: 2(6) context_ok_def outputs_def fun_eq_iff)
  obtain w4 c where 4: "store_metadata E i depth T w3 = (Inr (), w4)" "evolves E T {i} {} w3 w4"
    "find_execution w4 i = Some (x\<lparr>ex_context := c\<rparr>)" "stored E T depth c"
    "outputs c = outputs (ex_context x)" "w_events w4 = w_events w3" "\<And>j. find_step w4 j = find_step w3 j"
    using store_metadata_run [OF x3 [THEN conjunct1] ok(1-3), of E depth T] by blast
  have ev3: "evolves E T {i} {} w w3" by (rule evolves_trans [OF 2(8) 3(2)]) simp_all
  have ev4: "evolves E T {i} {} w w4" by (rule evolves_trans_same [OF ev3 4(2)])
  note fresh4 = evolves_fresh_ids [OF ev4 fresh]
  have rows: "\<forall>s\<in>set steps. \<exists>j. map_of sm (sd_id s) = Some j \<and> fresh_step_row T i w2 w4 s j"
    using 3(3) 4(6,7) by (simp add: fresh_step_row_def)
  have attempts: "\<forall>s\<in>set steps. 1 \<le> max_attempts_of s"
    using max_attempts_positive [OF parsed] by (simp add: steps_def)
  show ?thesis
  proof (rule that [of sm w4 "x\<lparr>ex_context := c\<rparr>"])
    show "\<forall>run. start_execution_with E run flow trigger T replayed depth w =
      (case execute_dag E run i steps sm w4 of (Inl e, w') \<Rightarrow> (Inl e, w') | (Inr u, w') \<Rightarrow> refreshed i w')"
      using parsed 2(1) 3(1) 4(1)
      by (simp add: start_execution_with_def andthen_def generate_uuid_def i_def steps_def
          split: sum.split prod.split)
    show "\<forall>P. walk_inv P E T depth i (map (\<lambda>s. (sd_id s, s)) (rev steps)) sm [] (topological_sort steps) [] w4"
      using 2(4,5,7) 4(4-6) x3 ok(4)
      by (intro allI walk_inv_start [OF dag fresh4 4(3) _ _ _ _ _ rows 3(4) attempts]) simp_all
    show "\<forall>s\<in>set steps. \<exists>j r. map_of sm (sd_id s) = Some j \<and> find_step w j = None \<and>
      find_step w4 j = Some r \<and> r = new_step j T i s (se_created_at r)"
    proof
      fix s assume "s \<in> set steps"
      then obtain j where j: "map_of sm (sd_id s) = Some j" "fresh_step_row T i w2 w4 s j" using rows by blast
      then have "find_step w j = None"
        by (intro evolves_step_None [OF 2(8)]) (simp add: fresh_step_row_def)
      with j show "\<exists>j r. map_of sm (sd_id s) = Some j \<and> find_step w j = None \<and>
          find_step w4 j = Some r \<and> r = new_step j T i s (se_created_at r)"
        by (auto simp: fresh_step_row_def new_step_def)
    qed
  qed (use ev4 2(3) 4 in simp_all)
qed

context step_runner
begin

lemma start_run:
  assumes T: "T < 2 ^ 128" and fresh: "fresh_ids E w"
    and parsed: "parse_workflow_definition E (raw_definition flow) = Some (Inr parsed)"
  obtains res w' where "start_execution_with E run flow trigger T replayed depth w = (res, w')"
    "evolves E T {} {} w w'"
    "case res of
       Inl e \<Rightarrow> branch_failure E (map_of (map (\<lambda>s. (sd_id s, s)) (wfd_steps parsed)))
         (topological_sort (wfd_steps parsed)) e
     | Inr x \<Rightarrow> run_result (produced E T depth run) E T flow trigger replayed (wfd_steps parsed) w x w'"
proof -
  let ?i = "env_uuid E (w_ticks w)" let ?steps = "wfd_steps parsed"
  let ?defs = "map (\<lambda>s. (sd_id s, s)) (rev ?steps)" let ?P = "produced E T depth run"
  have dag: "dag ?steps" using parsed by (rule parsed_dag)
  then have d: "distinct (map sd_id ?steps)" by (simp add: dag_def)
  obtain sm v x where v: "\<forall>run. start_execution_with E run flow trigger T replayed depth w =
      (case execute_dag E run ?i ?steps sm v of (Inl e, w') \<Rightarrow> (Inl e, w') | (Inr u, w') \<Rightarrow> refreshed ?i w')"
    "\<forall>P. walk_inv P E T depth ?i ?defs sm [] (topological_sort ?steps) [] v"
    "evolves E T {?i} {} w v" "find_execution v ?i = Some x" "stored E T depth (ex_context x)"
    "ex_base x = (?i, T, wf_id flow, trigger, replayed, w_txn_now w)"
    "\<forall>s\<in>set ?steps. \<exists>j r. map_of sm (sd_id s) = Some j \<and> find_step w j = None \<and>
      find_step v j = Some r \<and> r = new_step j T ?i s (se_created_at r)"
    by (rule start_walk [OF fresh parsed, of trigger T replayed depth])
  obtain res w' where dag_run: "execute_dag E run ?i ?steps sm v = (res, w')"
    and res: "walk_result ?P E T ?i ?defs sm [] (topological_sort ?steps) v res w'"
    using dag_loop_run [OF T spec [OF v(2)]] by (auto simp: execute_dag_def)
  have new: "find_execution w ?i = None" by (rule fresh_ids_next(1) [OF fresh])
  have ev5: "evolves E T {?i} (step_ids sm (topological_sort ?steps)) v w'"
    using res by (simp add: walk_result_def)
  have "evolves E T {?i} (step_ids sm (topological_sort ?steps)) w v"
    by (rule evolves_weaken [OF v(3)]) auto
  then have "evolves E T {?i} (step_ids sm (topological_sort ?steps)) w w'"
    using ev5 by (rule evolves_trans_same)
  then have ev: "evolves E T {} {} w w'"
    using new v(7) dag_order(2) [OF dag] by (intro evolves_fresh_rows) (fastforce simp: step_ids_def)+
  show ?thesis
  proof (cases res)
    case (Inl e)
    then show ?thesis
      using that [of "Inl e" w'] v(1) dag_run ev res map_of_steps(1) [OF d] by (simp add: walk_result_def)
  next
    case (Inr u)
    then obtain x' where x': "find_execution w' ?i = Some x'"
      "finished ?P E (map_of (map (\<lambda>s. (sd_id s, s)) ?steps)) (topological_sort ?steps) (view_of sm w')
        (outputs (ex_context x')) (ex_status x') (ex_error x') (execution_history ?i (w_events w'))"
      using res map_of_steps(1) [OF d] by (auto simp: walk_result_def)
    have "ex_base x' = ex_base x" using evolves_execution_found [OF ev5 v(4)] x'(1) by simp
    then have base: "ex_id x' = ?i" "ex_tenant_id x' = T" "ex_workflow_id x' = wf_id flow"
      "ex_trigger_data x' = trigger" "ex_replayed_from x' = replayed"
      using v(6) by (simp_all add: ex_base_def)
    have steps: "\<exists>j r. map_of sm (sd_id s) = Some j \<and> find_step w j = None \<and> find_step w' j = Some r \<and>
        se_tenant_id r = T \<and> se_execution_id r = ?i \<and> se_step_id r = sd_id s \<and>
        se_step_type r = step_type_value (sd_type s) \<and> se_max_attempts r = max_attempts_of s"
      if s: "s \<in> set ?steps" for s
    proof -
      from v(7) s obtain j q where j: "map_of sm (sd_id s) = Some j" "find_step w j = None"
        "find_step v j = Some q" "q = new_step j T ?i s (se_created_at q)" by blast
      then obtain r where "find_step w' j = Some r" "se_base r = se_base (new_step j T ?i s (se_created_at q))"
        using evolves_step_found [OF ev5 j(3)] by metis
      with j(1,2) show ?thesis by (auto simp: se_base_def new_step_def)
    qed
    have "run_result ?P E T flow trigger replayed ?steps w x' w'"
      unfolding run_result_def using new x' base steps by auto
    with that [of "Inr x'" w'] v(1) dag_run ev Inr x'(1) show ?thesis by (simp add: refreshed_def)
  qed
qed

end

context step_runner
begin

lemma start_evolves:
  assumes T: "T < 2 ^ 128" and fresh: "fresh_ids E w"
    and run: "start_execution_with E run flow trigger T replayed depth w = (r, w')"
  shows "evolves E T {} {} w w'"
proof -
  obtain p where p: "parse_workflow_definition E (raw_definition flow) = Some p" using parse_returns by blast
  show ?thesis
  proof (cases p)
    case (Inl e)
    with p run show ?thesis by (simp add: start_execution_with_def)
  next
    case (Inr parsed)
    with p have "parse_workflow_definition E (raw_definition flow) = Some (Inr parsed)" by simp
    from start_run [OF T fresh this, of trigger replayed depth] run show ?thesis by auto
  qed
qed

end

text \<open>Whatever a run wrote, also one that raised, its own execution is among it.\<close>

context step_runner
begin

lemma start_row:
  assumes T: "T < 2 ^ 128" and fresh: "fresh_ids E w"
    and run: "start_execution_with E run flow trigger T replayed depth w = (r, w')"
    and wrote: "w_executions w' \<noteq> w_executions w"
  shows "\<exists>y. find_execution w' (env_uuid E (w_ticks w)) = Some y \<and>
    ex_base y = (env_uuid E (w_ticks w), T, wf_id flow, trigger, replayed, w_txn_now w)"
proof -
  let ?i = "env_uuid E (w_ticks w)"
  obtain p where p: "parse_workflow_definition E (raw_definition flow) = Some p" using parse_returns by blast
  then obtain parsed where parsed: "parse_workflow_definition E (raw_definition flow) = Some (Inr parsed)"
    using run wrote by (cases p) (auto simp: start_execution_with_def)
  obtain sm v x where v: "\<forall>run. start_execution_with E run flow trigger T replayed depth w =
      (case execute_dag E run ?i (wfd_steps parsed) sm v of (Inl e, w') \<Rightarrow> (Inl e, w') | (Inr u, w') \<Rightarrow> refreshed ?i w')"
    "\<forall>P. walk_inv P E T depth ?i (map (\<lambda>s. (sd_id s, s)) (rev (wfd_steps parsed))) sm []
      (topological_sort (wfd_steps parsed)) [] v"
    "find_execution v ?i = Some x" "ex_base x = (?i, T, wf_id flow, trigger, replayed, w_txn_now w)"
    by (rule start_walk [OF fresh parsed, of trigger T replayed depth])
  obtain res u where dag_run: "execute_dag E run ?i (wfd_steps parsed) sm v = (res, u)"
    and res: "walk_result (produced E T depth run) E T ?i (map (\<lambda>s. (sd_id s, s)) (rev (wfd_steps parsed))) sm []
      (topological_sort (wfd_steps parsed)) v res u"
    using dag_loop_run [OF T spec [OF v(2)]] by (auto simp: execute_dag_def)
  then have "evolves E T {?i} (step_ids sm (topological_sort (wfd_steps parsed))) v u"
    by (simp add: walk_result_def)
  from evolves_execution_found [OF this v(3)] obtain y where y: "find_execution u ?i = Some y" "ex_base y = ex_base x"
    by blast
  have "w' = u"
    using run v(1) dag_run y(1) by (auto simp: refreshed_def split: sum.splits)
  with y v(4) show ?thesis by simp
qed

end

section \<open>The engine's runner\<close>

lemma sub_workflow_target_tenant:
  assumes "sub_workflow_target E config context = Inr (wid, t, d)" "tenant_input T context"
  shows "t = T"
  using assms by (auto simp: sub_workflow_target_def sum_bind_Inr_iff tenant_input_def
      split: option.splits if_splits)

lemma sub_workflow_evolves:
  assumes tenant: "tenant_input T context"
    and start: "\<And>flow trigger d r w'. start flow trigger T d w = (r, w') \<Longrightarrow> evolves E T {} {} w w'"
    and run: "sub_workflow_execute E start config context w = (r, w')"
  shows "evolves E T {} {} w w'"
proof (cases "sub_workflow_target E config context")
  case (Inl e)
  with run show ?thesis by (simp add: sub_workflow_execute_def andthen_def)
next
  case (Inr p)
  obtain wid t d where p: "p = (wid, t, d)" by (cases p)
  with Inr have t: "t = T" using sub_workflow_target_tenant [OF _ tenant] by simp
  show ?thesis
  proof (cases "find_workflow w wid")
    case None
    with run Inr p show ?thesis by (simp add: sub_workflow_execute_def andthen_def)
  next
    case (Some sub)
    show ?thesis
    proof (cases "wf_tenant_id sub = T \<and> wf_is_active sub")
      case False
      with run Inr p t Some show ?thesis
        by (auto simp: sub_workflow_execute_def andthen_def split: if_splits)
    next
      case True
      show ?thesis
      proof (cases "build_trigger_data E config context")
        case (Inl e)
        with run Inr p t Some True show ?thesis by (simp add: sub_workflow_execute_def andthen_def)
      next
        case trigger: (Inr trigger)
        obtain q v where q: "start sub trigger T (d + 1) w = (q, v)" by (cases "start sub trigger T (d + 1) w")
        with run Inr p t Some True trigger have "v = w'"
          by (cases q) (simp_all add: sub_workflow_execute_def andthen_def)
        with start [OF q] show ?thesis by simp
      qed
    qed
  qed
qed

lemma run_step_with_evolves:
  assumes "tenant_input T context"
    and "\<And>flow trigger d r w'. start flow trigger T d w = (r, w') \<Longrightarrow> evolves E T {} {} w w'"
    and run: "run_step_with E start s context w = (r, w')"
  shows "evolves E T {} {} w w'"
proof (cases "sd_type s")
  case HTTP
  with run have "http_execute E (sd_config s) context w = (r, w')" by (simp add: run_step_with_def)
  from http_execute_frame [OF this] show ?thesis by auto
next
  case SUB_WORKFLOW
  with run have "sub_workflow_execute E start (sd_config s) context w = (r, w')"
    by (simp add: run_step_with_def)
  from sub_workflow_evolves [OF assms(1) _ this] assms(2) show ?thesis by blast
qed (use run in \<open>simp_all add: run_step_with_def\<close>)

lemma run_step_contract: "step_runner E (run_step n E) T"
proof (induction n)
  case 0
  show ?case
  proof
    fix ctx s w r w'
    assume tenant: "tenant_input T ctx" and run: "run_step 0 E s ctx w = (r, w')"
    show "evolves E T {} {} w w'"
      by (rule run_step_with_evolves [OF tenant _ run [unfolded run_step_def]]) simp
  qed
next
  case (Suc n)
  show ?case
  proof
    fix ctx s w r w'
    assume T: "T < 2 ^ 128" and tenant: "tenant_input T ctx"
      and run: "run_step (Suc n) E s ctx w = (r, w')" and fresh: "fresh_ids E w"
    have "evolves E T {} {} w v" if "sub_start (Suc n) E flow trigger T d w = (q, v)" for flow trigger d q v
      using step_runner.start_evolves [OF Suc T fresh] that by (simp add: run_step_def)
    then show "evolves E T {} {} w w'"
      using run_step_with_evolves [OF tenant _ run [unfolded run_step_def]] by blast
  qed
qed

interpretation engine: step_runner E "run_step n E" T for n E T
  by (rule run_step_contract)

end
