(* ===== verification/Nesting.thy ===== *)
theory Nesting
  imports Runs
begin

text \<open>
  Sub-workflow nesting. The fuel of \<open>sub_start\<close> is never used up: at nesting depth \<open>D\<close> the
  engine needs \<open>max_sub_workflow_depth - D\<close> levels, and more fuel changes nothing
  (\<open>run_step_fuel\<close>). Where the ORM does not track changes inside a JSON column the metadata
  never reaches a step, and every sub-workflow step fails (\<open>sub_workflow_needs_tracking\<close>).
\<close>

section \<open>Runners that agree at one depth\<close>

definition agree :: "env \<Rightarrow> uuid \<Rightarrow> int \<Rightarrow> runner \<Rightarrow> runner \<Rightarrow> bool" where
  "agree E T D run run' \<longleftrightarrow> (\<forall>s c w. stored E T D c \<longrightarrow> fresh_ids E w \<longrightarrow>
    run s (step_input_of c s) w = run' s (step_input_of c s) w)"

lemma attempt_step_cong:
  assumes "agree E T D run run'" "find_execution w i = Some x" "stored E T D (ex_context x)" "fresh_ids E w"
  shows "attempt_step E run' i s j w = attempt_step E run i s j w"
  using assms by (simp add: attempt_step_def refreshed_def andthen_def agree_def)

context step_runner
begin

lemma retry_loop_cong:
  assumes ag: "agree E T D run run'" and T: "T < 2 ^ 128" and "fresh_ids E w"
    and "find_execution w i = Some x" and x: "stored E T D (ex_context x)"
    and "find_step w j = Some r" "se_status r = Pending \<or> se_status r = Failed"
  shows "retry_loop E run' i s j mx k m w = retry_loop E run i s j mx k m w"
  using assms(3,4,6,7)
proof (induction k arbitrary: m w r)
  case 0
  then show ?case by simp
next
  case (Suc k m w r)
  obtain r1 w1 where 1: "begin_attempt E j (m + 1) w = (Inr (), w1)" "find_step w1 j = Some r1"
    "se_status r1 = Running" "evolves E T {} {j} w w1"
    by (rule begin_attempt_run [OF Suc.prems(3,4)])
  have fresh1: "fresh_ids E w1" using evolves_fresh_ids [OF 1(4) Suc.prems(1)] .
  have x1: "find_execution w1 i = Some x" using evolves_execution [OF 1(4) Suc.prems(2)] by simp
  note same = attempt_step_cong [OF ag x1 x fresh1, of s j]
  have loop: "retry_loop E q i s j mx (Suc k) m w = on_error (attempt_step E q i s j) (\<lambda>exc.
      andthen (transition_step E j Failed (Some (exn_str exc))) (\<lambda>_.
      if mx \<le> m + 1 then andthen (log_event (StepRetriesExhausted i (sd_id s) (m + 1))) (\<lambda>_. ret False)
      else andthen (log_event (StepRetry i (sd_id s) (m + 1))) (\<lambda>_.
        retry_loop E q i s j mx k (m + 1)))) w1" for q
    unfolding retry_loop.simps Let_def by (rule andthen_Inr) (rule 1(1))
  show ?case
  proof (cases rule: attempt_step_run [OF T fresh1 x1 x 1(2,3), of s])
    case (1 out c r' w')
    then show ?thesis unfolding loop by (simp add: on_error_def same)
  next
    case (2 e v)
    obtain q u where 3: "transition_step E j Failed (Some (exn_str e)) v = (Inr q, u)"
      "find_step u j = Some q" "se_status q = Failed" "evolves E T {} {j} w1 u"
      by (rule failed_attempt_run [OF T fresh1 x1 x 1(2,3) 2(1)])
    let ?u = "u\<lparr>w_events := w_events u @ [StepRetry i (sd_id s) (m + 1)]\<rparr>"
    have ev: "evolves E T {} {j} w1 ?u" using 3(4) by (intro evolves_log) simp_all
    have "find_step ?u j = Some q" using 3(2) by simp
    then have "retry_loop E run' i s j mx k (m + 1) ?u = retry_loop E run i s j mx k (m + 1) ?u"
      using evolves_execution [OF ev x1] 3(3) Suc.IH [OF evolves_fresh_ids [OF ev fresh1]] by blast
    then show ?thesis unfolding loop using 2(1) 3(1) by (simp add: on_error_def same andthen_def monad_simps)
  qed
qed

lemma execute_step_cong:
  assumes "agree E T D run run'" "T < 2 ^ 128" "fresh_ids E w"
    and "find_execution w i = Some x" "stored E T D (ex_context x)"
    and "find_step w j = Some r" "se_status r = Pending"
  shows "execute_step_with_retry E run' i s j w = execute_step_with_retry E run i s j w"
  using retry_loop_cong [OF assms(1-6) disjI1 [OF assms(7)]] assms(6)
  by (simp add: execute_step_with_retry_def)

lemma dag_loop_cong:
  assumes ag: "agree E T D run run'" and T: "T < 2 ^ 128"
    and "walk_inv (produced E T D run) E T D i defs sm done todo skipped w"
    and "\<And>x. find_execution w i = Some x \<Longrightarrow> stored E T D (ex_context x)"
  shows "dag_loop E run' i defs sm todo skipped w = dag_loop E run i defs sm todo skipped w"
  using assms(3,4)
proof (induction todo arbitrary: "done" skipped w)
  case Nil
  then show ?case by simp
next
  case (Cons s todo)
  note inv = Cons.prems(1)
  obtain d j r where row: "map_of defs s = Some d" "sd_id d = s" "map_of sm s = Some j" "find_step w j = Some r"
    "se_status r = Pending" "1 \<le> se_max_attempts r" by (rule walk_row [OF inv])
  have fresh: "fresh_ids E w" using inv by (simp add: walk_inv_def)
  obtain x where x: "find_execution w i = Some x" "stored E T D (ex_context x)"
    by (rule walk_execution [OF inv])
  note st = Cons.prems(2) [OF x(1)]
  show ?case
  proof (cases "s \<in> set skipped")
    case True
    obtain r' v where v: "transition_step E j Skipped None w = (Inr r', v)" "evolves E T {} {j} w v"
      "walk_inv (produced E T D run) E T D i defs sm (done @ [s]) todo skipped v" by (rule walk_skip [OF inv True row(3)])
    have "find_execution v i = Some x" using evolves_execution [OF v(2) x(1)] by simp
    then have "dag_loop E run' i defs sm todo skipped v = dag_loop E run i defs sm todo skipped v"
      using st by (intro Cons.IH [OF v(3)]) simp
    then show ?thesis using True row(1,3) v(1) by (simp add: andthen_def)
  next
    case False
    obtain b a v where v: "execute_step_with_retry E run i d j w = (Inr b, v)" "1 \<le> a"
      "int a \<le> se_max_attempts r" "step_outcome (produced E T D run d) E T i s j 0 w b a v"
      using execute_step_run [OF T fresh x row(4-6), of d] row(2) by metis
    have v': "execute_step_with_retry E run' i d j w = (Inr b, v)"
      using execute_step_cong [OF ag T fresh x(1) st row(4,5)] v(1) by simp
    have stv: "stored E T D (ex_context y)" if "find_execution v i = Some y" for y
      using v(4) x(1) that stored_after [OF st] by (fastforce simp: step_outcome_def)
    have step: "dag_loop E run' i defs sm todo skipped' v = dag_loop E run i defs sm todo skipped' v"
      if "b" "set skipped' = set skipped \<union> skipped_by E (map_of defs) (view_of sm v) s" for skipped'
      using walk_success [OF inv False row(3,1) v(2) _ _ that(2)] v(3,4) that(1) row(4)
      by (intro Cons.IH stv) auto
    show ?thesis
    proof (cases "b \<and> sd_type d = CONDITION")
      case True
      have skips: "skipped_by E (map_of defs) (view_of sm v) s =
          (case resolve_condition_branches E d (Option.bind (find_step v j) se_output_data) of
             Inr bs \<Rightarrow> set bs | Inl e \<Rightarrow> {})"
        using v(4) True row(1,3) by (auto simp: skipped_by_def view_of_def step_outcome_def)
      show ?thesis
        using False row(1,3) v(1) v' True step skips
        by (cases "resolve_condition_branches E d (Option.bind (find_step v j) se_output_data)")
          (simp_all add: andthen_def)
    next
      case no: False
      have "skipped_by E (map_of defs) (view_of sm v) s = {}" if b
        using no that row(1) by (auto simp: skipped_by_def split: option.split)
      then show ?thesis using False row(1,3) v(1) v' no step [of skipped]
        by (cases b) (simp_all add: andthen_def)
    qed
  qed
qed

lemma start_cong:
  assumes ag: "agree E T D run run'" and T: "T < 2 ^ 128" and fresh: "fresh_ids E w"
  shows "start_execution_with E run' flow trigger T replayed D w =
    start_execution_with E run flow trigger T replayed D w"
proof -
  obtain p where p: "parse_workflow_definition E (raw_definition flow) = Some p" using parse_returns by blast
  show ?thesis
  proof (cases p)
    case (Inl e)
    with p show ?thesis by (simp add: start_execution_with_def)
  next
    case (Inr parsed)
    let ?i = "env_uuid E (w_ticks w)" let ?steps = "wfd_steps parsed"
    let ?defs = "map (\<lambda>s. (sd_id s, s)) (rev ?steps)"
    from p Inr have parsed: "parse_workflow_definition E (raw_definition flow) = Some (Inr parsed)" by simp
    obtain sm v x where v: "\<forall>run. start_execution_with E run flow trigger T replayed D w =
        (case execute_dag E run ?i ?steps sm v of (Inl e, w') \<Rightarrow> (Inl e, w') | (Inr u, w') \<Rightarrow> refreshed ?i w')"
      "\<forall>P. walk_inv P E T D ?i ?defs sm [] (topological_sort ?steps) [] v"
      "find_execution v ?i = Some x" "stored E T D (ex_context x)"
      by (rule start_walk [OF fresh parsed, where T = T and depth = D and trigger = trigger and replayed = replayed])
    have "execute_dag E run' ?i ?steps sm v = execute_dag E run ?i ?steps sm v"
      unfolding execute_dag_def using v(2-4) by (intro dag_loop_cong [OF ag T]) auto
    then show ?thesis using v(1) by simp
  qed
qed

end

section \<open>Enough fuel\<close>

lemma input_metadata:
  assumes "stored E T D c"
  shows "map_of (step_input_of c s) ''_depth'' = Some (JInt (if env_tracks_mutation E then D else 0))"
    "map_of (step_input_of c s) ''_tenant_id'' =
      Some (JStr (if env_tracks_mutation E then uuid_str T else ''''))"
  using assms by (auto simp: stored_def step_input_of_def get_step_input_def dict_get_def)

lemma uuid_parse_empty: "\<exists>e. uuid_parse '''' = Inl e"
  by (simp add: uuid_parse_def Let_def strip_braces_def)

lemma target_stored:
  assumes "stored E T D c" "T < 2 ^ 128"
    and "sub_workflow_target E config (step_input_of c s) = Inr (wid, t, d)"
  shows "env_tracks_mutation E" "t = T" "d = D" "D < max_sub_workflow_depth (env_settings E)"
  using assms(3) input_metadata [OF assms(1), of s] uuid_parse_empty uuid_parse_str [OF assms(2)]
  by (auto simp: sub_workflow_target_def dict_get_def sum_bind_Inr_iff split: option.splits if_splits)

lemma sub_workflow_cong:
  assumes "stored E T D c" "T < 2 ^ 128"
    and "\<And>flow trigger. D < max_sub_workflow_depth (env_settings E) \<Longrightarrow>
      start flow trigger T (D + 1) w = start' flow trigger T (D + 1) w"
  shows "sub_workflow_execute E start config (step_input_of c s) w =
    sub_workflow_execute E start' config (step_input_of c s) w"
proof (cases "sub_workflow_target E config (step_input_of c s)")
  case (Inl e)
  then show ?thesis by (simp add: sub_workflow_execute_def andthen_def)
next
  case (Inr p)
  obtain wid t d where p: "p = (wid, t, d)" by (cases p)
  note * = target_stored [OF assms(1,2) Inr [unfolded p]]
  show ?thesis
    using Inr p *(2,3) assms(3) [OF *(4)]
    by (simp add: sub_workflow_execute_def andthen_def split: option.split sum.split)
qed

lemma run_step_with_cong:
  assumes "stored E T D c" "T < 2 ^ 128"
    and "\<And>flow trigger. D < max_sub_workflow_depth (env_settings E) \<Longrightarrow>
      start flow trigger T (D + 1) w = start' flow trigger T (D + 1) w"
  shows "run_step_with E start s (step_input_of c s) w = run_step_with E start' s (step_input_of c s) w"
proof (cases "sd_type s")
  case SUB_WORKFLOW
  have "sub_workflow_execute E start (sd_config s) (step_input_of c s) w =
      sub_workflow_execute E start' (sd_config s) (step_input_of c s) w"
    by (rule sub_workflow_cong [OF assms(1,2)]) (rule assms(3))
  with SUB_WORKFLOW show ?thesis by (simp add: run_step_with_def)
qed (simp_all add: run_step_with_def)

lemma run_step_fuel:
  assumes "T < 2 ^ 128"
  shows "nat (max_sub_workflow_depth (env_settings E) - D) \<le> n \<Longrightarrow> n \<le> m \<Longrightarrow>
    agree E T D (run_step n E) (run_step m E)"
proof (induction n arbitrary: D m)
  case 0
  show ?case
    unfolding agree_def run_step_def
    by (intro allI impI run_step_with_cong [OF _ assms]) (use 0 in auto)
next
  case (Suc n)
  from Suc.prems obtain k where m: "m = Suc k" "n \<le> k" by (cases m) auto
  show ?case
    unfolding agree_def
  proof (intro allI impI)
    fix s c w assume c: "stored E T D c" and fresh: "fresh_ids E w"
    show "run_step (Suc n) E s (step_input_of c s) w = run_step m E s (step_input_of c s) w"
      unfolding run_step_def m
    proof (rule run_step_with_cong [OF c assms])
      fix flow trigger assume "D < max_sub_workflow_depth (env_settings E)"
      with Suc.prems have "agree E T (D + 1) (run_step n E) (run_step k E)"
        by (intro Suc.IH m) linarith
      from engine.start_cong [OF this assms fresh]
      show "sub_start (Suc n) E flow trigger T (D + 1) w = sub_start (Suc k) E flow trigger T (D + 1) w"
        by (simp add: run_step_def)
    qed
  qed
qed

text \<open>Any amount of fuel from the bound on gives the run \<open>start_execution\<close> makes.\<close>

lemma start_execution_fuel:
  assumes "T < 2 ^ 128" "fresh_ids E w" "0 \<le> D"
    and "nat (max_sub_workflow_depth (env_settings E)) \<le> n"
  shows "start_execution_with E (run_step n E) flow trigger T replayed D w =
    start_execution E flow trigger T replayed D w"
  unfolding start_execution_def using assms(3,4)
  by (intro engine.start_cong [OF run_step_fuel [OF assms(1)] assms(1,2)]) simp_all

section \<open>Without tracking\<close>

lemma sub_workflow_needs_tracking:
  assumes "\<not> env_tracks_mutation E" "stored E T D c" "sd_type s = SUB_WORKFLOW" "T < 2 ^ 128"
  shows "\<exists>e. run_step n E s (step_input_of c s) w = (Inl e, w)"
proof (cases "sub_workflow_target E (sd_config s) (step_input_of c s)")
  case (Inl e)
  then show ?thesis
    using assms(3) by (simp add: run_step_def run_step_with_def sub_workflow_execute_def andthen_def)
next
  case (Inr p)
  obtain wid t d where "p = (wid, t, d)" by (cases p)
  with target_stored(1) [OF assms(2,4)] Inr assms(1) show ?thesis by blast
qed

section \<open>The run of the engine\<close>

definition engine_runner :: "env \<Rightarrow> runner" where
  "engine_runner E = run_step (nat (max_sub_workflow_depth (env_settings E))) E"

lemma start_execution_run:
  assumes "T < 2 ^ 128" "fresh_ids E w"
    and "parse_workflow_definition E (raw_definition flow) = Some (Inr parsed)"
  obtains res w' where "start_execution E flow trigger T replayed D w = (res, w')" "evolves E T {} {} w w'"
    "case res of
       Inl e \<Rightarrow> branch_failure E (map_of (map (\<lambda>s. (sd_id s, s)) (wfd_steps parsed)))
         (topological_sort (wfd_steps parsed)) e
     | Inr x \<Rightarrow> run_result (produced E T D (engine_runner E)) E T flow trigger replayed (wfd_steps parsed) w x w'"
  using engine.start_run [OF assms, of _ trigger replayed D] unfolding start_execution_def engine_runner_def
  by blast

lemma start_execution_evolves:
  assumes "T < 2 ^ 128" "fresh_ids E w" "start_execution E flow trigger T replayed D w = (r, w')"
  shows "evolves E T {} {} w w'"
  using engine.start_evolves [OF assms(1,2)] assms(3) by (simp add: start_execution_def)

lemma start_execution_row:
  assumes "T < 2 ^ 128" "fresh_ids E w" "start_execution E flow trigger T replayed D w = (r, w')"
    and "w_executions w' \<noteq> w_executions w"
  shows "\<exists>y. find_execution w' (env_uuid E (w_ticks w)) = Some y \<and>
    ex_base y = (env_uuid E (w_ticks w), T, wf_id flow, trigger, replayed, w_txn_now w)"
  using engine.start_row [OF assms(1,2) _ assms(4)] assms(3) by (simp add: start_execution_def)

lemma start_execution_parsed:
  assumes "T < 2 ^ 128" "fresh_ids E w" "start_execution E flow trigger T replayed D w = (Inr x, w')"
  obtains parsed where "parse_workflow_definition E (raw_definition flow) = Some (Inr parsed)"
    "run_result (produced E T D (engine_runner E)) E T flow trigger replayed (wfd_steps parsed) w x w'"
proof -
  obtain p where p: "parse_workflow_definition E (raw_definition flow) = Some p" using parse_returns by blast
  show ?thesis
  proof (cases p)
    case (Inl e)
    with p assms(3) show ?thesis by (simp add: start_execution_def start_execution_with_def)
  next
    case (Inr parsed)
    with p have parsed: "parse_workflow_definition E (raw_definition flow) = Some (Inr parsed)" by simp
    from start_execution_run [OF assms(1,2) this, of trigger replayed D] assms(3)
    show ?thesis using that [OF parsed] by auto
  qed
qed

text \<open>A branch of a condition step is a list of scalars, as the executor documents it.\<close>

definition branches_ok :: "step_definition \<Rightarrow> bool" where
  "branches_ok s \<longleftrightarrow>
    (\<exists>ts. branch_set (dict_get (sd_config s) ''true_branch'' (JList [])) = Inr ts) \<and>
    (\<exists>fs. branch_set (dict_get (sd_config s) ''false_branch'' (JList [])) = Inr fs)"

lemma branches_ok_no_failure:
  assumes "distinct (map sd_id steps)" "\<forall>s\<in>set steps. sd_type s = CONDITION \<longrightarrow> branches_ok s"
  shows "\<not> branch_failure E (map_of (map (\<lambda>s. (sd_id s, s)) steps)) N e"
proof
  assume "branch_failure E (map_of (map (\<lambda>s. (sd_id s, s)) steps)) N e"
  then obtain i d out where d: "map_of (map (\<lambda>s. (sd_id s, s)) steps) i = Some d" "sd_type d = CONDITION"
    "resolve_condition_branches E d out = Inl e" by (auto simp: branch_failure_def)
  from map_of_SomeD [OF d(1)] have "d \<in> set steps" by auto
  with assms(2) d(2) have "branches_ok d" by blast
  with d(3) show False by (auto simp: resolve_condition_branches_def branches_ok_def Let_def split: if_splits)
qed

end
