(* ===== verification/Pagination.thy ===== *)
theory Pagination
  imports Prelude "HOL-Library.Product_Lexorder"
begin

text \<open>
  Cursor pagination, as \<open>list_executions\<close> and \<open>list_workflows\<close> do it: the rows in the order
  of (\<open>created_at\<close>, \<open>id\<close>), those after the cursor, \<open>limit + 1\<close> of them; the last row shown
  becomes the next cursor when there was one more. The locale \<open>keyed_rows\<close> states what the
  order needs (a key that no two rows share); from it follows that a client who follows the
  cursors sees every row once, in order (\<open>crawl_all\<close>).
\<close>

type_synonym cursor = "int \<times> nat"

definition after_cursor :: "('r \<Rightarrow> int) \<Rightarrow> ('r \<Rightarrow> nat) \<Rightarrow> cursor option \<Rightarrow> 'r \<Rightarrow> bool" where
  "after_cursor created_at row_id cursor r =
    (case cursor of
       None \<Rightarrow> True
     | Some (cursor_created_at, cursor_id) \<Rightarrow>
         cursor_created_at \<le> created_at r \<and>
         \<not> (created_at r = cursor_created_at \<and> row_id r \<le> cursor_id))"

definition page_of :: "('r \<Rightarrow> int) \<Rightarrow> ('r \<Rightarrow> nat) \<Rightarrow> nat \<Rightarrow> cursor option \<Rightarrow> 'r list \<Rightarrow> 'r list \<times> cursor option" where
  "page_of created_at row_id limit cursor matching =
    (let stmt = sort_key (\<lambda>r. (created_at r, row_id r)) matching;
         rows = take (limit + 1) (filter (after_cursor created_at row_id cursor) stmt);
         has_more = limit < length rows;
         shown = take limit rows
     in (shown, if has_more \<and> shown \<noteq> []
                then Some (created_at (last shown), row_id (last shown)) else None))"

text \<open>A client that follows the cursors for at most \<open>n\<close> pages.\<close>

primrec crawl :: "(cursor option \<Rightarrow> 'r list \<times> cursor option) \<Rightarrow> nat \<Rightarrow> cursor option \<Rightarrow> 'r list" where
  "crawl fetch 0 c = []"
| "crawl fetch (Suc n) c =
    fst (fetch c) @ (case snd (fetch c) of None \<Rightarrow> [] | Some c' \<Rightarrow> crawl fetch n (Some c'))"

lemma after_cursor_less:
  "after_cursor f g (Some c) r \<longleftrightarrow> c < (f r, g r)"
  by (cases c) (auto simp: after_cursor_def less_prod_def')

lemma filter_sorted_suffix:
  assumes "sorted_wrt (<) (map k xs)" "ys \<noteq> []" "xs = ys @ zs"
  shows "filter (\<lambda>r. k (last ys) < (k r :: 'k :: linorder)) xs = zs"
proof -
  have sorted: "sorted_wrt (<) (map k ys @ map k zs)" using assms(1,3) by simp
  then have "\<not> k (last ys) < k y" if "y \<in> set ys" for y
  proof -
    from assms(2) obtain us where ys: "ys = us @ [last ys]" by (metis append_butlast_last_id)
    with that have "y \<in> set us \<or> y = last ys" by (metis Un_iff empty_iff empty_set insert_iff list.simps(15) set_append)
    moreover have "sorted_wrt (<) (map k us @ [k (last ys)])"
      using sorted ys by (metis list.simps(8,9) map_append sorted_wrt_append)
    ultimately show ?thesis by (auto simp: sorted_wrt_append)
  qed
  moreover have "k (last ys) < k z" if "z \<in> set zs" for z
    using sorted that assms(2) by (auto simp: sorted_wrt_append)
  ultimately show ?thesis by (simp add: assms(3) filter_empty_conv)
qed

locale keyed_rows =
  fixes created_at :: "'r \<Rightarrow> int" and row_id :: "'r \<Rightarrow> nat"
    and rows :: "'s \<Rightarrow> 'r list" and keyed :: "'s \<Rightarrow> bool"
  assumes ids_distinct: "keyed s \<Longrightarrow> distinct (map row_id (rows s))"
begin

definition key :: "'r \<Rightarrow> int \<times> nat" where
  "key r = (created_at r, row_id r)"

definition ordered_rows :: "'s \<Rightarrow> 'r list" where
  "ordered_rows s = sort_key key (rows s)"

lemma ordered_strict: "keyed s \<Longrightarrow> sorted_wrt (<) (map key (ordered_rows s))"
proof -
  assume "keyed s"
  then have "distinct (map key (rows s))"
    using ids_distinct by (auto simp: distinct_map inj_on_def key_def)
  then have "distinct (map key (ordered_rows s))"
    by (simp add: ordered_rows_def distinct_map)
  then show ?thesis by (simp add: strict_sorted_iff ordered_rows_def)
qed

lemma set_ordered: "set (ordered_rows s) = set (rows s)"
  by (simp add: ordered_rows_def)

lemma page_rest:
  assumes "keyed s" "ordered_rows s = shown_before @ rest"
    and "c = (if shown_before = [] then None else Some (key (last shown_before)))"
  shows "page_of created_at row_id limit c (rows s) =
    (take limit rest, if limit < length rest \<and> 0 < limit then Some (key (last (take limit rest))) else None)"
proof -
  have "filter (after_cursor created_at row_id c) (ordered_rows s) = rest"
  proof (cases "shown_before = []")
    case True
    then show ?thesis using assms by (simp add: after_cursor_def)
  next
    case False
    then have "after_cursor created_at row_id c = (\<lambda>r. key (last shown_before) < key r)"
      using assms(3) by (simp add: fun_eq_iff after_cursor_less key_def)
    with filter_sorted_suffix [OF ordered_strict [OF assms(1)] False assms(2)] show ?thesis by simp
  qed
  moreover have "key = (\<lambda>r. (created_at r, row_id r))" by (simp add: fun_eq_iff key_def)
  ultimately have "filter (after_cursor created_at row_id c) (sort_key (\<lambda>r. (created_at r, row_id r)) (rows s)) = rest"
    by (simp add: ordered_rows_def)
  then show ?thesis by (auto simp: page_of_def Let_def key_def min_def)
qed

lemma crawl_rest:
  assumes "0 < limit" "keyed s"
  shows "ordered_rows s = shown_before @ rest \<Longrightarrow>
    c = (if shown_before = [] then None else Some (key (last shown_before))) \<Longrightarrow> length rest \<le> n \<Longrightarrow>
    crawl (\<lambda>c. page_of created_at row_id limit c (rows s)) (Suc n) c = rest"
proof (induction n arbitrary: shown_before rest c)
  case 0
  then show ?case using page_rest [OF assms(2) 0(1,2), of limit] by simp
next
  case (Suc n)
  note page = page_rest [OF assms(2) Suc.prems(1,2), of limit]
  show ?case
  proof (cases "limit < length rest")
    case True
    let ?b = "shown_before @ take limit rest"
    have "crawl (\<lambda>c. page_of created_at row_id limit c (rows s)) (Suc n) (Some (key (last (take limit rest)))) =
        drop limit rest"
      using Suc.prems(1,3) True assms by (intro Suc.IH [of ?b]) (auto simp: last_append)
    then show ?thesis using page True assms by simp
  next
    case False
    then show ?thesis using page by simp
  qed
qed

theorem crawl_all:
  "keyed s \<Longrightarrow> 0 < limit \<Longrightarrow> length (rows s) \<le> n \<Longrightarrow>
    crawl (\<lambda>c. page_of created_at row_id limit c (rows s)) (Suc n) None = ordered_rows s"
  by (rule crawl_rest [of limit s "[]"]) (simp_all add: ordered_rows_def)

end

end
