(* ===== verification/ExecutionApi.thy ===== *)
theory ExecutionApi
  imports Nesting Pagination
begin

text \<open>
  The operations on executions behind the HTTP API (\<open>src/api/executions.py\<close>,
  \<open>src/api/execution_models.py\<close>, \<open>src/triggers/manual.py\<close>, \<open>src/replay/service.py\<close>): trigger,
  list, read, cancel, replay, logs. Each runs in one database session; \<open>tenant_id\<close> is the
  tenant the authentication put into the request. The query parameters arrive decoded: a
  cursor as its pair of time and identifier.
\<close>

section \<open>Sessions\<close>

text \<open>
  One \<open>async with async_session_factory()\<close> block that commits at its end: an exception
  leaves the block before the commit and the database rolls back; the clock and the log
  lines already written stay. \<open>now()\<close> is the time at which the transaction started.
\<close>

definition in_session :: "env \<Rightarrow> (world, 'a) proc \<Rightarrow> (world, 'a) proc" where
  "in_session E m w =
    (case m (w\<lparr>w_txn_now := env_now E (w_ticks w), w_ticks := Suc (w_ticks w)\<rparr>) of
       (Inr x, w') \<Rightarrow> (Inr x, w')
     | (Inl e, w') \<Rightarrow> (Inl e, w\<lparr>w_ticks := w_ticks w', w_events := w_events w'\<rparr>))"

section \<open>Responses\<close>

record execution_response =
  er_id :: uuid
  er_workflow_id :: uuid
  er_status :: status
  er_trigger_data :: dict
  er_error :: "string option"
  er_started_at :: "time option"
  er_completed_at :: "time option"
  er_duration_ms :: "int option"
  er_created_at :: time

definition execution_to_response :: "execution \<Rightarrow> execution_response" where
  "execution_to_response ex = \<lparr>er_id = ex_id ex, er_workflow_id = ex_workflow_id ex,
     er_status = ex_status ex, er_trigger_data = ex_trigger_data ex, er_error = ex_error ex,
     er_started_at = ex_started_at ex, er_completed_at = ex_completed_at ex,
     er_duration_ms = ex_duration_ms ex, er_created_at = ex_created_at ex\<rparr>"

record step_execution_response =
  sr_id :: uuid
  sr_step_id :: string
  sr_step_type :: string
  sr_status :: status
  sr_input_data :: dict
  sr_output_data :: "dict option"
  sr_error :: "string option"
  sr_attempt :: int
  sr_max_attempts :: int
  sr_started_at :: "time option"
  sr_completed_at :: "time option"
  sr_duration_ms :: "int option"
  sr_created_at :: time

definition step_execution_to_response :: "step_execution \<Rightarrow> step_execution_response" where
  "step_execution_to_response se = \<lparr>sr_id = se_id se, sr_step_id = se_step_id se,
     sr_step_type = se_step_type se, sr_status = se_status se, sr_input_data = se_input_data se,
     sr_output_data = se_output_data se, sr_error = se_error se, sr_attempt = se_attempt se,
     sr_max_attempts = se_max_attempts se, sr_started_at = se_started_at se,
     sr_completed_at = se_completed_at se, sr_duration_ms = se_duration_ms se,
     sr_created_at = se_created_at se\<rparr>"

record execution_log_response =
  lr_id :: uuid
  lr_step_id :: "string option"
  lr_level :: string
  lr_message :: string
  lr_data :: dict
  lr_created_at :: time

definition execution_log_to_response :: "execution_log \<Rightarrow> execution_log_response" where
  "execution_log_to_response entry = \<lparr>lr_id = lg_id entry, lr_step_id = lg_step_id entry,
     lr_level = lg_level entry, lr_message = lg_message entry, lr_data = lg_data entry,
     lr_created_at = lg_created_at entry\<rparr>"

section \<open>Triggering by hand\<close>

definition get_tenant_workflow :: "uuid \<Rightarrow> uuid \<Rightarrow> (world, workflow) proc" where
  "get_tenant_workflow workflow_id tenant_id w =
    (case find_workflow w workflow_id of
       None \<Rightarrow> raise (not_found ''Workflow'') w
     | Some workflow \<Rightarrow>
         if wf_tenant_id workflow = tenant_id then ret workflow w
         else raise (not_found ''Workflow'') w)"

definition validate_workflow_active :: "workflow \<Rightarrow> exn + unit" where
  "validate_workflow_active workflow =
    (if \<not> wf_is_active workflow
     then Inl (app_error ''WORKFLOW_INACTIVE'' ''Workflow is not active.'' []) else Inr ())"

definition manual_execute :: "env \<Rightarrow> uuid \<Rightarrow> uuid \<Rightarrow> dict \<Rightarrow> (world, uuid) proc" where
  "manual_execute E tenant_id workflow_id body =
    in_session E (
      andthen (get_tenant_workflow workflow_id tenant_id) (\<lambda>workflow.
      andthen (lift_result (validate_workflow_active workflow)) (\<lambda>_.
      andthen (start_execution E workflow [(''source'', JStr ''manual''), (''data'', JObj body)] tenant_id None 0)
        (\<lambda>execution. ret (ex_id execution)))))"

section \<open>Reading\<close>

record execution_filter =
  ef_status :: "status option"
  ef_workflow_id :: "uuid option"
  ef_created_after :: "time option"
  ef_created_before :: "time option"

definition matching_executions :: "uuid \<Rightarrow> execution_filter \<Rightarrow> world \<Rightarrow> execution list" where
  "matching_executions tenant_id f w =
    filter (\<lambda>x. ex_tenant_id x = tenant_id \<and>
      (case ef_status f of None \<Rightarrow> True | Some s \<Rightarrow> ex_status x = s) \<and>
      (case ef_workflow_id f of None \<Rightarrow> True | Some i \<Rightarrow> ex_workflow_id x = i) \<and>
      (case ef_created_after f of None \<Rightarrow> True | Some t \<Rightarrow> t \<le> ex_created_at x) \<and>
      (case ef_created_before f of None \<Rightarrow> True | Some t \<Rightarrow> ex_created_at x \<le> t)) (w_executions w)"

definition list_executions :: "uuid \<Rightarrow> execution_filter \<Rightarrow> nat \<Rightarrow> cursor option \<Rightarrow> world \<Rightarrow>
    execution_response list \<times> cursor option" where
  "list_executions tenant_id f limit cursor w =
    (case page_of ex_created_at ex_id limit cursor (matching_executions tenant_id f w) of
       (executions, next_cursor) \<Rightarrow> (map execution_to_response executions, next_cursor))"

definition get_tenant_execution :: "uuid \<Rightarrow> uuid \<Rightarrow> (world, execution) proc" where
  "get_tenant_execution tenant_id execution_id w =
    (case find_execution w execution_id of
       None \<Rightarrow> raise (not_found ''Execution'') w
     | Some execution \<Rightarrow>
         if ex_tenant_id execution = tenant_id then ret execution w
         else raise (not_found ''Execution'') w)"

definition step_executions :: "world \<Rightarrow> uuid \<Rightarrow> step_execution list" where
  "step_executions w execution_id = filter (\<lambda>s. se_execution_id s = execution_id) (w_steps w)"

definition get_execution :: "uuid \<Rightarrow> uuid \<Rightarrow>
    (world, execution_response \<times> step_execution_response list) proc" where
  "get_execution tenant_id execution_id =
    andthen (get_tenant_execution tenant_id execution_id) (\<lambda>execution w.
      ret (execution_to_response execution,
           map step_execution_to_response (step_executions w (ex_id execution))) w)"

definition get_execution_logs :: "uuid \<Rightarrow> uuid \<Rightarrow> string option \<Rightarrow> (world, execution_log_response list) proc" where
  "get_execution_logs tenant_id execution_id step_id =
    andthen (get_tenant_execution tenant_id execution_id) (\<lambda>execution w.
      ret (map execution_log_to_response (sort_key lg_created_at
        (filter (\<lambda>l. lg_execution_id l = execution_id \<and> lg_tenant_id l = tenant_id \<and>
          (case step_id of None \<Rightarrow> True | Some s \<Rightarrow> lg_step_id l = Some s)) (w_logs w)))) w)"

section \<open>Cancelling\<close>

fun skip_steps :: "env \<Rightarrow> step_execution list \<Rightarrow> (world, unit) proc" where
  "skip_steps E [] = ret ()"
| "skip_steps E (s # ss) =
    (if se_status s \<in> {Pending, Queued, Running}
     then andthen (transition_step E (se_id s) Skipped None) (\<lambda>_. skip_steps E ss)
     else skip_steps E ss)"

definition cancel_execution :: "env \<Rightarrow> uuid \<Rightarrow> uuid \<Rightarrow> (world, bool) proc" where
  "cancel_execution E tenant_id execution_id =
    in_session E (
      andthen (get_tenant_execution tenant_id execution_id) (\<lambda>execution w.
        let steps = step_executions w (ex_id execution)
        in andthen (transition_execution E (ex_id execution) Cancelled) (\<lambda>_.
           andthen (skip_steps E steps) (\<lambda>_. ret True)) w))"

section \<open>Replaying\<close>

definition merge_override :: "dict \<Rightarrow> dict \<Rightarrow> exn + dict" where
  "merge_override trigger_data override_data =
    (if override_data = [] then Inr trigger_data
     else sum_bind (py_dict (dict_get trigger_data ''data'' (JObj []))) (\<lambda>data_section.
       Inr (dict_set ''data'' (JObj (dict_update data_section override_data)) trigger_data)))"

definition replay_execution :: "env \<Rightarrow> uuid \<Rightarrow> uuid \<Rightarrow> dict \<Rightarrow> (world, execution) proc" where
  "replay_execution E execution_id tenant_id override_data =
    andthen (get_tenant_execution tenant_id execution_id) (\<lambda>original.
    andthen (get_tenant_workflow (ex_workflow_id original) tenant_id) (\<lambda>workflow.
    andthen (lift_result (validate_workflow_active workflow)) (\<lambda>_.
    andthen (lift_result (merge_override (ex_trigger_data original) override_data)) (\<lambda>trigger_data.
    start_execution E workflow trigger_data tenant_id (Some execution_id) 0))))"

definition replay_execution_endpoint :: "env \<Rightarrow> uuid \<Rightarrow> uuid \<Rightarrow> dict \<Rightarrow> (world, uuid) proc" where
  "replay_execution_endpoint E tenant_id execution_id override_data =
    (if \<not> webhook_replay_enabled (env_settings E)
     then raise (AppError ''REPLAY_DISABLED'' ''Execution replay is disabled.'' 403 [])
     else in_session E (
       andthen (replay_execution E execution_id tenant_id override_data) (\<lambda>new_execution.
       ret (ex_id new_execution))))"

section \<open>Sessions and lookups\<close>

text \<open>The tables of a world, without the clock and the log lines.\<close>

definition same_rows :: "world \<Rightarrow> world \<Rightarrow> bool" where
  "same_rows w w' \<longleftrightarrow> w_tenants w' = w_tenants w \<and> w_workflows w' = w_workflows w \<and>
    w_executions w' = w_executions w \<and> w_steps w' = w_steps w \<and> w_logs w' = w_logs w \<and>
    w_deliveries w' = w_deliveries w"

lemma in_session_error: "in_session E m w = (Inl e, w') \<Longrightarrow> same_rows w w'"
  by (auto simp: in_session_def same_rows_def split: prod.splits sum.splits)

definition opened :: "env \<Rightarrow> world \<Rightarrow> world" where
  "opened E w = w\<lparr>w_txn_now := env_now E (w_ticks w), w_ticks := Suc (w_ticks w)\<rparr>"

lemma opened_simps [simp]:
  "find_execution (opened E w) i = find_execution w i" "find_step (opened E w) i = find_step w i"
  "find_workflow (opened E w) i = find_workflow w i" "w_events (opened E w) = w_events w"
  "w_steps (opened E w) = w_steps w" "w_executions (opened E w) = w_executions w"
  "w_workflows (opened E w) = w_workflows w" "w_tenants (opened E w) = w_tenants w"
  "w_logs (opened E w) = w_logs w" "w_deliveries (opened E w) = w_deliveries w"
  by (simp_all add: opened_def find_execution_def find_step_def find_workflow_def)

lemma opened_fresh: "fresh_ids E w \<Longrightarrow> fresh_ids E (opened E w)"
  by (simp add: fresh_ids_def opened_def find_execution_def find_step_def)

lemma in_session_Inr: "in_session E m w = (Inr x, w') \<longleftrightarrow> m (opened E w) = (Inr x, w')"
  by (auto simp: in_session_def opened_def split: prod.split sum.split)

lemma in_session_Inl:
  "in_session E m w = (Inl e, w') \<longleftrightarrow>
    (\<exists>v. m (opened E w) = (Inl e, v) \<and> w' = w\<lparr>w_ticks := w_ticks v, w_events := w_events v\<rparr>)"
  by (auto simp: in_session_def opened_def split: prod.split sum.split)

lemma get_tenant_workflow_Inr:
  "get_tenant_workflow i t w = (Inr flow, w') \<longleftrightarrow>
    w' = w \<and> find_workflow w i = Some flow \<and> wf_tenant_id flow = t"
  by (auto simp: get_tenant_workflow_def split: option.splits if_splits)

lemma get_tenant_execution_Inr:
  "get_tenant_execution t i w = (Inr x, w') \<longleftrightarrow> w' = w \<and> find_execution w i = Some x \<and> ex_tenant_id x = t"
  by (auto simp: get_tenant_execution_def split: option.splits if_splits)

lemma validate_workflow_active_Inr: "validate_workflow_active flow = Inr () \<longleftrightarrow> wf_is_active flow"
  by (simp add: validate_workflow_active_def)

lemmas lookup_simps = get_tenant_workflow_Inr get_tenant_execution_Inr validate_workflow_active_Inr

section \<open>Reading\<close>

text \<open>Primary keys: no two rows of a table share an identifier.\<close>

definition keys_ok :: "world \<Rightarrow> bool" where
  "keys_ok w \<longleftrightarrow> distinct (map ex_id (w_executions w)) \<and> distinct (map se_id (w_steps w))"

lemma matching_keys: "keys_ok w \<Longrightarrow> distinct (map ex_id (matching_executions t f w))"
  by (simp add: keys_ok_def matching_executions_def distinct_map_filter)

interpretation exr: keyed_rows ex_created_at ex_id "matching_executions t f" keys_ok
  by unfold_locales (rule matching_keys)

lemma find_step_in: "keys_ok w \<Longrightarrow> s \<in> set (w_steps w) \<Longrightarrow> find_step w (se_id s) = Some s"
  by (simp add: keys_ok_def find_step_def find_distinct)

section \<open>Cancelling\<close>

abbreviation active :: "status \<Rightarrow> bool" where
  "active st \<equiv> st \<in> {Pending, Queued, Running}"

lemma active_skippable: "active st \<Longrightarrow> may_move ALLOWED_STEP_TRANSITIONS st Skipped"
  by (auto simp: step_moves)

lemma skip_steps_run:
  assumes "distinct (map se_id ss)" "\<forall>s\<in>set ss. find_step w (se_id s) = Some s"
  shows "\<exists>w'. skip_steps E ss w = (Inr (), w') \<and>
    evolves E T {} {j. \<exists>s\<in>set ss. active (se_status s) \<and> j = se_id s} w w' \<and>
    (\<forall>s\<in>set ss. active (se_status s) \<longrightarrow> (\<exists>s'. find_step w' (se_id s) = Some s' \<and>
      se_status s' = Skipped \<and> se_base s' = se_base s \<and> se_output_data s' = se_output_data s))"
  using assms
proof (induction ss arbitrary: w)
  case Nil
  then show ?case by simp
next
  case (Cons s ss)
  let ?J = "\<lambda>ss. {j. \<exists>s\<in>set ss. active (se_status s) \<and> j = se_id s}"
  have other: "t \<in> set ss \<Longrightarrow> se_id t \<noteq> se_id s" for t
    using Cons.prems(1) by (metis distinct.simps(2) image_eqI list.set_map list.simps(9))
  show ?case
  proof (cases "active (se_status s)")
    case False
    from Cons.IH [of w] Cons.prems obtain w' where w': "skip_steps E ss w = (Inr (), w')"
      "evolves E T {} (?J ss) w w'"
      "\<forall>s\<in>set ss. active (se_status s) \<longrightarrow> (\<exists>s'. find_step w' (se_id s) = Some s' \<and>
        se_status s' = Skipped \<and> se_base s' = se_base s \<and> se_output_data s' = se_output_data s)" by auto
    have "?J (s # ss) = ?J ss" using False by auto
    with w' False show ?thesis by auto
  next
    case True
    have row: "find_step w (se_id s) = Some s" using Cons.prems by simp
    from transition_step_run [OF row active_skippable [OF True], of E None T "{}"]
    obtain n v where v: "transition_step E (se_id s) Skipped None w = (Inr (stamp_step E Skipped n None s), v)"
      "find_step v (se_id s) = Some (stamp_step E Skipped n None s)" "evolves E T {} {se_id s} w v" by metis
    have "\<forall>t\<in>set ss. find_step v (se_id t) = Some t"
      using Cons.prems evolves_step [OF v(3)] other by (metis list.set_intros(2) singletonD)
    then obtain w' where w': "skip_steps E ss v = (Inr (), w')" "evolves E T {} (?J ss) v w'"
      "\<forall>s\<in>set ss. active (se_status s) \<longrightarrow> (\<exists>s'. find_step w' (se_id s) = Some s' \<and>
        se_status s' = Skipped \<and> se_base s' = se_base s \<and> se_output_data s' = se_output_data s)"
      using Cons.IH [of v] Cons.prems(1) by auto
    have "se_id s \<notin> ?J ss" using other by fastforce
    then have "find_step w' (se_id s) = Some (stamp_step E Skipped n None s)"
      using evolves_step [OF w'(2) v(2)] by simp
    moreover have "evolves E T {} (?J (s # ss)) w v" using True by (intro evolves_weaken [OF v(3)]) auto
    then have "evolves E T {} (?J (s # ss)) w w'"
      by (rule evolves_trans_same) (rule evolves_weaken [OF w'(2)], auto)
    moreover have "skip_steps E (s # ss) w = (Inr (), w')"
      using True v(1) w'(1) by (simp add: andthen_def)
    ultimately show ?thesis using w'(3) by auto
  qed
qed

lemma cancel_run:
  assumes keys: "keys_ok w" and x: "find_execution w i = Some x" "ex_tenant_id x = T"
    and st: "ex_status x \<in> {Pending, Running}"
  obtains x' w' where "cancel_execution E T i w = (Inr True, w')" "find_execution w' i = Some x'"
    "ex_status x' = Cancelled" "ex_context x' = ex_context x" "ex_base x' = ex_base x"
    "\<forall>s\<in>set (step_executions w i). \<exists>s'. find_step w' (se_id s) = Some s' \<and>
      (if active (se_status s) then se_status s' = Skipped \<and> se_base s' = se_base s \<and> se_output_data s' = se_output_data s
       else s' = s)"
    "evolves E T {i} {j. \<exists>s\<in>set (step_executions w i). active (se_status s) \<and> j = se_id s} (opened E w) w'"
proof -
  let ?v = "opened E w" let ?ss = "step_executions w i"
  let ?J = "{j. \<exists>s\<in>set ?ss. active (se_status s) \<and> j = se_id s}"
  have id: "ex_id x = i" by (rule ext.find_key [OF x(1)])
  have "may_move ALLOWED_EXECUTION_TRANSITIONS (ex_status x) Cancelled" using st by (auto simp: execution_moves)
  moreover have xv: "find_execution ?v i = Some x" using x(1) by simp
  ultimately obtain n u where u: "transition_execution E i Cancelled ?v = (Inr (stamp_execution E Cancelled n x), u)"
    "find_execution u i = Some (stamp_execution E Cancelled n x)" "evolves E T {i} {} ?v u"
    using transition_execution_run [of ?v i x Cancelled E T "{}"] by metis
  have rows: "\<forall>s\<in>set ?ss. find_step u (se_id s) = Some s"
    using find_step_in [OF keys] evolves_step [OF u(3)] by (auto simp: step_executions_def)
  have "distinct (map se_id ?ss)"
    using keys by (simp add: keys_ok_def step_executions_def distinct_map_filter)
  from skip_steps_run [OF this rows, of E T]
  obtain w' where w': "skip_steps E ?ss u = (Inr (), w')" "evolves E T {} ?J u w'"
    "\<forall>s\<in>set ?ss. active (se_status s) \<longrightarrow> (\<exists>s'. find_step w' (se_id s) = Some s' \<and>
      se_status s' = Skipped \<and> se_base s' = se_base s \<and> se_output_data s' = se_output_data s)" by blast
  show ?thesis
  proof (rule that)
    have ss: "step_executions ?v i = ?ss" by (simp add: step_executions_def)
    have "get_tenant_execution T i ?v = (Inr x, ?v)" using x by (simp add: get_tenant_execution_Inr)
    then show "cancel_execution E T i w = (Inr True, w')"
      unfolding cancel_execution_def in_session_Inr
      using u(1) w'(1) id ss by (simp add: andthen_def Let_def)
    show "find_execution w' i = Some (stamp_execution E Cancelled n x)"
      using evolves_execution [OF w'(2) u(2)] by simp
    show "\<forall>s\<in>set ?ss. \<exists>s'. find_step w' (se_id s) = Some s' \<and>
        (if active (se_status s) then se_status s' = Skipped \<and> se_base s' = se_base s \<and> se_output_data s' = se_output_data s
         else s' = s)"
    proof
      fix s assume s: "s \<in> set ?ss"
      show "\<exists>s'. find_step w' (se_id s) = Some s' \<and>
        (if active (se_status s) then se_status s' = Skipped \<and> se_base s' = se_base s \<and> se_output_data s' = se_output_data s
         else s' = s)"
      proof (cases "active (se_status s)")
        case True
        with w'(3) s show ?thesis by auto
      next
        case False
        have "se_id s \<notin> ?J"
        proof
          assume "se_id s \<in> ?J"
          then obtain t where "t \<in> set ?ss" "active (se_status t)" "se_id s = se_id t" by blast
          moreover from this rows s have "t = s" by (metis option.inject)
          ultimately show False using False by simp
        qed
        then show ?thesis using evolves_step [OF w'(2)] rows s False by simp
      qed
    qed
    have "evolves E T {i} ?J ?v u" by (rule evolves_weaken [OF u(3)]) auto
    moreover have "evolves E T {i} ?J u w'" by (rule evolves_weaken [OF w'(2)]) auto
    ultimately show "evolves E T {i} ?J ?v w'" by (rule evolves_trans_same)
  qed simp_all
qed

text \<open>A cancellation inserts and removes no row.\<close>

definition row_keys :: "world \<Rightarrow> uuid list \<times> uuid list" where
  "row_keys w = (map ex_id (w_executions w), map se_id (w_steps w))"

lemma transition_keys:
  "row_keys (snd (transition_execution E i st w)) = row_keys w"
  "row_keys (snd (transition_step E j st err w)) = row_keys w"
  by (auto simp: row_keys_def transition_execution_def transition_step_def andthen_def utc_now_def log_event_def
      upd_execution_def upd_step_def split: option.split sum.split)

lemma skip_steps_keys: "row_keys (snd (skip_steps E ss w)) = row_keys w"
proof (induction ss arbitrary: w)
  case (Cons s ss)
  obtain r v where t: "transition_step E (se_id s) Skipped None w = (r, v)" by (metis surj_pair)
  then have "row_keys v = row_keys w" by (metis snd_conv transition_keys(2))
  with Cons t show ?case by (auto simp: andthen_def split: sum.split)
qed simp

lemma cancel_keys:
  assumes "cancel_execution E T i w = (Inr b, w')"
  shows "row_keys w' = row_keys w"
proof -
  let ?v = "opened E w"
  obtain k r u where "transition_execution E k Cancelled ?v = (Inr r, u)"
    "skip_steps E (step_executions ?v k) u = (Inr (), w')"
    using assms unfolding cancel_execution_def in_session_Inr
    by (auto simp: get_tenant_execution_Inr Let_def elim!: andthen_InrE)
  then have "row_keys w' = row_keys ?v" by (metis snd_conv transition_keys(1) skip_steps_keys)
  then show ?thesis by (simp add: row_keys_def)
qed

lemma cancel_rejected:
  assumes "\<not> (\<exists>x. find_execution w i = Some x \<and> ex_tenant_id x = T \<and> ex_status x \<in> {Pending, Running})"
  shows "\<exists>c m st w'. cancel_execution E T i w = (Inl (AppError c m st []), w') \<and> st \<in> {404, 409} \<and> same_rows w w'"
proof -
  let ?v = "opened E w"
  have "\<exists>c m st. cancel_execution E T i w = (Inl (AppError c m st []), w\<lparr>w_ticks := w_ticks ?v, w_events := w_events ?v\<rparr>) \<and>
      st \<in> {404, 409}"
  proof (cases "\<exists>x. find_execution w i = Some x \<and> ex_tenant_id x = T")
    case False
    then have "get_tenant_execution T i ?v = (Inl (not_found ''Execution''), ?v)"
      by (auto simp: get_tenant_execution_def split: option.split)
    then show ?thesis
      unfolding cancel_execution_def in_session_Inl by (simp add: andthen_def not_found_def)
  next
    case True
    then obtain x where x: "find_execution w i = Some x" "ex_tenant_id x = T" by blast
    have id: "ex_id x = i" by (rule ext.find_key [OF x(1)])
    have "\<not> may_move ALLOWED_EXECUTION_TRANSITIONS (ex_status x) Cancelled"
      using assms x by (auto simp: execution_moves)
    from transition_execution_bad [OF _ this, of ?v i E] x(1)
    obtain m where "transition_execution E i Cancelled ?v = (Inl (AppError ''INVALID_TRANSITION'' m 409 []), ?v)"
      by auto
    moreover have "get_tenant_execution T i ?v = (Inr x, ?v)" using x by (simp add: get_tenant_execution_Inr)
    ultimately show ?thesis
      unfolding cancel_execution_def in_session_Inl using id by (simp add: andthen_def Let_def)
  qed
  then show ?thesis
    by (auto simp: same_rows_def)
qed

end
