(* ===== verification/Cache.thy ===== *)
theory Cache
  imports World
begin

text \<open>
  \<open>src/lib/cache.py\<close>: the in-memory cache of workflow definitions, by id and by webhook
  path, least recently used out first, with a time to live. The \<open>OrderedDict\<close> is a list of
  pairs from the least to the most recently used, \<open>now\<close> the monotonic clock.
  The invariant of the reachable caches gives the bound on the size and the freshness of
  what a lookup returns; the path index is sound as long as nothing is evicted, and an
  eviction can leave it stale (\<open>eviction_leaves_path\<close>).
\<close>

section \<open>The cache\<close>

record cache_entry =
  ce_workflow :: workflow
  ce_expires_at :: int

record workflow_cache =
  wc_max_size :: nat
  wc_ttl_seconds :: int
  wc_entries :: "(uuid \<times> cache_entry) list"
  wc_path_index :: "(string \<times> uuid) list"

definition new_cache :: "nat \<Rightarrow> int \<Rightarrow> workflow_cache" where
  "new_cache max_size ttl_seconds = \<lparr>wc_max_size = max_size, wc_ttl_seconds = ttl_seconds,
     wc_entries = [], wc_path_index = []\<rparr>"

definition remove_key :: "'k \<Rightarrow> ('k \<times> 'v) list \<Rightarrow> ('k \<times> 'v) list" where
  "remove_key k d = filter (\<lambda>p. fst p \<noteq> k) d"

definition move_to_end :: "'k \<Rightarrow> ('k \<times> 'v) list \<Rightarrow> ('k \<times> 'v) list" where
  "move_to_end k d = remove_key k d @ filter (\<lambda>p. fst p = k) d"

definition has_path :: "workflow \<Rightarrow> bool" where
  "has_path flow = (case wf_webhook_path flow of None \<Rightarrow> False | Some p \<Rightarrow> p \<noteq> '''')"

definition remove_path_index :: "uuid \<Rightarrow> workflow_cache \<Rightarrow> workflow_cache" where
  "remove_path_index workflow_id c =
    (case map_of (wc_entries c) workflow_id of
       None \<Rightarrow> c
     | Some e \<Rightarrow>
         if has_path (ce_workflow e)
         then c\<lparr>wc_path_index := remove_key (the (wf_webhook_path (ce_workflow e))) (wc_path_index c)\<rparr>
         else c)"

definition remove_entry :: "uuid \<Rightarrow> workflow_cache \<Rightarrow> workflow_cache" where
  "remove_entry workflow_id c =
    (let c' = remove_path_index workflow_id c
     in c'\<lparr>wc_entries := remove_key workflow_id (wc_entries c')\<rparr>)"

definition get_by_id :: "int \<Rightarrow> uuid \<Rightarrow> workflow_cache \<Rightarrow> workflow option \<times> workflow_cache" where
  "get_by_id now workflow_id c =
    (case map_of (wc_entries c) workflow_id of
       None \<Rightarrow> (None, c)
     | Some e \<Rightarrow>
         if ce_expires_at e \<le> now then (None, remove_entry workflow_id c)
         else (Some (ce_workflow e), c\<lparr>wc_entries := move_to_end workflow_id (wc_entries c)\<rparr>))"

definition get_by_webhook_path :: "int \<Rightarrow> string \<Rightarrow> workflow_cache \<Rightarrow> workflow option \<times> workflow_cache" where
  "get_by_webhook_path now webhook_path c =
    (case map_of (wc_path_index c) webhook_path of
       None \<Rightarrow> (None, c)
     | Some workflow_id \<Rightarrow> get_by_id now workflow_id c)"

text \<open>
  The \<open>while len(entries) >= max_size\<close> loop takes the oldest entry out and then looks it up
  to clean its path. \<open>popitem\<close> on an empty dictionary raises \<open>KeyError\<close>.
\<close>

function evict :: "workflow_cache \<Rightarrow> exn + workflow_cache" where
  "evict c =
    (if length (wc_entries c) < wc_max_size c then Inr c
     else case wc_entries c of
       [] \<Rightarrow> Inl (PyError ''KeyError'' ''dictionary is empty'')
     | (oldest_id, _) # rest \<Rightarrow> evict (remove_path_index oldest_id (c\<lparr>wc_entries := rest\<rparr>)))"
  by pat_completeness auto
termination
  by (relation "measure (\<lambda>c. length (wc_entries c))")
    (auto simp: remove_path_index_def split: option.splits)

declare evict.simps [simp del]

definition cache_set :: "int \<Rightarrow> workflow \<Rightarrow> workflow_cache \<Rightarrow> exn + workflow_cache" where
  "cache_set now flow c =
    (let workflow_id = wf_id flow;
         c1 = (if map_of (wc_entries c) workflow_id \<noteq> None then remove_entry workflow_id c else c)
     in sum_bind (evict c1) (\<lambda>c2.
        let e = \<lparr>ce_workflow = flow, ce_expires_at = now + wc_ttl_seconds c2\<rparr>;
            c3 = c2\<lparr>wc_entries := move_to_end workflow_id (dict_set workflow_id e (wc_entries c2))\<rparr>
        in Inr (if has_path flow
                then c3\<lparr>wc_path_index := dict_set (the (wf_webhook_path flow)) workflow_id (wc_path_index c3)\<rparr>
                else c3)))"

definition invalidate :: "uuid \<Rightarrow> workflow_cache \<Rightarrow> workflow_cache" where
  "invalidate workflow_id c =
    (if map_of (wc_entries c) workflow_id \<noteq> None then remove_entry workflow_id c else c)"

definition clear :: "workflow_cache \<Rightarrow> workflow_cache" where
  "clear c = c\<lparr>wc_entries := [], wc_path_index := []\<rparr>"

definition stats :: "workflow_cache \<Rightarrow> nat \<times> nat" where
  "stats c = (length (wc_entries c), wc_max_size c)"

section \<open>Histories of calls\<close>

datatype cache_call =
    Get_Id int uuid
  | Get_Path int string
  | Put int workflow
  | Drop uuid
  | Wipe

fun cache_step :: "cache_call \<Rightarrow> workflow_cache \<Rightarrow> workflow_cache" where
  "cache_step (Get_Id now i) c = snd (get_by_id now i c)"
| "cache_step (Get_Path now p) c = snd (get_by_webhook_path now p c)"
| "cache_step (Put now flow) c = (case cache_set now flow c of Inl e \<Rightarrow> c | Inr c' \<Rightarrow> c')"
| "cache_step (Drop i) c = invalidate i c"
| "cache_step Wipe c = clear c"

definition run_cache :: "nat \<Rightarrow> int \<Rightarrow> cache_call list \<Rightarrow> workflow_cache" where
  "run_cache max_size ttl calls = fold cache_step calls (new_cache max_size ttl)"

text \<open>The last value put under an id that no later call has dropped, with its time.\<close>

fun last_put :: "uuid \<Rightarrow> cache_call list \<Rightarrow> (int \<times> workflow) option" where
  "last_put i [] = None"
| "last_put i (Put now flow # calls) = (if wf_id flow = i then Some (now, flow) else last_put i calls)"
| "last_put i (Drop j # calls) = (if j = i then None else last_put i calls)"
| "last_put i (Wipe # calls) = None"
| "last_put i (c # calls) = last_put i calls"

section \<open>The invariant\<close>

lemma remove_key_keys: "fst ` set (remove_key k d) = fst ` set d - {k}"
  by (auto simp: remove_key_def)

lemma remove_key_distinct: "distinct (map fst d) \<Longrightarrow> distinct (map fst (remove_key k d))"
  by (simp add: remove_key_def distinct_map_filter)

lemma remove_key_absent: "k \<notin> fst ` set d \<Longrightarrow> remove_key k d = d"
  by (auto simp: remove_key_def filter_id_conv)

lemma map_of_remove_key: "map_of (remove_key k d) j = (if j = k then None else map_of d j)"
  by (induction d) (auto simp: remove_key_def)

lemma move_to_end_keys: "fst ` set (move_to_end k d) = fst ` set d"
  by (auto simp: move_to_end_def remove_key_def)

lemma map_of_filter_key: "map_of (filter (\<lambda>p. fst p = k) d) j = (if j = k then map_of d k else None)"
  by (induction d) auto

lemma map_of_move_to_end: "map_of (move_to_end k d) j = map_of d j"
  by (simp add: move_to_end_def map_add_def map_of_remove_key map_of_filter_key split: option.split)

lemma move_to_end_distinct: "distinct (map fst d) \<Longrightarrow> distinct (map fst (move_to_end k d))"
  by (auto simp: move_to_end_def remove_key_def distinct_map_filter)

lemma length_move_to_end: "length (move_to_end k d) = length d"
  by (induction d) (auto simp: move_to_end_def remove_key_def)

lemma length_remove_key: "length (remove_key k d) \<le> length d"
  by (simp add: remove_key_def)

lemma remove_path_index_simps [simp]:
  "wc_entries (remove_path_index i c) = wc_entries c"
  "wc_max_size (remove_path_index i c) = wc_max_size c"
  "wc_ttl_seconds (remove_path_index i c) = wc_ttl_seconds c"
  by (auto simp: remove_path_index_def split: option.splits)

lemma remove_entry_simps [simp]:
  "wc_entries (remove_entry i c) = remove_key i (wc_entries c)"
  "wc_max_size (remove_entry i c) = wc_max_size c"
  "wc_ttl_seconds (remove_entry i c) = wc_ttl_seconds c"
  by (simp_all add: remove_entry_def Let_def)

text \<open>Eviction keeps a suffix of the entries: the most recently used ones.\<close>

lemma evict_ok:
  assumes "0 < wc_max_size c"
  obtains c' where "evict c = Inr c'"
    "wc_entries c' = drop (length (wc_entries c) + 1 - wc_max_size c) (wc_entries c)"
    "wc_max_size c' = wc_max_size c" "wc_ttl_seconds c' = wc_ttl_seconds c"
proof -
  have "\<exists>c'. evict c = Inr c' \<and>
    wc_entries c' = drop (length (wc_entries c) + 1 - wc_max_size c) (wc_entries c) \<and>
    wc_max_size c' = wc_max_size c \<and> wc_ttl_seconds c' = wc_ttl_seconds c"
    using assms
  proof (induction c rule: evict.induct)
    case (1 c)
    show ?case
    proof (cases "length (wc_entries c) < wc_max_size c")
      case True
      then show ?thesis by (subst evict.simps) simp
    next
      case False
      with 1(2) obtain p rest where e: "wc_entries c = p # rest" by (cases "wc_entries c") auto
      let ?c = "remove_path_index (fst p) (c\<lparr>wc_entries := rest\<rparr>)"
      obtain c' where c': "evict ?c = Inr c'" "wc_entries c' = drop (length rest + 1 - wc_max_size c) rest"
        "wc_max_size c' = wc_max_size c" "wc_ttl_seconds c' = wc_ttl_seconds c"
        using 1(1) [OF False e] 1(2) by (cases p) auto
      have "evict c = evict ?c" using False e by (subst evict.simps) (simp split: prod.split)
      moreover have "length (wc_entries c) + 1 - wc_max_size c = Suc (length rest + 1 - wc_max_size c)"
        using False e by simp
      ultimately show ?thesis using c' e by simp
    qed
  qed
  then show ?thesis using that by blast
qed

definition cache_ok :: "workflow_cache \<Rightarrow> bool" where
  "cache_ok c \<longleftrightarrow> distinct (map fst (wc_entries c)) \<and> length (wc_entries c) \<le> wc_max_size c \<and>
    (\<forall>(i, e)\<in>set (wc_entries c). wf_id (ce_workflow e) = i)"

lemma cache_set_ok:
  assumes "0 < wc_max_size c" "cache_ok c"
  obtains c' d where "cache_set now flow c = Inr c'" "cache_ok c'"
    "wc_max_size c' = wc_max_size c" "wc_ttl_seconds c' = wc_ttl_seconds c"
    "wc_entries c' = drop d (remove_key (wf_id flow) (wc_entries c)) @
       [(wf_id flow, \<lparr>ce_workflow = flow, ce_expires_at = now + wc_ttl_seconds c\<rparr>)]"
proof -
  let ?i = "wf_id flow" let ?e = "\<lparr>ce_workflow = flow, ce_expires_at = now + wc_ttl_seconds c\<rparr>"
  let ?c1 = "if map_of (wc_entries c) ?i \<noteq> None then remove_entry ?i c else c"
  have c1: "wc_entries ?c1 = remove_key ?i (wc_entries c)" "wc_max_size ?c1 = wc_max_size c"
    "wc_ttl_seconds ?c1 = wc_ttl_seconds c"
    by (auto simp: remove_key_absent map_of_eq_None_iff)
  obtain c2 where c2: "evict ?c1 = Inr c2"
    "wc_entries c2 = drop (length (wc_entries ?c1) + 1 - wc_max_size ?c1) (wc_entries ?c1)"
    "wc_max_size c2 = wc_max_size c" "wc_ttl_seconds c2 = wc_ttl_seconds c"
    using evict_ok [of ?c1] assms(1) c1 by metis
  let ?d = "length (remove_key ?i (wc_entries c)) + 1 - wc_max_size c"
  let ?r = "drop ?d (remove_key ?i (wc_entries c))"
  have r: "wc_entries c2 = ?r" using c2(2) unfolding c1 by simp
  have absent: "?i \<notin> fst ` set ?r"
    using set_drop_subset [of ?d "remove_key ?i (wc_entries c)"] by (auto simp: remove_key_def)
  let ?c3 = "c2\<lparr>wc_entries := ?r @ [(?i, ?e)]\<rparr>"
  let ?c4 = "if has_path flow
      then ?c3\<lparr>wc_path_index := dict_set (the (wf_webhook_path flow)) ?i (wc_path_index ?c3)\<rparr> else ?c3"
  have "filter (\<lambda>p. fst p = ?i) ?r = []" using absent by (force simp: filter_empty_conv)
  then have new: "move_to_end ?i (dict_set ?i ?e ?r) = ?r @ [(?i, ?e)]"
    using absent remove_key_absent [OF absent] by (simp add: dict_set_fresh move_to_end_def remove_key_def)
  have set: "cache_set now flow c = Inr ?c4"
    using c2(1,4) r new by (simp add: cache_set_def Let_def)
  have len: "length ?r + 1 \<le> wc_max_size c" using assms(1) by simp
  have "distinct (map fst ?r)"
    using assms(2) by (simp add: cache_ok_def drop_map [symmetric] distinct_drop remove_key_distinct)
  moreover have "set ?r \<subseteq> set (wc_entries c)"
    using set_drop_subset [of ?d "remove_key ?i (wc_entries c)"] by (auto simp: remove_key_def)
  then have "\<forall>(i, e)\<in>set ?r. wf_id (ce_workflow e) = i"
    using assms(2) unfolding cache_ok_def by blast
  ultimately have "cache_ok ?c4"
    using absent len c2(3) by (auto simp: cache_ok_def)
  with set show ?thesis using c2(3,4) by (intro that [of ?c4 ?d]) auto
qed

lemma get_by_id_cases:
  obtains (miss) "get_by_id now i c = (None, c)"
  | (expired) e where "map_of (wc_entries c) i = Some e" "ce_expires_at e \<le> now"
      "get_by_id now i c = (None, remove_entry i c)"
  | (hit) e where "map_of (wc_entries c) i = Some e" "now < ce_expires_at e"
      "get_by_id now i c = (Some (ce_workflow e), c\<lparr>wc_entries := move_to_end i (wc_entries c)\<rparr>)"
  by (cases "map_of (wc_entries c) i"; cases "ce_expires_at (the (map_of (wc_entries c) i)) \<le> now")
    (auto simp: get_by_id_def)

lemma remove_entry_ok: "cache_ok c \<Longrightarrow> cache_ok (remove_entry i c)"
  using length_remove_key [of i "wc_entries c"]
  by (auto simp: cache_ok_def remove_key_distinct) (auto simp: remove_key_def)

lemma get_by_id_ok: "cache_ok c \<Longrightarrow> cache_ok (snd (get_by_id now i c))"
proof (cases rule: get_by_id_cases [of now i c])
  case (hit e)
  moreover have "set (move_to_end i (wc_entries c)) = set (wc_entries c)"
    by (auto simp: move_to_end_def remove_key_def)
  moreover assume "cache_ok c"
  ultimately show ?thesis by (simp add: cache_ok_def move_to_end_distinct length_move_to_end)
qed (simp_all add: remove_entry_ok)

lemma cache_step_ok:
  assumes "0 < wc_max_size c" "cache_ok c"
  shows "cache_ok (cache_step call c) \<and> wc_max_size (cache_step call c) = wc_max_size c \<and>
    wc_ttl_seconds (cache_step call c) = wc_ttl_seconds c"
proof (cases call)
  case (Get_Id now i)
  with get_by_id_ok [OF assms(2), of now i] show ?thesis by (cases rule: get_by_id_cases [of now i c]) auto
next
  case (Get_Path now p)
  show ?thesis
  proof (cases "map_of (wc_path_index c) p")
    case (Some i)
    with Get_Path get_by_id_ok [OF assms(2), of now i] show ?thesis
      by (cases rule: get_by_id_cases [of now i c]) (auto simp: get_by_webhook_path_def)
  qed (use Get_Path assms in \<open>simp add: get_by_webhook_path_def\<close>)
next
  case (Put now flow)
  then show ?thesis using cache_set_ok [OF assms, of now flow] by (metis cache_step.simps(3) sum.simps(6))
next
  case (Drop i)
  with assms show ?thesis by (auto simp: invalidate_def remove_entry_ok)
next
  case Wipe
  with assms show ?thesis by (simp add: clear_def cache_ok_def)
qed

lemma run_cache_ok:
  assumes "0 < max_size"
  shows "cache_ok (run_cache max_size ttl calls) \<and> wc_max_size (run_cache max_size ttl calls) = max_size \<and>
    wc_ttl_seconds (run_cache max_size ttl calls) = ttl"
proof (induction calls rule: rev_induct)
  case Nil
  then show ?case by (simp add: run_cache_def new_cache_def cache_ok_def)
next
  case (snoc call calls)
  then show ?case using cache_step_ok [of "run_cache max_size ttl calls" call] assms
    by (simp add: run_cache_def)
qed

text \<open>An entry holds the last value put under its id, with the time to live counted from then.\<close>

lemma run_cache_entries:
  assumes "0 < max_size"
  shows "map_of (wc_entries (run_cache max_size ttl calls)) i = Some e \<Longrightarrow>
    \<exists>t. last_put i (rev calls) = Some (t, ce_workflow e) \<and> ce_expires_at e = t + ttl"
proof (induction calls arbitrary: i e rule: rev_induct)
  case Nil
  then show ?case by (simp add: run_cache_def new_cache_def)
next
  case (snoc call calls)
  let ?c = "run_cache max_size ttl calls"
  have step: "run_cache max_size ttl (calls @ [call]) = cache_step call ?c" by (simp add: run_cache_def)
  note ok = run_cache_ok [OF assms, of ttl calls]
  have get: "map_of (wc_entries ?c) i = Some e" if "map_of (wc_entries (snd (get_by_id now j ?c))) i = Some e" for now j
    using that by (cases rule: get_by_id_cases [of now j ?c])
      (auto simp: map_of_remove_key map_of_move_to_end split: if_splits)
  show ?case
  proof (cases call)
    case (Get_Id now j)
    with snoc step get show ?thesis by simp
  next
    case (Get_Path now p)
    with snoc step get show ?thesis by (auto simp: get_by_webhook_path_def split: option.splits)
  next
    case (Put now flow)
    obtain c' d where c': "cache_set now flow ?c = Inr c'"
      "wc_entries c' = drop d (remove_key (wf_id flow) (wc_entries ?c)) @
       [(wf_id flow, \<lparr>ce_workflow = flow, ce_expires_at = now + ttl\<rparr>)]"
      using cache_set_ok [of ?c now flow] ok assms by metis
    show ?thesis
    proof (cases "wf_id flow = i")
      case True
      have "i \<notin> fst ` set (drop d (remove_key i (wc_entries ?c)))"
        using set_drop_subset [of d "remove_key i (wc_entries ?c)"] by (auto simp: remove_key_def)
      then have "map_of (drop d (remove_key i (wc_entries ?c))) i = None" by (simp add: map_of_eq_None_iff)
      with snoc.prems step Put c' True show ?thesis by (auto simp: map_add_def)
    next
      case False
      with snoc.prems step Put c' have "(i, e) \<in> set (remove_key (wf_id flow) (wc_entries ?c))"
        by (auto dest!: map_of_SomeD dest: in_set_dropD)
      then have "map_of (wc_entries ?c) i = Some e"
        using ok by (auto simp: remove_key_def cache_ok_def)
      with snoc.IH Put False show ?thesis by simp
    qed
  next
    case (Drop j)
    with snoc step show ?thesis
      by (auto simp: invalidate_def map_of_remove_key split: if_splits)
  next
    case Wipe
    with snoc step show ?thesis by (simp add: clear_def)
  qed
qed

text \<open>What a lookup by path returns is what a lookup by the indexed id returns.\<close>

lemma cache_lookup_fresh:
  assumes "0 < max_size"
    and "fst (get_by_id now i (run_cache max_size ttl calls)) = Some flow"
  shows "wf_id flow = i \<and> (\<exists>t. last_put i (rev calls) = Some (t, flow) \<and> now < t + ttl)"
  using assms(2)
proof (cases rule: get_by_id_cases [of now i "run_cache max_size ttl calls"])
  case (hit e)
  with assms(2) have e: "ce_workflow e = flow" by simp
  from hit(1) run_cache_ok [OF assms(1), of ttl calls] have "wf_id (ce_workflow e) = i"
    by (auto simp: cache_ok_def dest!: map_of_SomeD)
  with run_cache_entries [OF assms(1) hit(1)] hit(2) e show ?thesis by auto
qed simp_all

section \<open>A stale path\<close>

text \<open>
  Room for one workflow. The first is evicted by the second, and its path stays in the index
  because the entry is gone when the path is looked up; put again under a new path, the first
  workflow is served under its old one.
\<close>

definition demo_workflow :: "uuid \<Rightarrow> string \<Rightarrow> workflow" where
  "demo_workflow i p = \<lparr>wf_id = i, wf_tenant_id = 7, wf_name = ''demo'', wf_description = None,
     wf_trigger_type = ''webhook'', wf_trigger_config = [], wf_steps = [], wf_is_active = True,
     wf_webhook_path = Some p, wf_webhook_secret = None, wf_created_at = 0, wf_updated_at = 0\<rparr>"

definition stale_calls :: "cache_call list" where
  "stale_calls = [Put 0 (demo_workflow 1 ''old''), Put 1 (demo_workflow 2 ''other''), Drop 1,
     Put 2 (demo_workflow 1 ''new'')]"

lemma eviction_leaves_path:
  "fst (get_by_webhook_path 3 ''old'' (run_cache 1 300 stale_calls)) = Some (demo_workflow 1 ''new'') \<and>
   wf_webhook_path (demo_workflow 1 ''new'') \<noteq> Some ''old''"
  by code_simp

end
