(* ===== verification/Workflows.thy ===== *)
theory Workflows
  imports ExecutionApi Cache
begin

text \<open>
  Workflow definitions behind the HTTP API (\<open>src/api/workflows.py\<close>,
  \<open>src/api/workflow_models.py\<close>): create, list, read, update, delete. A handler works on the
  database and on the process-wide workflow cache, so its state is the pair of them. The
  foreign keys of \<open>src/db/models\<close> say what a deletion takes along.
\<close>

section \<open>Requests and responses\<close>

record workflow_create_request =
  wc_name :: string
  wc_description :: "string option"
  wc_trigger_type :: string
  wc_trigger_config :: dict
  wc_steps :: "dict list"
  wc_is_active :: bool
  wc_webhook_secret :: "string option"

record workflow_update_request =
  wu_name :: "string option"
  wu_description :: "string option"
  wu_trigger_type :: "string option"
  wu_trigger_config :: "dict option"
  wu_steps :: "dict list option"
  wu_is_active :: "bool option"
  wu_webhook_secret :: "string option"

definition TRIGGER_TYPES :: "string list" where
  "TRIGGER_TYPES = [''webhook'', ''cron'', ''manual'']"

definition name_ok :: "string \<Rightarrow> bool" where
  "name_ok n = (1 \<le> length n \<and> length n \<le> 200)"

text \<open>The constraints the request models declare.\<close>

definition create_request_ok :: "workflow_create_request \<Rightarrow> bool" where
  "create_request_ok b = (name_ok (wc_name b) \<and> wc_trigger_type b \<in> set TRIGGER_TYPES \<and> wc_steps b \<noteq> [])"

definition update_request_ok :: "workflow_update_request \<Rightarrow> bool" where
  "update_request_ok b =
    ((case wu_name b of None \<Rightarrow> True | Some n \<Rightarrow> name_ok n) \<and>
     (case wu_trigger_type b of None \<Rightarrow> True | Some t \<Rightarrow> t \<in> set TRIGGER_TYPES))"

record workflow_response =
  wr_id :: uuid
  wr_name :: string
  wr_description :: "string option"
  wr_trigger_type :: string
  wr_trigger_config :: dict
  wr_steps :: "json list"
  wr_is_active :: bool
  wr_webhook_path :: "string option"
  wr_created_at :: time
  wr_updated_at :: time

definition workflow_to_response :: "workflow \<Rightarrow> workflow_response" where
  "workflow_to_response flow = \<lparr>wr_id = wf_id flow, wr_name = wf_name flow, wr_description = wf_description flow,
     wr_trigger_type = wf_trigger_type flow, wr_trigger_config = wf_trigger_config flow,
     wr_steps = wf_steps flow, wr_is_active = wf_is_active flow, wr_webhook_path = wf_webhook_path flow,
     wr_created_at = wf_created_at flow, wr_updated_at = wf_updated_at flow\<rparr>"

section \<open>Rows\<close>

definition generate_webhook_path :: "env \<Rightarrow> (world, string) proc" where
  "generate_webhook_path E =
    andthen (generate_uuid E) (\<lambda>u. ret (''wh_'' @ take 24 (hex_digits 32 u)))"

text \<open>The column \<open>webhook_path\<close> is unique: a commit that would repeat one raises.\<close>

definition path_taken :: "uuid \<Rightarrow> string option \<Rightarrow> world \<Rightarrow> bool" where
  "path_taken i p w = (p \<noteq> None \<and> (\<exists>f\<in>set (w_workflows w). wf_id f \<noteq> i \<and> wf_webhook_path f = p))"

definition commit_workflow :: "workflow \<Rightarrow> (world \<Rightarrow> world) \<Rightarrow> (world, workflow) proc" where
  "commit_workflow flow write w =
    (if path_taken (wf_id flow) (wf_webhook_path flow) w then raise integrity_error w
     else ret flow (write w))"

definition new_workflow :: "uuid \<Rightarrow> uuid \<Rightarrow> workflow_create_request \<Rightarrow> string option \<Rightarrow> time \<Rightarrow> workflow" where
  "new_workflow i tenant_id body webhook_path now = \<lparr>wf_id = i, wf_tenant_id = tenant_id,
     wf_name = wc_name body, wf_description = wc_description body, wf_trigger_type = wc_trigger_type body,
     wf_trigger_config = wc_trigger_config body, wf_steps = map JObj (wc_steps body),
     wf_is_active = wc_is_active body, wf_webhook_path = webhook_path,
     wf_webhook_secret = wc_webhook_secret body, wf_created_at = now, wf_updated_at = now\<rparr>"

text \<open>
  Deleting a workflow row: the foreign keys delete its executions and deliveries, with the
  executions their steps and logs, and clear \<open>replayed_from\<close> and \<open>execution_id\<close> of what
  refers to a deleted execution.
\<close>

definition cascade_delete :: "uuid \<Rightarrow> world \<Rightarrow> world" where
  "cascade_delete i w =
    (let gone = map ex_id (filter (\<lambda>x. ex_workflow_id x = i) (w_executions w));
         unlink = (\<lambda>r. case r of Some j \<Rightarrow> if j \<in> set gone then None else Some j | None \<Rightarrow> None)
     in w\<lparr>w_workflows := filter (\<lambda>f. wf_id f \<noteq> i) (w_workflows w),
          w_executions := map (\<lambda>x. x\<lparr>ex_replayed_from := unlink (ex_replayed_from x)\<rparr>)
            (filter (\<lambda>x. ex_workflow_id x \<noteq> i) (w_executions w)),
          w_steps := filter (\<lambda>s. se_execution_id s \<notin> set gone) (w_steps w),
          w_logs := filter (\<lambda>l. lg_execution_id l \<notin> set gone) (w_logs w),
          w_deliveries := map (\<lambda>d. d\<lparr>wd_execution_id := unlink (wd_execution_id d)\<rparr>)
            (filter (\<lambda>d. wd_workflow_id d \<noteq> i) (w_deliveries w))\<rparr>)"

section \<open>The handlers\<close>

definition workflow_raw :: "string \<Rightarrow> string \<Rightarrow> dict list \<Rightarrow> dict" where
  "workflow_raw name trigger_type steps = [(''name'', JStr name), (''trigger_type'', JStr trigger_type),
     (''steps'', JList (map JObj steps))]"

definition check_definition :: "env \<Rightarrow> dict \<Rightarrow> exn + unit" where
  "check_definition E raw =
    (case parse_workflow_definition E raw of
       None \<Rightarrow> Inl (PyError ''RecursionError'' ''maximum recursion depth exceeded'')
     | Some r \<Rightarrow> sum_bind r (\<lambda>parsed. Inr ()))"

definition insert_workflow :: "env \<Rightarrow> uuid \<Rightarrow> workflow_create_request \<Rightarrow> string option \<Rightarrow> (world, workflow) proc" where
  "insert_workflow E tenant_id body webhook_path =
    andthen (generate_uuid E) (\<lambda>i w.
      let flow = new_workflow i tenant_id body webhook_path (w_txn_now w)
      in commit_workflow flow (add_workflow flow) w)"

definition create_workflow :: "env \<Rightarrow> uuid \<Rightarrow> workflow_create_request \<Rightarrow> (world, workflow_response) proc" where
  "create_workflow E tenant_id body =
    andthen (lift_result (check_definition E (workflow_raw (wc_name body) (wc_trigger_type body) (wc_steps body)))) (\<lambda>_.
    andthen (if wc_trigger_type body = ''webhook''
             then andthen (generate_webhook_path E) (\<lambda>p. ret (Some p)) else ret None) (\<lambda>webhook_path.
    andthen (in_session E (insert_workflow E tenant_id body webhook_path)) (\<lambda>flow.
    ret (workflow_to_response flow))))"

record workflow_filter =
  wl_trigger_type :: "string option"
  wl_is_active :: "bool option"

definition matching_workflows :: "uuid \<Rightarrow> workflow_filter \<Rightarrow> world \<Rightarrow> workflow list" where
  "matching_workflows tenant_id f w =
    filter (\<lambda>x. wf_tenant_id x = tenant_id \<and>
      (case wl_trigger_type f of None \<Rightarrow> True | Some t \<Rightarrow> wf_trigger_type x = t) \<and>
      (case wl_is_active f of None \<Rightarrow> True | Some b \<Rightarrow> wf_is_active x = b)) (w_workflows w)"

definition list_workflows :: "uuid \<Rightarrow> workflow_filter \<Rightarrow> nat \<Rightarrow> cursor option \<Rightarrow> world \<Rightarrow>
    workflow_response list \<times> cursor option" where
  "list_workflows tenant_id f limit cursor w =
    (case page_of wf_created_at wf_id limit cursor (matching_workflows tenant_id f w) of
       (workflows, next_cursor) \<Rightarrow> (map workflow_to_response workflows, next_cursor))"

definition get_workflow :: "uuid \<Rightarrow> uuid \<Rightarrow> (world, workflow_response) proc" where
  "get_workflow tenant_id workflow_id =
    andthen (get_tenant_workflow workflow_id tenant_id) (\<lambda>flow. ret (workflow_to_response flow))"

text \<open>\<open>a or b\<close> of an optional text.\<close>

definition or_text :: "string option \<Rightarrow> string \<Rightarrow> string" where
  "or_text a b = (case a of None \<Rightarrow> b | Some s \<Rightarrow> if s = '''' then b else s)"

definition apply_fields :: "workflow_update_request \<Rightarrow> workflow \<Rightarrow> workflow" where
  "apply_fields b flow =
    (let f1 = (case wu_name b of None \<Rightarrow> flow | Some n \<Rightarrow> flow\<lparr>wf_name := n\<rparr>);
         f2 = (case wu_description b of None \<Rightarrow> f1 | Some d \<Rightarrow> f1\<lparr>wf_description := Some d\<rparr>);
         f3 = (case wu_trigger_config b of None \<Rightarrow> f2 | Some c \<Rightarrow> f2\<lparr>wf_trigger_config := c\<rparr>)
     in case wu_is_active b of None \<Rightarrow> f3 | Some a \<Rightarrow> f3\<lparr>wf_is_active := a\<rparr>)"

definition apply_steps :: "env \<Rightarrow> workflow_update_request \<Rightarrow> workflow \<Rightarrow> exn + workflow" where
  "apply_steps E b flow =
    (case wu_steps b of
       None \<Rightarrow> Inr flow
     | Some ss \<Rightarrow>
         sum_bind (check_definition E
           (workflow_raw (wf_name flow) (or_text (wu_trigger_type b) (wf_trigger_type flow)) ss))
           (\<lambda>_. Inr (flow\<lparr>wf_steps := map JObj ss\<rparr>)))"

definition apply_secret :: "workflow_update_request \<Rightarrow> workflow \<Rightarrow> workflow" where
  "apply_secret b flow = (case wu_webhook_secret b of None \<Rightarrow> flow | Some s \<Rightarrow> flow\<lparr>wf_webhook_secret := Some s\<rparr>)"

definition apply_trigger :: "env \<Rightarrow> workflow_update_request \<Rightarrow> workflow \<Rightarrow> (world, workflow) proc" where
  "apply_trigger E b flow =
    (case wu_trigger_type b of
       None \<Rightarrow> ret flow
     | Some t \<Rightarrow>
         (let flow = flow\<lparr>wf_trigger_type := t\<rparr>
          in if t = ''webhook'' \<and> \<not> has_path flow
             then andthen (generate_webhook_path E) (\<lambda>p. ret (flow\<lparr>wf_webhook_path := Some p\<rparr>))
             else if t \<noteq> ''webhook'' then ret (flow\<lparr>wf_webhook_path := None\<rparr>)
             else ret flow))"

text \<open>A handler that uses the database and then the cache.\<close>

definition on_database :: "(world, 'a) proc \<Rightarrow> (world \<times> workflow_cache, 'a) proc" where
  "on_database m s = (case m (fst s) of (r, w) \<Rightarrow> (r, (w, snd s)))"

definition on_cache :: "(workflow_cache \<Rightarrow> workflow_cache) \<Rightarrow> (world \<times> workflow_cache, unit) proc" where
  "on_cache g = modify (\<lambda>s. (fst s, g (snd s)))"

definition modify_workflow :: "env \<Rightarrow> uuid \<Rightarrow> uuid \<Rightarrow> workflow_update_request \<Rightarrow> (world, workflow) proc" where
  "modify_workflow E tenant_id workflow_id body =
    andthen (get_tenant_workflow workflow_id tenant_id) (\<lambda>flow.
    andthen (lift_result (apply_steps E body (apply_fields body flow))) (\<lambda>flow.
    andthen (apply_trigger E body (apply_secret body flow)) (\<lambda>flow.
    commit_workflow flow (upd_workflow workflow_id (\<lambda>_. flow)))))"

definition update_workflow :: "env \<Rightarrow> uuid \<Rightarrow> uuid \<Rightarrow> workflow_update_request \<Rightarrow>
    (world \<times> workflow_cache, workflow_response) proc" where
  "update_workflow E tenant_id workflow_id body =
    andthen (on_database (in_session E (modify_workflow E tenant_id workflow_id body))) (\<lambda>flow.
    andthen (on_cache (invalidate (wf_id flow))) (\<lambda>_.
    ret (workflow_to_response flow)))"

definition delete_workflow :: "env \<Rightarrow> uuid \<Rightarrow> uuid \<Rightarrow> (world \<times> workflow_cache, bool) proc" where
  "delete_workflow E tenant_id workflow_id =
    andthen (on_database (in_session E (
      andthen (get_tenant_workflow workflow_id tenant_id) (\<lambda>flow.
      modify (cascade_delete workflow_id))))) (\<lambda>_.
    andthen (on_cache (invalidate workflow_id)) (\<lambda>_.
    ret True))"

section \<open>What the catalogue keeps\<close>

text \<open>
  Every stored workflow passes the parser, has a webhook path exactly when a webhook triggers
  it, and shares neither its key nor its path with another one.
\<close>

definition path_ok :: "workflow \<Rightarrow> bool" where
  "path_ok flow \<longleftrightarrow> (if wf_trigger_type flow = ''webhook'' then \<exists>p. wf_webhook_path flow = Some (''wh_'' @ p)
     else wf_webhook_path flow = None)"

definition unique_paths :: "workflow list \<Rightarrow> bool" where
  "unique_paths flows \<longleftrightarrow>
    (\<forall>f\<in>set flows. \<forall>g\<in>set flows. wf_webhook_path f \<noteq> None \<and> wf_webhook_path f = wf_webhook_path g \<longrightarrow> wf_id f = wf_id g)"

definition catalogue_ok :: "env \<Rightarrow> world \<Rightarrow> bool" where
  "catalogue_ok E w \<longleftrightarrow> distinct (map wf_id (w_workflows w)) \<and> unique_paths (w_workflows w) \<and>
    (\<forall>f\<in>set (w_workflows w). check_definition E (raw_definition f) = Inr () \<and> path_ok f)"

text \<open>What the request models add: a validated request names a known trigger.\<close>

definition trigger_known :: "workflow \<Rightarrow> bool" where
  "trigger_known f \<longleftrightarrow> wf_trigger_type f \<in> set TRIGGER_TYPES"

definition triggers_known :: "world \<Rightarrow> bool" where
  "triggers_known w \<longleftrightarrow> (\<forall>f\<in>set (w_workflows w). trigger_known f)"

lemma check_definition_Inr: "check_definition E raw = Inr () \<longleftrightarrow> (\<exists>d. parse_workflow_definition E raw = Some (Inr d))"
  by (auto simp: check_definition_def sum_bind_Inr_iff split: option.split)

text \<open>The name and the trigger type do not matter to the parser.\<close>

lemma check_definition_steps:
  "check_definition E [(''name'', JStr n), (''trigger_type'', JStr t), (''steps'', js)] = Inr () \<longleftrightarrow>
    (\<exists>steps. well_formed E [(''steps'', js)] steps)"
proof -
  let ?raw = "[(''name'', JStr n), (''trigger_type'', JStr t), (''steps'', js)]"
  have "well_formed E ?raw steps = well_formed E [(''steps'', js)] steps" for steps
    by (simp add: well_formed_def dict_get_def)
  moreover have "make_definition E ?raw steps g = Inr \<lparr>wfd_name = n, wfd_trigger_type = t, wfd_steps = steps,
      wfd_dependency_graph = g\<rparr>" for steps g
    by (simp add: make_definition_def dict_get_def)
  ultimately have parsed: "parse_workflow_definition E ?raw = Some (Inr d) \<longleftrightarrow>
      well_formed E [(''steps'', js)] (wfd_steps d) \<and> d = \<lparr>wfd_name = n, wfd_trigger_type = t,
        wfd_steps = wfd_steps d, wfd_dependency_graph = step_pairs (wfd_steps d)\<rparr>" for d
    by (auto simp: parse_Inr_iff)
  have "parse_workflow_definition E ?raw = Some (Inr \<lparr>wfd_name = n, wfd_trigger_type = t,
        wfd_steps = steps, wfd_dependency_graph = step_pairs steps\<rparr>)"
    if "well_formed E [(''steps'', js)] steps" for steps
    using that by (simp add: parsed)
  moreover have "\<exists>steps. well_formed E [(''steps'', js)] steps" if "parse_workflow_definition E ?raw = Some (Inr d)" for d
    using that parsed by blast
  ultimately show ?thesis unfolding check_definition_Inr by blast
qed

definition steps_ok :: "env \<Rightarrow> json list \<Rightarrow> bool" where
  "steps_ok E js \<longleftrightarrow> (\<exists>steps. well_formed E [(''steps'', JList js)] steps)"

lemma check_raw_definition: "check_definition E (raw_definition f) = Inr () \<longleftrightarrow> steps_ok E (wf_steps f)"
  by (simp add: raw_definition_def check_definition_steps steps_ok_def)

lemma check_workflow_raw: "check_definition E (workflow_raw n t ss) = Inr () \<longleftrightarrow> steps_ok E (map JObj ss)"
  by (simp add: workflow_raw_def check_definition_steps steps_ok_def)

lemmas catalogue_simps = catalogue_ok_def unique_paths_def check_raw_definition check_workflow_raw

lemma catalogue_opened [simp]: "catalogue_ok E (opened E' w) = catalogue_ok E w"
  by (simp add: catalogue_ok_def)

lemma catalogue_same_rows: "same_rows w w' \<Longrightarrow> catalogue_ok E w' = catalogue_ok E w"
  by (simp add: same_rows_def catalogue_ok_def)

lemma generate_webhook_path_run:
  "generate_webhook_path E w =
    (Inr (''wh_'' @ take 24 (hex_digits 32 (env_uuid E (w_ticks w)))), w\<lparr>w_ticks := Suc (w_ticks w)\<rparr>)"
  by (simp add: generate_webhook_path_def andthen_def generate_uuid_run)

lemma upd_rows: "w_workflows (upd_workflow i g w) = map (\<lambda>r. if wf_id r = i then g r else r) (w_workflows w)"
  by (simp add: upd_workflow_def)

text \<open>Writing one row: a new one or a changed one, its path free.\<close>

lemma catalogue_add:
  assumes "catalogue_ok E w" "find_workflow w (wf_id f) = None" "steps_ok E (wf_steps f)" "path_ok f"
    "\<not> path_taken (wf_id f) (wf_webhook_path f) w"
  shows "catalogue_ok E (add_workflow f w)"
proof -
  have "wf_id f \<notin> wf_id ` set (w_workflows w)"
    using assms(2) by (auto simp: find_workflow_def find_None_iff)
  moreover have "unique_paths (w_workflows w @ [f])"
    unfolding unique_paths_def
  proof (intro ballI impI)
    fix x y assume "x \<in> set (w_workflows w @ [f])" "y \<in> set (w_workflows w @ [f])"
      and p: "wf_webhook_path x \<noteq> None \<and> wf_webhook_path x = wf_webhook_path y"
    then have "x = f \<or> x \<in> set (w_workflows w)" "y = f \<or> y \<in> set (w_workflows w)" by auto
    with p assms(1,5) show "wf_id x = wf_id y"
      unfolding catalogue_ok_def unique_paths_def path_taken_def by metis
  qed
  ultimately show ?thesis
    using assms(1,3,4) by (simp add: catalogue_ok_def check_raw_definition add_workflow_def)
qed

lemma catalogue_upd:
  assumes "catalogue_ok E w" "wf_id f = i" "steps_ok E (wf_steps f)" "path_ok f"
    "\<not> path_taken (wf_id f) (wf_webhook_path f) w"
  shows "catalogue_ok E (upd_workflow i (\<lambda>_. f) w)"
proof -
  have ids: "map wf_id (map (\<lambda>r. if wf_id r = i then f else r) rows) = map wf_id rows" for rows
    using assms(2) by (induction rows) auto
  then have distinct: "distinct (map wf_id (map (\<lambda>r. if wf_id r = i then f else r) (w_workflows w)))"
    using assms(1) by (simp only: catalogue_ok_def)
  have "unique_paths (map (\<lambda>r. if wf_id r = i then f else r) (w_workflows w))"
    unfolding unique_paths_def
  proof (intro ballI impI)
    fix x y assume xy: "x \<in> set (map (\<lambda>r. if wf_id r = i then f else r) (w_workflows w))"
      "y \<in> set (map (\<lambda>r. if wf_id r = i then f else r) (w_workflows w))"
      and p: "wf_webhook_path x \<noteq> None \<and> wf_webhook_path x = wf_webhook_path y"
    from xy have "x = f \<or> x \<in> set (w_workflows w) \<and> wf_id x \<noteq> i" "y = f \<or> y \<in> set (w_workflows w) \<and> wf_id y \<noteq> i"
      by auto
    with p assms(1,2,5) show "wf_id x = wf_id y"
      unfolding catalogue_ok_def unique_paths_def path_taken_def by metis
  qed
  moreover have "\<forall>x\<in>set (map (\<lambda>r. if wf_id r = i then f else r) (w_workflows w)). steps_ok E (wf_steps x) \<and> path_ok x"
    using assms by (auto simp: catalogue_ok_def check_raw_definition)
  ultimately show ?thesis
    using distinct by (simp only: catalogue_ok_def upd_rows check_raw_definition)
qed

lemma catalogue_delete: "catalogue_ok E w \<Longrightarrow> catalogue_ok E (cascade_delete i w)"
  by (auto simp: catalogue_simps cascade_delete_def Let_def distinct_map_filter)

section \<open>The handlers keep it\<close>

definition fresh_workflows :: "env \<Rightarrow> world \<Rightarrow> bool" where
  "fresh_workflows E w \<longleftrightarrow> (\<forall>n\<ge>w_ticks w. find_workflow w (env_uuid E n) = None)"

lemma same_rows_refl [simp]: "same_rows w w"
  by (simp add: same_rows_def)

lemma same_rows_ticks [simp]: "same_rows w (w'\<lparr>w_ticks := n\<rparr>) = same_rows w w'"
  by (simp add: same_rows_def)

definition other_tables :: "world \<Rightarrow> world \<Rightarrow> bool" where
  "other_tables w w' \<longleftrightarrow> w_tenants w' = w_tenants w \<and> w_executions w' = w_executions w \<and>
    w_steps w' = w_steps w \<and> w_logs w' = w_logs w \<and> w_deliveries w' = w_deliveries w"

text \<open>A creation either raises and writes nothing or appends one row that the parser accepts.\<close>

lemma create_session_cases:
  assumes "in_session E (insert_workflow E T b p) w = (r, w')"
  obtains (failed) e where "r = Inl e" "same_rows w w'"
  | (stored) f i t where "r = Inr f" "f = new_workflow i T b p t" "i = env_uuid E (Suc (w_ticks w))"
      "w_workflows w' = w_workflows w @ [f]" "other_tables w w'" "\<not> path_taken i p w"
proof (cases r)
  case (Inl e)
  with assms that(1) show ?thesis by (simp add: in_session_error)
next
  case (Inr f)
  let ?i = "env_uuid E (Suc (w_ticks w))" let ?t = "env_now E (w_ticks w)"
  from assms Inr have "f = new_workflow ?i T b p ?t" "\<not> path_taken ?i p w"
    "w' = add_workflow f (w\<lparr>w_txn_now := ?t, w_ticks := Suc (Suc (w_ticks w))\<rparr>)"
    by (auto simp: in_session_Inr insert_workflow_def opened_def andthen_def generate_uuid_run commit_workflow_def Let_def
        path_taken_def new_workflow_def split: if_splits)
  with Inr show ?thesis by (intro that(2) [of f ?i ?t]) (simp_all add: add_workflow_def other_tables_def)
qed

lemma create_workflow_cases:
  assumes "create_workflow E T b w = (r, w')" "catalogue_ok E w" "fresh_workflows E w"
  obtains (failed) e where "r = Inl e" "same_rows w w'"
  | (stored) f where "r = Inr (workflow_to_response f)" "wf_tenant_id f = T" "find_workflow w (wf_id f) = None"
      "w_workflows w' = w_workflows w @ [f]" "other_tables w w'" "catalogue_ok E w'"
      "wf_name f = wc_name b" "wf_steps f = map JObj (wc_steps b)" "wf_trigger_type f = wc_trigger_type b"
proof (cases "check_definition E (workflow_raw (wc_name b) (wc_trigger_type b) (wc_steps b))")
  case (Inl e)
  with assms(1) that(1) [of e] show ?thesis by (auto simp: create_workflow_def andthen_def)
next
  case (Inr u)
  then have ok: "steps_ok E (map JObj (wc_steps b))" by (simp add: check_workflow_raw)
  define v where "v = (if wc_trigger_type b = ''webhook'' then w\<lparr>w_ticks := Suc (w_ticks w)\<rparr> else w)"
  define p where "p = (if wc_trigger_type b = ''webhook''
    then Some (''wh_'' @ take 24 (hex_digits 32 (env_uuid E (w_ticks w)))) else None)"
  obtain s v' where s: "in_session E (insert_workflow E T b p) v = (s, v')"
    by (metis surj_pair)
  have r: "w' = v'" "r = (case s of Inl e \<Rightarrow> Inl e | Inr f \<Rightarrow> Inr (workflow_to_response f))"
    using assms(1) s Inr
    by (auto simp: create_workflow_def andthen_def v_def p_def generate_webhook_path_run split: if_splits sum.splits)
  have v: "same_rows w v" "path_taken i p v = path_taken i p w" "find_workflow v j = find_workflow w j" for i j
    by (simp_all add: v_def path_taken_def)
  from s show ?thesis
  proof (cases rule: create_session_cases)
    case (failed e)
    with r v(1) that(1) [of e] show ?thesis by (simp add: same_rows_def)
  next
    case (stored f i t)
    have "find_workflow w (wf_id f) = None"
      using assms(3) stored(2,3) by (simp add: fresh_workflows_def v_def new_workflow_def)
    moreover have "catalogue_ok E (add_workflow f w)"
      using assms(2) calculation ok stored v(2)
      by (intro catalogue_add) (auto simp: new_workflow_def path_ok_def p_def)
    then have "catalogue_ok E w'"
      using stored(4) r(1) v(1) by (simp add: catalogue_ok_def add_workflow_def same_rows_def)
    ultimately show ?thesis
      using stored r v(1) by (intro that(2) [of f]) (auto simp: new_workflow_def same_rows_def other_tables_def)
  qed
qed

lemma apply_fields_simps [simp]:
  "wf_id (apply_fields b f) = wf_id f" "wf_tenant_id (apply_fields b f) = wf_tenant_id f"
  "wf_steps (apply_fields b f) = wf_steps f" "wf_trigger_type (apply_fields b f) = wf_trigger_type f"
  "wf_webhook_path (apply_fields b f) = wf_webhook_path f" "wf_created_at (apply_fields b f) = wf_created_at f"
  "wf_updated_at (apply_fields b f) = wf_updated_at f" "path_ok (apply_fields b f) = path_ok f"
  "trigger_known (apply_fields b f) = trigger_known f"
  by (simp_all add: apply_fields_def Let_def path_ok_def trigger_known_def split: option.split)

lemma apply_steps_Inr:
  assumes "apply_steps E b f = Inr g"
  shows "wf_id g = wf_id f" "wf_tenant_id g = wf_tenant_id f" "wf_created_at g = wf_created_at f"
    "wf_updated_at g = wf_updated_at f" "path_ok g = path_ok f" "trigger_known g = trigger_known f"
    "steps_ok E (wf_steps f) \<Longrightarrow> steps_ok E (wf_steps g)"
  using assms by (auto simp: apply_steps_def sum_bind_Inr_iff path_ok_def trigger_known_def check_workflow_raw split: option.splits)

lemma apply_secret_simps [simp]:
  "wf_id (apply_secret b f) = wf_id f" "wf_tenant_id (apply_secret b f) = wf_tenant_id f"
  "wf_steps (apply_secret b f) = wf_steps f" "path_ok (apply_secret b f) = path_ok f"
  "wf_created_at (apply_secret b f) = wf_created_at f" "wf_updated_at (apply_secret b f) = wf_updated_at f"
  "trigger_known (apply_secret b f) = trigger_known f"
  by (simp_all add: apply_secret_def path_ok_def trigger_known_def split: option.split)

lemma apply_trigger_run:
  obtains g n where "apply_trigger E b f w = (Inr g, w\<lparr>w_ticks := n\<rparr>)"
    "wf_id g = wf_id f" "wf_tenant_id g = wf_tenant_id f" "wf_steps g = wf_steps f"
    "wf_created_at g = wf_created_at f" "wf_updated_at g = wf_updated_at f" "path_ok f \<Longrightarrow> path_ok g"
    "update_request_ok b \<Longrightarrow> trigger_known f \<Longrightarrow> trigger_known g"
proof (cases "wu_trigger_type b")
  case None
  then show ?thesis by (intro that [of f "w_ticks w"]) (simp_all add: apply_trigger_def)
next
  case (Some t)
  let ?p = "''wh_'' @ take 24 (hex_digits 32 (env_uuid E (w_ticks w)))"
  consider (new) "t = ''webhook''" "\<not> has_path f" | (other) "t \<noteq> ''webhook''" | (keep) "t = ''webhook''" "has_path f"
    by blast
  then show ?thesis
  proof cases
    case new
    with Some show ?thesis
      by (intro that [of "f\<lparr>wf_trigger_type := t, wf_webhook_path := Some ?p\<rparr>" "Suc (w_ticks w)"])
        (simp_all add: apply_trigger_def Let_def path_ok_def andthen_def generate_webhook_path_run has_path_def
          update_request_ok_def trigger_known_def)
  next
    case other
    with Some show ?thesis
      by (intro that [of "f\<lparr>wf_trigger_type := t, wf_webhook_path := None\<rparr>" "w_ticks w"])
        (simp_all add: apply_trigger_def Let_def path_ok_def update_request_ok_def trigger_known_def)
  next
    case keep
    then have "path_ok (f\<lparr>wf_trigger_type := t\<rparr>)" if "path_ok f"
      using that by (auto simp: path_ok_def has_path_def split: if_splits)
    with keep Some show ?thesis
      by (intro that [of "f\<lparr>wf_trigger_type := t\<rparr>" "w_ticks w"])
        (simp_all add: apply_trigger_def Let_def has_path_def update_request_ok_def trigger_known_def)
  qed
qed

lemma modify_workflow_cases:
  assumes "in_session E (modify_workflow E T i b) w = (r, w')" "catalogue_ok E w"
  obtains (failed) e where "r = Inl e" "same_rows w w'"
      "\<not> (\<exists>f. find_workflow w i = Some f \<and> wf_tenant_id f = T) \<Longrightarrow> e = not_found ''Workflow''"
  | (stored) f g where "r = Inr g" "find_workflow w i = Some f" "wf_tenant_id f = T" "wf_tenant_id g = T"
      "wf_id g = i" "wf_created_at g = wf_created_at f" "wf_updated_at g = wf_updated_at f"
      "w_workflows w' = w_workflows (upd_workflow i (\<lambda>_. g) w)" "other_tables w w'" "catalogue_ok E w'"
      "update_request_ok b \<Longrightarrow> trigger_known f \<Longrightarrow> trigger_known g"
proof (cases "\<exists>f. find_workflow w i = Some f \<and> wf_tenant_id f = T")
  case False
  then have "get_tenant_workflow i T (opened E w) = (Inl (not_found ''Workflow''), opened E w)"
    by (auto simp: get_tenant_workflow_def split: option.split)
  then have m: "modify_workflow E T i b (opened E w) = (Inl (not_found ''Workflow''), opened E w)"
    by (simp add: modify_workflow_def andthen_def)
  then have "r = Inl (not_found ''Workflow'')"
    using assms(1) by (cases r) (auto simp: in_session_Inr in_session_Inl)
  with assms(1) that(1) show ?thesis by (simp add: in_session_error)
next
  case True
  then obtain f where f: "find_workflow w i = Some f" "wf_tenant_id f = T" by blast
  show ?thesis
  proof (cases r)
    case (Inl e)
    with assms(1) True that(1) show ?thesis by (simp add: in_session_error)
  next
    case (Inr g)
    with assms(1) have run: "modify_workflow E T i b (opened E w) = (Inr g, w')" by (simp add: in_session_Inr)
    then obtain h where h: "apply_steps E b (apply_fields b f) = Inr h"
      using f by (auto simp: modify_workflow_def get_tenant_workflow_def elim!: andthen_InrE)
    obtain k n where k: "apply_trigger E b (apply_secret b h) (opened E w) = (Inr k, (opened E w)\<lparr>w_ticks := n\<rparr>)"
      "wf_id k = wf_id h" "wf_tenant_id k = wf_tenant_id h" "wf_steps k = wf_steps h"
      "wf_created_at k = wf_created_at h" "wf_updated_at k = wf_updated_at h" "path_ok h \<Longrightarrow> path_ok k"
      "update_request_ok b \<Longrightarrow> trigger_known h \<Longrightarrow> trigger_known k"
      using apply_trigger_run [of E b "apply_secret b h" "opened E w"] unfolding apply_secret_simps by blast
    have commit: "commit_workflow k (upd_workflow i (\<lambda>_. k)) ((opened E w)\<lparr>w_ticks := n\<rparr>) = (Inr g, w')"
      using run f h k(1) by (simp add: modify_workflow_def get_tenant_workflow_def andthen_def)
    then have g: "g = k" "\<not> path_taken (wf_id k) (wf_webhook_path k) w"
      "w' = upd_workflow i (\<lambda>_. k) ((opened E w)\<lparr>w_ticks := n\<rparr>)"
      by (auto simp: commit_workflow_def path_taken_def split: if_splits)
    have id: "wf_id f = i" by (rule wft.find_key [OF f(1)])
    have "f \<in> set (w_workflows w)" using f(1) by (auto simp: find_workflow_def dest: find_SomeD)
    then have ok: "steps_ok E (wf_steps f)" "path_ok f"
      using assms(2) by (auto simp: catalogue_ok_def check_raw_definition)
    have h': "wf_id h = wf_id f" "wf_tenant_id h = wf_tenant_id f" "wf_created_at h = wf_created_at f"
      "wf_updated_at h = wf_updated_at f" "path_ok h" "steps_ok E (wf_steps h)"
      "trigger_known h = trigger_known f"
      using apply_steps_Inr [OF h] ok by simp_all
    have "catalogue_ok E (upd_workflow i (\<lambda>_. k) w)"
      using assms(2) g(2) k h' id by (intro catalogue_upd) simp_all
    then have "catalogue_ok E w'" using g(3) by (simp add: catalogue_ok_def upd_rows)
    with Inr f g k h' id show ?thesis
      by (intro that(2) [of g f]) (simp_all add: upd_rows other_tables_def upd_workflow_def opened_def)
  qed
qed

lemma update_workflow_run:
  "update_workflow E T i b (w, c) =
    (case in_session E (modify_workflow E T i b) w of
       (Inl e, w') \<Rightarrow> (Inl e, (w', c))
     | (Inr g, w') \<Rightarrow> (Inr (workflow_to_response g), (w', invalidate (wf_id g) c)))"
  by (simp add: update_workflow_def andthen_def on_database_def on_cache_def split: prod.split sum.split)

lemma find_rows: "find_workflow w' i = find_workflow w i" if "w_workflows w' = w_workflows w"
  using that by (simp add: find_workflow_def)

lemma update_workflow_cases:
  assumes "update_workflow E T i b (w, c) = (r, (w', c'))" "catalogue_ok E w"
  obtains (failed) e where "r = Inl e" "same_rows w w'" "c' = c"
      "\<not> (\<exists>f. find_workflow w i = Some f \<and> wf_tenant_id f = T) \<Longrightarrow> e = not_found ''Workflow''"
  | (stored) f g where "r = Inr (workflow_to_response g)" "find_workflow w i = Some f" "wf_tenant_id f = T"
      "find_workflow w' i = Some g" "wf_tenant_id g = T" "wf_id g = i" "wf_created_at g = wf_created_at f"
      "wf_updated_at g = wf_updated_at f" "\<forall>j. j \<noteq> i \<longrightarrow> find_workflow w' j = find_workflow w j"
      "other_tables w w'" "catalogue_ok E w'" "c' = invalidate i c"
      "update_request_ok b \<Longrightarrow> trigger_known f \<Longrightarrow> trigger_known g"
proof -
  obtain s v where s: "in_session E (modify_workflow E T i b) w = (s, v)" by (metis surj_pair)
  from s assms(2) show ?thesis
  proof (cases rule: modify_workflow_cases)
    case (failed e)
    from failed(1,2) assms(1) s have "r = Inl e" "same_rows w w'" "c' = c"
      by (auto simp: update_workflow_run)
    then show ?thesis using failed(3) by (rule that(1))
  next
    case (stored f g)
    let ?u = "upd_workflow i (\<lambda>r. if wf_id r = i then g else r) w"
    have "w_workflows v = w_workflows ?u" using stored(8) by (simp add: upd_rows)
    then have rows: "find_workflow v j = find_workflow ?u j" for j by (rule find_rows)
    have key: "wf_id (if wf_id r = i then g else r) = wf_id r" for r using stored(5) by simp
    have id: "wf_id f = i" by (rule wft.find_key [OF stored(2)])
    have "find_workflow v i = Some g"
      using rows wft.find_upd_same [of "\<lambda>r. if wf_id r = i then g else r", OF key stored(2)] id by simp
    moreover have "\<forall>j. j \<noteq> i \<longrightarrow> find_workflow v j = find_workflow w j"
      using rows wft.find_upd_other [of "\<lambda>r. if wf_id r = i then g else r", OF key] by simp
    ultimately show ?thesis
      using assms(1) s stored by (intro that(2) [of g f]) (simp_all add: update_workflow_run)
  qed
qed

lemma delete_workflow_run:
  assumes "find_workflow w i = Some f" "wf_tenant_id f = T"
  shows "delete_workflow E T i (w, c) = (Inr True, (cascade_delete i (opened E w), invalidate i c))"
  using assms
  by (simp add: delete_workflow_def andthen_def on_database_def on_cache_def in_session_def opened_def [symmetric]
      get_tenant_workflow_def)

lemma delete_workflow_rejected:
  assumes "\<not> (\<exists>f. find_workflow w i = Some f \<and> wf_tenant_id f = T)"
  shows "\<exists>w'. delete_workflow E T i (w, c) = (Inl (not_found ''Workflow''), (w', c)) \<and> same_rows w w'"
proof -
  have "get_tenant_workflow i T (opened E w) = (Inl (not_found ''Workflow''), opened E w)"
    using assms by (auto simp: get_tenant_workflow_def split: option.split)
  then show ?thesis
    by (simp add: delete_workflow_def andthen_def on_database_def in_session_def opened_def [symmetric] same_rows_def)
qed

text \<open>No row refers to a row that is not there.\<close>

definition references_ok :: "world \<Rightarrow> bool" where
  "references_ok w \<longleftrightarrow>
    (\<forall>x\<in>set (w_executions w). ex_workflow_id x \<in> wf_id ` set (w_workflows w) \<and>
      (case ex_replayed_from x of None \<Rightarrow> True | Some j \<Rightarrow> j \<in> ex_id ` set (w_executions w))) \<and>
    (\<forall>s\<in>set (w_steps w). se_execution_id s \<in> ex_id ` set (w_executions w)) \<and>
    (\<forall>l\<in>set (w_logs w). lg_execution_id l \<in> ex_id ` set (w_executions w)) \<and>
    (\<forall>d\<in>set (w_deliveries w). wd_workflow_id d \<in> wf_id ` set (w_workflows w) \<and>
      (case wd_execution_id d of None \<Rightarrow> True | Some j \<Rightarrow> j \<in> ex_id ` set (w_executions w)))"

lemma cascade_delete_execution_ids:
  "distinct (map ex_id (w_executions w)) \<Longrightarrow>
    ex_id ` set (w_executions (cascade_delete i w)) =
      ex_id ` set (w_executions w) - ex_id ` {x \<in> set (w_executions w). ex_workflow_id x = i}"
  by (auto simp: cascade_delete_def Let_def image_image distinct_map inj_on_def)

lemma cascade_delete_workflow_ids:
  "wf_id ` set (w_workflows (cascade_delete i w)) = wf_id ` set (w_workflows w) - {i}"
  by (auto simp: cascade_delete_def Let_def)

lemma cascade_delete_references:
  assumes "references_ok w" "distinct (map ex_id (w_executions w))"
  shows "references_ok (cascade_delete i w)"
proof -
  let ?v = "cascade_delete i w"
  let ?gone = "ex_id ` {x \<in> set (w_executions w). ex_workflow_id x = i}"
  have gone: "set (map ex_id (filter (\<lambda>x. ex_workflow_id x = i) (w_executions w))) = ?gone" by auto
  have ids: "wf_id ` set (w_workflows ?v) = wf_id ` set (w_workflows w) - {i}"
    "ex_id ` set (w_executions ?v) = ex_id ` set (w_executions w) - ?gone"
    by (rule cascade_delete_workflow_ids) (rule cascade_delete_execution_ids [OF assms(2)])
  have 1: "\<forall>x\<in>set (w_executions ?v). ex_workflow_id x \<in> wf_id ` set (w_workflows w) - {i} \<and>
      (case ex_replayed_from x of None \<Rightarrow> True | Some j \<Rightarrow> j \<in> ex_id ` set (w_executions w) - ?gone)"
    using assms(1) unfolding cascade_delete_def Let_def references_ok_def gone by (auto split: option.splits)
  have 2: "\<forall>s\<in>set (w_steps ?v). se_execution_id s \<in> ex_id ` set (w_executions w) - ?gone"
    using assms(1) unfolding cascade_delete_def Let_def references_ok_def gone by auto
  have 3: "\<forall>l\<in>set (w_logs ?v). lg_execution_id l \<in> ex_id ` set (w_executions w) - ?gone"
    using assms(1) unfolding cascade_delete_def Let_def references_ok_def gone by auto
  have 4: "\<forall>d\<in>set (w_deliveries ?v). wd_workflow_id d \<in> wf_id ` set (w_workflows w) - {i} \<and>
      (case wd_execution_id d of None \<Rightarrow> True | Some j \<Rightarrow> j \<in> ex_id ` set (w_executions w) - ?gone)"
    using assms(1) unfolding cascade_delete_def Let_def references_ok_def gone by (auto split: option.splits)
  from 1 2 3 4 show ?thesis unfolding references_ok_def [of ?v] ids by blast
qed

text \<open>Each handler keeps the catalogue in order, whether it succeeds or not.\<close>

lemma create_keeps_catalogue:
  assumes "catalogue_ok E w" "fresh_workflows E w"
  shows "catalogue_ok E (snd (create_workflow E T b w))"
proof -
  obtain r w' where run: "create_workflow E T b w = (r, w')" by (metis surj_pair)
  from run assms show ?thesis
    by (cases rule: create_workflow_cases) (use run assms(1) in \<open>simp_all add: catalogue_same_rows\<close>)
qed

lemma update_keeps_catalogue:
  assumes "catalogue_ok E w"
  shows "catalogue_ok E (fst (snd (update_workflow E T i u (w, c))))"
proof -
  obtain r w' c' where run: "update_workflow E T i u (w, c) = (r, (w', c'))" by (metis surj_pair)
  from run assms show ?thesis
    by (cases rule: update_workflow_cases) (use run assms in \<open>simp_all add: catalogue_same_rows\<close>)
qed

lemma delete_keeps_catalogue:
  assumes "catalogue_ok E w"
  shows "catalogue_ok E (fst (snd (delete_workflow E T i (w, c))))"
proof (cases "\<exists>f. find_workflow w i = Some f \<and> wf_tenant_id f = T")
  case True
  then show ?thesis using assms by (auto simp: delete_workflow_run catalogue_delete)
next
  case False
  from delete_workflow_rejected [OF this, of E c] assms show ?thesis by (auto simp: catalogue_same_rows)
qed

text \<open>Validated requests keep the triggers known.\<close>

lemma find_workflow_in: "distinct (map wf_id (w_workflows w)) \<Longrightarrow> f \<in> set (w_workflows w) \<Longrightarrow> find_workflow w (wf_id f) = Some f"
  by (simp add: find_workflow_def find_distinct)

lemma create_keeps_triggers:
  assumes "catalogue_ok E w" "fresh_workflows E w" "triggers_known w" "create_request_ok b"
  shows "triggers_known (snd (create_workflow E T b w))"
proof -
  obtain r w' where run: "create_workflow E T b w = (r, w')" by (metis surj_pair)
  then show ?thesis
    by (cases rule: create_workflow_cases)
      (use run assms in \<open>auto simp: triggers_known_def trigger_known_def create_request_ok_def same_rows_def\<close>)
qed

lemma update_keeps_triggers:
  assumes "catalogue_ok E w" "triggers_known w" "update_request_ok u"
  shows "triggers_known (fst (snd (update_workflow E T i u (w, c))))"
proof -
  obtain r w' c' where run: "update_workflow E T i u (w, c) = (r, (w', c'))" by (metis surj_pair)
  from this assms(1) show ?thesis
  proof (cases rule: update_workflow_cases)
    case (failed e)
    with run assms(2) show ?thesis by (simp add: triggers_known_def same_rows_def)
  next
    case (stored f g)
    have "trigger_known x" if "x \<in> set (w_workflows w')" for x
    proof (cases "wf_id x = i")
      case True
      have "find_workflow w' (wf_id x) = Some x"
        using that stored(11) by (intro find_workflow_in) (simp_all add: catalogue_ok_def)
      with True stored(4) have "x = g" by simp
      then show ?thesis using stored(2,13) assms(2,3) by (auto simp: triggers_known_def find_workflow_def dest: find_SomeD)
    next
      case False
      have "find_workflow w' (wf_id x) = Some x"
        using that stored(11) by (intro find_workflow_in) (simp_all add: catalogue_ok_def)
      with False stored(9) have "find_workflow w (wf_id x) = Some x" by simp
      then show ?thesis using assms(2) by (auto simp: triggers_known_def find_workflow_def dest: find_SomeD)
    qed
    then show ?thesis using run by (simp add: triggers_known_def)
  qed
qed

lemma delete_keeps_triggers:
  assumes "triggers_known w"
  shows "triggers_known (fst (snd (delete_workflow E T i (w, c))))"
proof (cases "\<exists>f. find_workflow w i = Some f \<and> wf_tenant_id f = T")
  case True
  then show ?thesis using assms by (auto simp: delete_workflow_run triggers_known_def cascade_delete_def Let_def)
next
  case False
  then have "\<nexists>f. find_workflow w i = Some f \<and> wf_tenant_id f = T" by blast
  from delete_workflow_rejected [OF this, of E c] assms show ?thesis by (auto simp: triggers_known_def same_rows_def)
qed

section \<open>Listing\<close>

definition workflow_keys_ok :: "world \<Rightarrow> bool" where
  "workflow_keys_ok w \<longleftrightarrow> distinct (map wf_id (w_workflows w))"

interpretation wfr: keyed_rows wf_created_at wf_id "matching_workflows t f" workflow_keys_ok
  by unfold_locales (simp add: workflow_keys_ok_def matching_workflows_def distinct_map_filter)

end
