(* ===== verification/Tenants.thy ===== *)
theory Tenants
  imports ExecutionApi
begin

text \<open>
  Tenants and the request middleware: registration and key validation
  (\<open>src/tenants/service.py\<close>, \<open>src/api/tenants.py\<close>), the authentication middleware
  (\<open>src/api/middleware/auth.py\<close>), the rate limiter (\<open>src/api/middleware/rate_limit.py\<close>) and
  the error responses (\<open>src/lib/utils.py\<close>, \<open>src/api/middleware/errors.py\<close>). Password hashing
  is the environment's \<open>env_hashpw\<close> and \<open>env_checkpw\<close>; the counter and its remaining time are
  what the Redis server answers.
\<close>

section \<open>Error responses\<close>

record reply =
  rp_status :: int
  rp_headers :: "(string \<times> string) list"
  rp_content :: json

definition create_error_response :: "string \<Rightarrow> string \<Rightarrow> json list \<Rightarrow> json" where
  "create_error_response code message details =
    JObj [(''error'', JObj [(''code'', JStr code), (''message'', JStr message), (''details'', JList details)])]"

definition json_reply :: "int \<Rightarrow> json \<Rightarrow> reply" where
  "json_reply status content = \<lparr>rp_status = status, rp_headers = [], rp_content = content\<rparr>"

definition app_error_handler :: "string \<Rightarrow> string \<Rightarrow> int \<Rightarrow> json list \<Rightarrow> reply" where
  "app_error_handler code message status details =
    json_reply status (create_error_response code message details)"

definition code_map :: "(int \<times> string) list" where
  "code_map = [(400, ''BAD_REQUEST''), (401, ''UNAUTHORIZED''), (403, ''FORBIDDEN''), (404, ''NOT_FOUND''),
     (405, ''METHOD_NOT_ALLOWED''), (409, ''CONFLICT''), (422, ''VALIDATION_ERROR''),
     (429, ''RATE_LIMIT_EXCEEDED''), (500, ''INTERNAL_ERROR'')]"

definition http_exception_handler :: "int \<Rightarrow> string \<Rightarrow> reply" where
  "http_exception_handler status detail =
    json_reply status (create_error_response
      (case map_of code_map status of Some c \<Rightarrow> c | None \<Rightarrow> ''HTTP_ERROR'') detail [])"

definition unhandled_exception_handler :: "exn \<Rightarrow> reply" where
  "unhandled_exception_handler exc =
    json_reply 500 (create_error_response ''INTERNAL_ERROR'' ''An unexpected error occurred.'' [])"

fun error_reply :: "exn \<Rightarrow> reply" where
  "error_reply (AppError c m s ds) = app_error_handler c m s ds"
| "error_reply (PyError c m) = unhandled_exception_handler (PyError c m)"

section \<open>Registration and keys\<close>

definition API_KEY_PREFIX_LABEL :: string where
  "API_KEY_PREFIX_LABEL = ''wae_live_''"

definition API_KEY_LOOKUP_PREFIX_LENGTH :: nat where
  "API_KEY_LOOKUP_PREFIX_LENGTH = 17"

definition generate_api_key :: "env \<Rightarrow> (world, string) proc" where
  "generate_api_key E w =
    (Inr (API_KEY_PREFIX_LABEL @ env_token_hex E (w_ticks w)), w\<lparr>w_ticks := Suc (w_ticks w)\<rparr>)"

definition hash_key :: "env \<Rightarrow> string \<Rightarrow> (world, string) proc" where
  "hash_key E api_key w = (Inr (env_hashpw E (w_ticks w) api_key), w\<lparr>w_ticks := Suc (w_ticks w)\<rparr>)"

record tenant_with_key =
  tk_id :: uuid
  tk_name :: string
  tk_api_key :: string

definition new_tenant :: "uuid \<Rightarrow> string \<Rightarrow> string \<Rightarrow> string \<Rightarrow> time \<Rightarrow> tenant" where
  "new_tenant i name key_hash prefix now = \<lparr>tn_id = i, tn_name = name, tn_api_key_hash = key_hash,
     tn_api_key_prefix = prefix, tn_is_active = True, tn_created_at = now, tn_updated_at = now\<rparr>"

text \<open>The column \<open>api_key_prefix\<close> is unique: the flush raises when a tenant has the prefix.\<close>

definition insert_tenant :: "tenant \<Rightarrow> (world, unit) proc" where
  "insert_tenant tenant w =
    (if \<exists>t\<in>set (w_tenants w). tn_api_key_prefix t = tn_api_key_prefix tenant then raise integrity_error w
     else ret () (w\<lparr>w_tenants := w_tenants w @ [tenant]\<rparr>))"

definition register_tenant :: "env \<Rightarrow> string \<Rightarrow> (world, tenant_with_key) proc" where
  "register_tenant E name =
    andthen (generate_api_key E) (\<lambda>api_key.
    andthen (hash_key E api_key) (\<lambda>api_key_hash.
    andthen (generate_uuid E) (\<lambda>i.
    andthen (\<lambda>w. insert_tenant
      (new_tenant i name api_key_hash (take API_KEY_LOOKUP_PREFIX_LENGTH api_key) (w_txn_now w)) w) (\<lambda>_.
    ret \<lparr>tk_id = i, tk_name = name, tk_api_key = api_key\<rparr>))))"

text \<open>The request model strips the name and wants 1 to 100 characters.\<close>

definition tenant_create :: "string \<Rightarrow> string option" where
  "tenant_create v =
    (let name = py_strip v in if 1 \<le> length name \<and> length name \<le> 100 then Some name else None)"

definition register_tenant_endpoint :: "env \<Rightarrow> string \<Rightarrow> (world, tenant_with_key) proc" where
  "register_tenant_endpoint E name =
    (if \<not> self_registration_enabled (env_settings E)
     then raise (AppError ''REGISTRATION_DISABLED'' ''Tenant self-registration is disabled.'' 403 [])
     else in_session E (register_tenant E name))"

record tenant_response =
  tr_id :: uuid
  tr_name :: string
  tr_is_active :: bool
  tr_created_at :: time

record tenant_context =
  tc_id :: uuid
  tc_name :: string
  tc_is_active :: bool

definition invalid_key :: exn where
  "invalid_key = AppError ''INVALID_API_KEY'' ''Invalid or missing API key.'' 401 []"

text \<open>\<open>scalar_one_or_none\<close> raises when the query has several rows.\<close>

definition scalar_one_or_none :: "'r list \<Rightarrow> exn + 'r option" where
  "scalar_one_or_none rows =
    (case rows of [] \<Rightarrow> Inr None | [r] \<Rightarrow> Inr (Some r)
     | _ \<Rightarrow> Inl (PyError ''MultipleResultsFound'' ''Multiple rows were found when one or none was required''))"

definition validate_api_key :: "env \<Rightarrow> string \<Rightarrow> world \<Rightarrow> exn + tenant_context" where
  "validate_api_key E api_key w =
    (if length api_key < API_KEY_LOOKUP_PREFIX_LENGTH then Inl invalid_key
     else
       let prefix = take API_KEY_LOOKUP_PREFIX_LENGTH api_key
       in sum_bind (scalar_one_or_none (filter (\<lambda>t. tn_api_key_prefix t = prefix) (w_tenants w))) (\<lambda>row.
          case row of
            None \<Rightarrow> Inl invalid_key
          | Some tenant \<Rightarrow>
              if \<not> env_checkpw E api_key (tn_api_key_hash tenant) then Inl invalid_key
              else if \<not> tn_is_active tenant
              then Inl (AppError ''TENANT_DISABLED'' ''Tenant account is disabled.'' 403 [])
              else Inr \<lparr>tc_id = tn_id tenant, tc_name = tn_name tenant, tc_is_active = tn_is_active tenant\<rparr>))"

definition get_current_tenant :: "tenant_context \<Rightarrow> world \<Rightarrow> exn + tenant_response" where
  "get_current_tenant ctx w =
    sum_bind (scalar_one_or_none (filter (\<lambda>t. tn_id t = tc_id ctx) (w_tenants w))) (\<lambda>row.
      case row of
        None \<Rightarrow> Inl (PyError ''NoResultFound'' ''No row was found when one was required'')
      | Some t \<Rightarrow> Inr \<lparr>tr_id = tn_id t, tr_name = tn_name t, tr_is_active = tn_is_active t,
                        tr_created_at = tn_created_at t\<rparr>)"

definition check_tenants_exist :: "world \<Rightarrow> bool" where
  "check_tenants_exist w = (0 < length (w_tenants w))"

section \<open>Authentication\<close>

definition PUBLIC_PATH_PREFIXES :: "string list" where
  "PUBLIC_PATH_PREFIXES = [''/api/health'', ''/webhooks/'', ''/api/tenants/register'', ''/docs'',
     ''/openapi.json'', ''/redoc'']"

definition is_public_path :: "string \<Rightarrow> bool" where
  "is_public_path url_path = (\<exists>p\<in>set PUBLIC_PATH_PREFIXES. starts_with url_path p)"

text \<open>
  The continuation gets the tenant context the middleware stored in the request, \<open>None\<close> on a
  public path; what it raises is raised. The header is \<open>''\<close> when it is missing. \<open>db\<close> is the
  database in the state of the application.
\<close>

definition auth_dispatch :: "env \<Rightarrow> ('s \<Rightarrow> world) \<Rightarrow> string \<Rightarrow> string \<Rightarrow>
    (tenant_context option \<Rightarrow> ('s, reply) proc) \<Rightarrow> ('s, reply) proc" where
  "auth_dispatch E db url_path api_key call_next s =
    (if is_public_path url_path then call_next None s
     else if api_key = '''' then
       ret (json_reply 401 (create_error_response ''INVALID_API_KEY'' ''Missing X-API-Key header.'' [])) s
     else case validate_api_key E api_key (db s) of
       Inr tenant_ctx \<Rightarrow> call_next (Some tenant_ctx) s
     | Inl (AppError c m st ds) \<Rightarrow> ret (json_reply st (create_error_response c m ds)) s
     | Inl (PyError c m) \<Rightarrow>
         ret (json_reply 500 (create_error_response ''INTERNAL_ERROR'' ''An unexpected error occurred.'' [])) s)"

section \<open>Rate limits\<close>

definition ROUTE_LIMITS :: "(string \<times> string \<times> int) list" where
  "ROUTE_LIMITS =
    [(''POST'', ''/api/tenants/register'', 5),
     (''POST'', ''/api/workflows'', 20),
     (''PUT'', ''/api/workflows/'', 20),
     (''DELETE'', ''/api/workflows/'', 20),
     (''POST'', ''/api/executions/'', 20),
     (''POST'', ''/api/workflows/'', 30),
     (''GET'', ''/api/executions/'', 100),
     (''GET'', ''/api/metrics/'', 30),
     (''GET'', ''/api/'', 100),
     (''POST'', ''/api/'', 100),
     (''POST'', ''/webhooks/'', 100)]"

definition DEFAULT_LIMIT :: int where
  "DEFAULT_LIMIT = 100"

definition WINDOW_SECONDS :: int where
  "WINDOW_SECONDS = 60"

definition get_rate_limit :: "string \<Rightarrow> string \<Rightarrow> int" where
  "get_rate_limit method url_path =
    (case List.find (\<lambda>(m, p, limit). method = m \<and> starts_with url_path p) ROUTE_LIMITS of
       Some (m, p, limit) \<Rightarrow> limit
     | None \<Rightarrow> DEFAULT_LIMIT)"

definition with_headers :: "(string \<times> string) list \<Rightarrow> reply \<Rightarrow> reply" where
  "with_headers hs r = r\<lparr>rp_headers := fold (\<lambda>(k, v). dict_set k v) hs (rp_headers r)\<rparr>"

text \<open>
  The Redis client is a parameter: the three commands, each answering a number or raising, on
  the server's state \<open>'r\<close>. \<open>now\<close> is \<open>int(time.time())\<close>.
\<close>

record 'r redis_ops =
  rd_incr :: "string \<Rightarrow> ('r, int) proc"
  rd_expire :: "string \<Rightarrow> int \<Rightarrow> ('r, int) proc"
  rd_ttl :: "string \<Rightarrow> ('r, int) proc"

definition redis_key :: "string \<Rightarrow> string \<Rightarrow> string \<Rightarrow> string" where
  "redis_key client_key method url_path =
    ''ratelimit:'' @ client_key @ '':'' @ method @ '':'' @ url_path"

definition get_client_key :: "string option \<Rightarrow> string" where
  "get_client_key client = (case client of Some h \<Rightarrow> h | None \<Rightarrow> ''unknown'')"

definition count_request :: "'r redis_ops \<Rightarrow> string \<Rightarrow> ('r, int \<times> int) proc" where
  "count_request R key =
    andthen (rd_incr R key) (\<lambda>current.
    andthen (if current = 1 then rd_expire R key WINDOW_SECONDS else ret 0) (\<lambda>_.
    andthen (rd_ttl R key) (\<lambda>ttl.
    ret (current, if ttl < 0 then WINDOW_SECONDS else ttl))))"

definition limit_headers :: "int \<Rightarrow> int \<Rightarrow> int \<Rightarrow> (string \<times> string) list" where
  "limit_headers limit rest reset_at =
    [(''X-RateLimit-Limit'', string_of_int limit), (''X-RateLimit-Remaining'', string_of_int rest),
     (''X-RateLimit-Reset'', string_of_int reset_at)]"

definition rate_limit_dispatch :: "'r redis_ops \<Rightarrow> string option \<Rightarrow> string \<Rightarrow> string \<Rightarrow> int \<Rightarrow>
    ('w, reply) proc \<Rightarrow> ('r \<times> 'w, reply) proc" where
  "rate_limit_dispatch R client method url_path now call_next s =
    (let limit = get_rate_limit method url_path
     in case count_request R (redis_key (get_client_key client) method url_path) (fst s) of
       (Inl e, r') \<Rightarrow>
         (case call_next (snd s) of (response, w') \<Rightarrow>
            (map_sum id (with_headers (limit_headers limit limit (now + WINDOW_SECONDS))) response, (r', w')))
     | (Inr (current, ttl), r') \<Rightarrow>
         if limit < current
         then (Inr (with_headers (limit_headers limit 0 (now + ttl) @ [(''Retry-After'', string_of_int ttl)])
            (json_reply 429 (create_error_response ''RATE_LIMIT_EXCEEDED''
              ''Too many requests. Please try again later.'' []))), (r', snd s))
         else
           (case call_next (snd s) of (response, w') \<Rightarrow>
              (map_sum id (with_headers (limit_headers limit (max 0 (limit - current)) (now + ttl))) response, (r', w'))))"

section \<open>What they guarantee\<close>

lemma register_tenant_cases:
  assumes "register_tenant E name w = (r, w')"
  obtains (taken) t where "r = Inl integrity_error" "w' = w\<lparr>w_ticks := w_ticks w + 3\<rparr>" "t \<in> set (w_tenants w)"
      "tn_api_key_prefix t = take API_KEY_LOOKUP_PREFIX_LENGTH (API_KEY_PREFIX_LABEL @ env_token_hex E (w_ticks w))"
  | (added) key t where "key = API_KEY_PREFIX_LABEL @ env_token_hex E (w_ticks w)"
      "t = new_tenant (env_uuid E (w_ticks w + 2)) name (env_hashpw E (w_ticks w + 1) key)
        (take API_KEY_LOOKUP_PREFIX_LENGTH key) (w_txn_now w)"
      "\<forall>u\<in>set (w_tenants w). tn_api_key_prefix u \<noteq> tn_api_key_prefix t"
      "r = Inr \<lparr>tk_id = tn_id t, tk_name = name, tk_api_key = key\<rparr>"
      "w' = w\<lparr>w_ticks := w_ticks w + 3, w_tenants := w_tenants w @ [t]\<rparr>"
  using assms
  by (auto simp: register_tenant_def andthen_def generate_api_key_def hash_key_def generate_uuid_def insert_tenant_def
      new_tenant_def numeral_3_eq_3 split: if_splits)

lemma validate_api_key_Inr:
  "validate_api_key E k w = Inr c \<longleftrightarrow>
    API_KEY_LOOKUP_PREFIX_LENGTH \<le> length k \<and>
    (\<exists>t. filter (\<lambda>t. tn_api_key_prefix t = take API_KEY_LOOKUP_PREFIX_LENGTH k) (w_tenants w) = [t] \<and>
      env_checkpw E k (tn_api_key_hash t) \<and> tn_is_active t \<and>
      c = \<lparr>tc_id = tn_id t, tc_name = tn_name t, tc_is_active = True\<rparr>)"
  by (auto simp: validate_api_key_def Let_def sum_bind_Inr_iff scalar_one_or_none_def
      split: list.splits option.splits if_splits)

lemma validate_api_key_Inl:
  "validate_api_key E k w = Inl e \<Longrightarrow>
    e = invalid_key \<or> e = AppError ''TENANT_DISABLED'' ''Tenant account is disabled.'' 403 [] \<or>
    (\<exists>m. e = PyError ''MultipleResultsFound'' m)"
  by (auto simp: validate_api_key_def Let_def sum_bind_Inl_iff scalar_one_or_none_def
      split: list.splits option.splits if_splits)

lemma auth_dispatch_refused:
  assumes "\<not> is_public_path url_path" "\<And>c. validate_api_key E k (db s) \<noteq> Inr c"
  obtains st body where "auth_dispatch E db url_path k call_next s = (Inr (json_reply st body), s)" "st \<in> {401, 403, 500}"
proof (cases "k = ''''")
  case True
  then show ?thesis using assms(1) that by (simp add: auth_dispatch_def)
next
  case False
  obtain e where e: "validate_api_key E k (db s) = Inl e"
    using assms(2) by (metis sum.exhaust)
  from validate_api_key_Inl [OF e] False e assms(1) show ?thesis
    by (elim disjE) (auto simp: auth_dispatch_def invalid_key_def intro: that)
qed

lemma auth_dispatch_accepted:
  "validate_api_key E k (db s) = Inr c \<Longrightarrow> \<not> is_public_path url_path \<Longrightarrow>
    auth_dispatch E db url_path k call_next s = call_next (Some c) s"
  by (auto simp: auth_dispatch_def validate_api_key_def API_KEY_LOOKUP_PREFIX_LENGTH_def)

lemma get_rate_limit_workflows:
  "starts_with url_path ''/api/workflows/'' \<Longrightarrow> get_rate_limit ''POST'' url_path = 20"
  by (auto simp: get_rate_limit_def ROUTE_LIMITS_def starts_with_iff)

lemma rate_limit_exceeded:
  assumes "count_request R (redis_key (get_client_key client) m p) r = (Inr (current, ttl), r')" "get_rate_limit m p < current"
  shows "\<exists>reply. rate_limit_dispatch R client m p now call_next (r, w) = (Inr reply, (r', w)) \<and> rp_status reply = 429"
  using assms by (simp add: rate_limit_dispatch_def Let_def with_headers_def json_reply_def)

lemma rate_limit_allowed:
  assumes "\<And>current ttl r'. count_request R (redis_key (get_client_key client) m p) r = (Inr (current, ttl), r') \<Longrightarrow>
      current \<le> get_rate_limit m p"
  obtains hs r' where "\<And>call_next w. rate_limit_dispatch R client m p now call_next (r, w) =
    (case call_next w of (response, w') \<Rightarrow> (map_sum id (with_headers hs) response, (r', w')))"
proof (cases "count_request R (redis_key (get_client_key client) m p) r")
  case (Pair res r')
  show ?thesis
  proof (cases res)
    case (Inl e)
    then show ?thesis using Pair that by (simp add: rate_limit_dispatch_def Let_def)
  next
    case (Inr c)
    obtain current ttl where c: "c = (current, ttl)" by (cases c)
    have "\<not> get_rate_limit m p < current" using assms Pair Inr c by force
    then show ?thesis using Pair Inr c that by (simp add: rate_limit_dispatch_def Let_def)
  qed
qed

end
