(* ===== verification/Webhooks.thy ===== *)
theory Webhooks
  imports Workflows Tenants
begin

text \<open>
  Inbound webhooks (\<open>src/triggers/webhook.py\<close>, \<open>src/api/webhooks.py\<close>): the workflow is found in
  the cache or by its path, the signature is checked against the shared secret, the delivery
  is logged, and an execution starts. The message digest is the environment's
  \<open>env_hmac_sha256\<close>; \<open>loads\<close> is \<open>json.loads\<close>, \<open>None\<close> where it raises. The times are two
  readings of the monotonic clock.
\<close>

section \<open>Requests\<close>

record webhook_request =
  wq_method :: string
  wq_headers :: "(string \<times> string) list"
  wq_body :: string
  wq_client :: "string option"

text \<open>\<open>dict(request.headers)\<close>: of a repeated header the first value.\<close>

definition request_headers :: "webhook_request \<Rightarrow> dict" where
  "request_headers rq =
    dict_update [] (map (\<lambda>(k, v). (k, JStr (the (map_of (wq_headers rq) k)))) (wq_headers rq))"

section \<open>Lookup, signature, log\<close>

definition path_not_found :: exn where
  "path_not_found = AppError ''NOT_FOUND'' ''Webhook path not found.'' 404 []"

definition lookup_workflow_by_path :: "string \<Rightarrow> world \<Rightarrow> exn + workflow" where
  "lookup_workflow_by_path webhook_path w =
    sum_bind (scalar_one_or_none (filter (\<lambda>f. wf_webhook_path f = Some webhook_path) (w_workflows w))) (\<lambda>row.
      case row of None \<Rightarrow> Inl path_not_found | Some flow \<Rightarrow> Inr flow)"

definition invalid_signature :: "string \<Rightarrow> exn" where
  "invalid_signature m = AppError ''INVALID_SIGNATURE'' m 401 []"

text \<open>\<open>hmac.compare_digest\<close> takes ASCII texts only.\<close>

definition compare_digest :: "string \<Rightarrow> string \<Rightarrow> exn + bool" where
  "compare_digest a b =
    (if is_ascii a \<and> is_ascii b then Inr (a = b)
     else Inl (PyError ''TypeError'' ''comparing strings with non-ASCII characters is not supported''))"

definition validate_hmac_signature :: "env \<Rightarrow> string \<Rightarrow> string \<Rightarrow> string option \<Rightarrow> exn + unit" where
  "validate_hmac_signature E secret body signature_header =
    (case signature_header of
       None \<Rightarrow> Inl (invalid_signature ''Missing X-Hub-Signature-256 header.'')
     | Some h \<Rightarrow>
         if h = '''' then Inl (invalid_signature ''Missing X-Hub-Signature-256 header.'')
         else sum_bind (compare_digest h (''sha256='' @ env_hmac_sha256 E secret body)) (\<lambda>same.
           if same then Inr () else Inl (invalid_signature ''Invalid webhook signature.'')))"

definition add_delivery :: "webhook_delivery \<Rightarrow> world \<Rightarrow> world" where
  "add_delivery d w = w\<lparr>w_deliveries := w_deliveries w @ [d]\<rparr>"

definition log_webhook_delivery :: "env \<Rightarrow> uuid \<Rightarrow> uuid \<Rightarrow> string \<Rightarrow> dict \<Rightarrow> json \<Rightarrow> string option \<Rightarrow>
    string \<Rightarrow> uuid option \<Rightarrow> string option \<Rightarrow> (world, uuid) proc" where
  "log_webhook_delivery E tenant_id workflow_id method headers payload source_ip status execution_id rejection_reason =
    andthen (generate_uuid E) (\<lambda>i.
    andthen (modify (\<lambda>w. add_delivery
      \<lparr>wd_id = i, wd_tenant_id = tenant_id, wd_workflow_id = workflow_id, wd_execution_id = execution_id,
        wd_method = method, wd_headers = headers, wd_payload = payload, wd_source_ip = source_ip,
        wd_status = status, wd_rejection_reason = rejection_reason, wd_created_at = w_txn_now w\<rparr> w)) (\<lambda>_.
    ret i))"

definition upd_delivery :: "uuid \<Rightarrow> (webhook_delivery \<Rightarrow> webhook_delivery) \<Rightarrow> world \<Rightarrow> world" where
  "upd_delivery i f w = w\<lparr>w_deliveries := map (\<lambda>d. if wd_id d = i then f d else d) (w_deliveries w)\<rparr>"

section \<open>The handler\<close>

definition app_reply :: "exn \<Rightarrow> (exn + reply)" where
  "app_reply e =
    (case e of AppError c m st ds \<Rightarrow> Inr (json_reply st (create_error_response c m []))
     | PyError c m \<Rightarrow> Inl (PyError c m))"

definition resolve_workflow :: "int \<Rightarrow> int \<Rightarrow> string \<Rightarrow> world \<Rightarrow> workflow_cache \<Rightarrow> (exn + workflow) \<times> workflow_cache" where
  "resolve_workflow now now' webhook_path w c =
    (case get_by_webhook_path now webhook_path c of
       (Some flow, c') \<Rightarrow> (Inr flow, c')
     | (None, c') \<Rightarrow>
         (case lookup_workflow_by_path webhook_path w of
            Inl e \<Rightarrow> (Inl e, c')
          | Inr flow \<Rightarrow>
              (case cache_set now' flow c' of Inl e \<Rightarrow> (Inl e, c') | Inr c'' \<Rightarrow> (Inr flow, c''))))"

definition reject_delivery :: "env \<Rightarrow> workflow \<Rightarrow> webhook_request \<Rightarrow> json \<Rightarrow> string \<Rightarrow> reply \<Rightarrow> (world, reply) proc" where
  "reject_delivery E flow rq payload reason response =
    andthen (log_webhook_delivery E (wf_tenant_id flow) (wf_id flow) (wq_method rq) (request_headers rq)
      payload (wq_client rq) ''rejected'' None (Some reason)) (\<lambda>_. ret response)"

text \<open>
  The part that triggers the run. Both of its branches commit: when the start raises, the
  delivery is marked and whatever the run had flushed is committed with it.
\<close>

definition trigger_delivery :: "env \<Rightarrow> workflow \<Rightarrow> webhook_request \<Rightarrow> json \<Rightarrow> (world, reply) proc" where
  "trigger_delivery E flow rq payload =
    andthen (log_webhook_delivery E (wf_tenant_id flow) (wf_id flow) (wq_method rq) (request_headers rq)
      payload (wq_client rq) ''received'' None None) (\<lambda>delivery.
    on_error
      (andthen (start_execution E flow [(''payload'', payload), (''headers'', JObj (request_headers rq))]
        (wf_tenant_id flow) None 0) (\<lambda>execution.
       andthen (modify (upd_delivery delivery (\<lambda>d. d\<lparr>wd_status := ''accepted'', wd_execution_id := Some (ex_id execution)\<rparr>))) (\<lambda>_.
       ret (json_reply 202 (JObj [(''execution_id'', JStr (uuid_str (ex_id execution)))])))))
      (\<lambda>exc. andthen (modify (upd_delivery delivery (\<lambda>d. d\<lparr>wd_status := ''error'', wd_rejection_reason := Some (exn_str exc)\<rparr>))) (\<lambda>_.
       raise exc)))"

definition secret_of :: "workflow \<Rightarrow> string option" where
  "secret_of flow = (case wf_webhook_secret flow of None \<Rightarrow> None | Some s \<Rightarrow> if s = '''' then None else Some s)"

definition handle_delivery :: "env \<Rightarrow> workflow \<Rightarrow> webhook_request \<Rightarrow> json \<Rightarrow> (world, reply) proc" where
  "handle_delivery E flow rq payload =
    (if \<not> wf_is_active flow then
       reject_delivery E flow rq payload ''Workflow is not active.''
         (json_reply 404 (create_error_response ''NOT_FOUND'' ''Webhook path not found.'' []))
     else case secret_of flow of
       None \<Rightarrow> trigger_delivery E flow rq payload
     | Some secret \<Rightarrow>
         (case validate_hmac_signature E secret (wq_body rq) (map_of (wq_headers rq) ''x-hub-signature-256'') of
            Inr u \<Rightarrow> trigger_delivery E flow rq payload
          | Inl (AppError c m st ds) \<Rightarrow>
              reject_delivery E flow rq payload m (json_reply st (create_error_response c m []))
          | Inl (PyError c m) \<Rightarrow> raise (PyError c m)))"

definition too_large :: reply where
  "too_large = json_reply 413 (create_error_response ''PAYLOAD_TOO_LARGE''
     ''Request payload exceeds maximum allowed size.'' [])"

definition parse_payload :: "(string \<Rightarrow> json option) \<Rightarrow> string \<Rightarrow> json" where
  "parse_payload loads body =
    (if body = '''' then JObj [] else case loads body of Some j \<Rightarrow> j | None \<Rightarrow> JObj [])"

text \<open>The declared size: an absent or empty header gives none, \<open>int\<close> raises on any other text.\<close>

definition content_length :: "webhook_request \<Rightarrow> exn + int option" where
  "content_length rq =
    (case map_of (wq_headers rq) ''content-length'' of
       None \<Rightarrow> Inr None
     | Some h \<Rightarrow>
         if h = '''' then Inr None
         else case py_int10 h of
           Some n \<Rightarrow> Inr (Some n)
         | None \<Rightarrow> Inl (PyError ''ValueError'' (''invalid literal for int() with base 10: '' @ quoted h)))"

definition receive_webhook :: "env \<Rightarrow> (string \<Rightarrow> json option) \<Rightarrow> int \<Rightarrow> int \<Rightarrow> string \<Rightarrow> webhook_request \<Rightarrow>
    (world \<times> workflow_cache, reply) proc" where
  "receive_webhook E loads now now' webhook_path rq s =
    (let limit = max_payload_size (env_settings E)
     in case content_length rq of
          Inl e \<Rightarrow> raise e s
        | Inr declared \<Rightarrow>
            if (case declared of None \<Rightarrow> False | Some n \<Rightarrow> limit < n) \<or> limit < int (length (wq_body rq))
            then ret too_large s
            else
              let payload = parse_payload loads (wq_body rq)
              in case resolve_workflow now now' webhook_path (fst s) (snd s) of
                   (Inl e, c) \<Rightarrow> (app_reply e, (fst s, c))
                 | (Inr flow, c) \<Rightarrow>
                     (case handle_delivery E flow rq payload (opened E (fst s)) of (r, w') \<Rightarrow> (r, (w', c))))"

section \<open>What a request can do\<close>

lemma validate_hmac_signature_Inr:
  "validate_hmac_signature E secret body h = Inr () \<longleftrightarrow>
    h = Some (''sha256='' @ env_hmac_sha256 E secret body) \<and> is_ascii (env_hmac_sha256 E secret body)"
  by (auto simp: validate_hmac_signature_def compare_digest_def sum_bind_Inr_iff is_ascii_def
      split: option.split)

lemma validate_hmac_signature_Inl:
  "validate_hmac_signature E secret body h = Inl e \<Longrightarrow> (\<exists>m. e = invalid_signature m) \<or> (\<exists>m. e = PyError ''TypeError'' m)"
  by (auto simp: validate_hmac_signature_def compare_digest_def split: option.splits if_splits)

lemma lookup_workflow_by_path_Inr:
  "lookup_workflow_by_path p w = Inr f \<Longrightarrow> f \<in> set (w_workflows w) \<and> wf_webhook_path f = Some p"
proof -
  assume "lookup_workflow_by_path p w = Inr f"
  then have "filter (\<lambda>f. wf_webhook_path f = Some p) (w_workflows w) = [f]"
    by (auto simp: lookup_workflow_by_path_def sum_bind_Inr_iff scalar_one_or_none_def split: list.splits option.splits)
  then have "f \<in> set (filter (\<lambda>f. wf_webhook_path f = Some p) (w_workflows w))" by simp
  then show ?thesis by simp
qed

lemma lookup_workflow_by_path_Inl:
  "lookup_workflow_by_path p w = Inl e \<Longrightarrow> e = path_not_found \<or> (\<exists>m. e = PyError ''MultipleResultsFound'' m)"
  by (auto simp: lookup_workflow_by_path_def sum_bind_Inl_iff scalar_one_or_none_def split: list.splits option.splits)

lemma filter_single: "distinct xs \<Longrightarrow> x \<in> set xs \<Longrightarrow> filter (\<lambda>y. y = x) xs = [x]"
  by (induction xs) (auto simp: filter_empty_conv)

text \<open>Paths are unique in the catalogue, so the query has one row.\<close>

lemma lookup_workflow_found:
  assumes "catalogue_ok E w" "f \<in> set (w_workflows w)" "wf_webhook_path f = Some p"
  shows "lookup_workflow_by_path p w = Inr f"
proof -
  have "filter (\<lambda>g. wf_webhook_path g = Some p) (w_workflows w) = filter (\<lambda>g. g = f) (w_workflows w)"
  proof (rule filter_cong [OF refl])
    fix g assume g: "g \<in> set (w_workflows w)"
    show "(wf_webhook_path g = Some p) = (g = f)"
    proof
      assume "wf_webhook_path g = Some p"
      with g assms have "wf_id g = wf_id f"
        unfolding catalogue_ok_def unique_paths_def by (metis option.distinct(1))
      moreover have "inj_on wf_id (set (w_workflows w))" using assms(1) by (simp add: catalogue_ok_def distinct_map)
      ultimately show "g = f" using g assms(2) by (simp add: inj_on_def)
    qed (use assms(3) in simp)
  qed
  moreover have "distinct (w_workflows w)" using assms(1) by (simp add: catalogue_ok_def distinct_map)
  then have "filter (\<lambda>g. g = f) (w_workflows w) = [f]"
    using assms(2) by (rule filter_single)
  ultimately show ?thesis by (simp add: lookup_workflow_by_path_def scalar_one_or_none_def)
qed

section \<open>Outcomes\<close>

lemma delivery_frame [simp]:
  "w_executions (add_delivery d w) = w_executions w" "w_steps (add_delivery d w) = w_steps w"
  "w_workflows (add_delivery d w) = w_workflows w" "w_events (add_delivery d w) = w_events w"
  "w_tenants (add_delivery d w) = w_tenants w" "w_logs (add_delivery d w) = w_logs w"
  "w_ticks (add_delivery d w) = w_ticks w" "w_deliveries (add_delivery d w) = w_deliveries w @ [d]"
  "w_executions (upd_delivery i g w) = w_executions w" "w_steps (upd_delivery i g w) = w_steps w"
  "w_workflows (upd_delivery i g w) = w_workflows w" "w_events (upd_delivery i g w) = w_events w"
  "w_tenants (upd_delivery i g w) = w_tenants w" "w_logs (upd_delivery i g w) = w_logs w"
  "w_ticks (upd_delivery i g w) = w_ticks w"
  by (simp_all add: add_delivery_def upd_delivery_def)

lemma delivery_find [simp]:
  "find_execution (add_delivery d w) i = find_execution w i" "find_step (add_delivery d w) i = find_step w i"
  "find_execution (upd_delivery j g w) i = find_execution w i" "find_step (upd_delivery j g w) i = find_step w i"
  by (simp_all add: find_execution_def find_step_def)

lemma fresh_ids_delivery [simp]: "fresh_ids E (add_delivery d w) = fresh_ids E w"
  by (simp add: fresh_ids_def)

lemma fresh_ids_later:
  "fresh_ids E w \<Longrightarrow> w_ticks w \<le> n \<Longrightarrow> fresh_ids E (w\<lparr>w_ticks := n\<rparr>)"
  by (auto simp: fresh_ids_def)

definition delivery_of :: "workflow \<Rightarrow> webhook_request \<Rightarrow> json \<Rightarrow> webhook_delivery \<Rightarrow> bool" where
  "delivery_of flow rq payload d \<longleftrightarrow> wd_tenant_id d = wf_tenant_id flow \<and> wd_workflow_id d = wf_id flow \<and>
    wd_method d = wq_method rq \<and> wd_headers d = request_headers rq \<and> wd_payload d = payload \<and>
    wd_source_ip d = wq_client rq"

definition payload_data :: "webhook_request \<Rightarrow> json \<Rightarrow> dict" where
  "payload_data rq payload = [(''payload'', payload), (''headers'', JObj (request_headers rq))]"

text \<open>A triggered delivery: the run was started after the row was logged, in both branches.\<close>

lemma trigger_delivery_cases:
  assumes "trigger_delivery E flow rq payload w = (r, w')"
  obtains (accepted) d x v where "delivery_of flow rq payload d" "wd_id d = env_uuid E (w_ticks w)"
      "start_execution E flow (payload_data rq payload) (wf_tenant_id flow) None 0
        (add_delivery d (w\<lparr>w_ticks := Suc (w_ticks w)\<rparr>)) = (Inr x, v)"
      "w' = upd_delivery (wd_id d) (\<lambda>d. d\<lparr>wd_status := ''accepted'', wd_execution_id := Some (ex_id x)\<rparr>) v"
      "r = Inr (json_reply 202 (JObj [(''execution_id'', JStr (uuid_str (ex_id x)))]))"
  | (raised) d e v where "delivery_of flow rq payload d" "wd_id d = env_uuid E (w_ticks w)"
      "start_execution E flow (payload_data rq payload) (wf_tenant_id flow) None 0
        (add_delivery d (w\<lparr>w_ticks := Suc (w_ticks w)\<rparr>)) = (Inl e, v)"
      "w' = upd_delivery (wd_id d) (\<lambda>d. d\<lparr>wd_status := ''error'', wd_rejection_reason := Some (exn_str e)\<rparr>) v"
      "r = Inl e"
proof -
  let ?i = "env_uuid E (w_ticks w)"
  define d where "d = \<lparr>wd_id = ?i, wd_tenant_id = wf_tenant_id flow, wd_workflow_id = wf_id flow,
     wd_execution_id = None, wd_method = wq_method rq, wd_headers = request_headers rq, wd_payload = payload,
     wd_source_ip = wq_client rq, wd_status = ''received'', wd_rejection_reason = None, wd_created_at = w_txn_now w\<rparr>"
  let ?u = "add_delivery d (w\<lparr>w_ticks := Suc (w_ticks w)\<rparr>)"
  have d: "delivery_of flow rq payload d" "wd_id d = ?i" by (simp_all add: d_def delivery_of_def)
  have log: "log_webhook_delivery E (wf_tenant_id flow) (wf_id flow) (wq_method rq) (request_headers rq)
      payload (wq_client rq) ''received'' None None w = (Inr ?i, ?u)"
    by (simp add: log_webhook_delivery_def andthen_def generate_uuid_run d_def)
  obtain s v where s: "start_execution E flow (payload_data rq payload) (wf_tenant_id flow) None 0 ?u = (s, v)"
    by (metis surj_pair)
  show ?thesis
  proof (cases s)
    case (Inl e)
    with assms log s d show ?thesis
      by (intro that(2) [of d e v]) (auto simp: trigger_delivery_def andthen_def on_error_def payload_data_def)
  next
    case (Inr x)
    with assms log s d show ?thesis
      by (intro that(1) [of d x v]) (auto simp: trigger_delivery_def andthen_def on_error_def payload_data_def)
  qed
qed

lemma reject_delivery_run:
  obtains d where "reject_delivery E flow rq payload reason response w =
      (Inr response, add_delivery d (w\<lparr>w_ticks := Suc (w_ticks w)\<rparr>))"
    "delivery_of flow rq payload d" "wd_status d = ''rejected''" "wd_rejection_reason d = Some reason"
    "wd_execution_id d = None"
proof -
  define d where "d = \<lparr>wd_id = env_uuid E (w_ticks w), wd_tenant_id = wf_tenant_id flow,
     wd_workflow_id = wf_id flow, wd_execution_id = None, wd_method = wq_method rq,
     wd_headers = request_headers rq, wd_payload = payload, wd_source_ip = wq_client rq,
     wd_status = ''rejected'', wd_rejection_reason = Some reason, wd_created_at = w_txn_now w\<rparr>"
  show ?thesis
    by (rule that [of d])
      (simp_all add: reject_delivery_def log_webhook_delivery_def andthen_def generate_uuid_run d_def delivery_of_def)
qed

text \<open>A run starts exactly when the workflow is active and the request is signed.\<close>

definition authentic :: "env \<Rightarrow> workflow \<Rightarrow> webhook_request \<Rightarrow> bool" where
  "authentic E flow rq \<longleftrightarrow> (case secret_of flow of None \<Rightarrow> True
     | Some secret \<Rightarrow> validate_hmac_signature E secret (wq_body rq) (map_of (wq_headers rq) ''x-hub-signature-256'') = Inr ())"

lemma handle_delivery_trigger:
  "wf_is_active flow \<Longrightarrow> authentic E flow rq \<Longrightarrow>
    handle_delivery E flow rq payload = trigger_delivery E flow rq payload"
  by (auto simp: handle_delivery_def authentic_def split: option.splits)

lemma handle_delivery_refused:
  assumes "\<not> (wf_is_active flow \<and> authentic E flow rq)"
  obtains (rejected) d st body where "handle_delivery E flow rq payload w =
      (Inr (json_reply st body), add_delivery d (w\<lparr>w_ticks := Suc (w_ticks w)\<rparr>))"
      "st = (if wf_is_active flow then 401 else 404)"
      "delivery_of flow rq payload d" "wd_status d = ''rejected''" "wd_execution_id d = None"
  | (error) m where "handle_delivery E flow rq payload w = (Inl (PyError ''TypeError'' m), w)"
proof (cases "wf_is_active flow")
  case False
  obtain d where "reject_delivery E flow rq payload ''Workflow is not active.''
      (json_reply 404 (create_error_response ''NOT_FOUND'' ''Webhook path not found.'' [])) w =
      (Inr (json_reply 404 (create_error_response ''NOT_FOUND'' ''Webhook path not found.'' [])),
        add_delivery d (w\<lparr>w_ticks := Suc (w_ticks w)\<rparr>))"
    "delivery_of flow rq payload d" "wd_status d = ''rejected''" "wd_execution_id d = None"
    by (rule reject_delivery_run)
  with False show ?thesis by (intro that(1)) (simp_all add: handle_delivery_def)
next
  case True
  with assms obtain secret where secret: "secret_of flow = Some secret"
    by (cases "secret_of flow") (simp_all add: authentic_def)
  then obtain e where "validate_hmac_signature E secret (wq_body rq) (map_of (wq_headers rq) ''x-hub-signature-256'') = Inl e"
    using assms True
    by (cases "validate_hmac_signature E secret (wq_body rq) (map_of (wq_headers rq) ''x-hub-signature-256'')")
      (simp_all add: authentic_def)
  note e = secret this
  from validate_hmac_signature_Inl [OF e(2)] consider m where "e = invalid_signature m" | m where "e = PyError ''TypeError'' m"
    by blast
  then show ?thesis
  proof cases
    case (1 m)
    let ?r = "json_reply 401 (create_error_response ''INVALID_SIGNATURE'' m [])"
    obtain d where "reject_delivery E flow rq payload m ?r w = (Inr ?r, add_delivery d (w\<lparr>w_ticks := Suc (w_ticks w)\<rparr>))"
      "delivery_of flow rq payload d" "wd_status d = ''rejected''" "wd_execution_id d = None"
      by (rule reject_delivery_run)
    with 1 True e show ?thesis by (intro that(1)) (simp_all add: handle_delivery_def invalid_signature_def)
  next
    case (2 m)
    with True e show ?thesis by (intro that(2)) (simp add: handle_delivery_def)
  qed
qed

text \<open>What a request to a webhook path ends with.\<close>

lemma receive_webhook_cases:
  assumes "receive_webhook E loads now now' p rq s = (r, s')"
  obtains (malformed) e where "content_length rq = Inl e" "r = Inl e" "s' = s"
  | (large) "r = Inr too_large" "s' = s"
  | (unknown) e c where "resolve_workflow now now' p (fst s) (snd s) = (Inl e, c)" "r = app_reply e" "s' = (fst s, c)"
  | (handled) flow c w' where "resolve_workflow now now' p (fst s) (snd s) = (Inr flow, c)"
      "int (length (wq_body rq)) \<le> max_payload_size (env_settings E)"
      "\<forall>n. content_length rq = Inr (Some n) \<longrightarrow> n \<le> max_payload_size (env_settings E)"
      "handle_delivery E flow rq (parse_payload loads (wq_body rq)) (opened E (fst s)) = (r, w')" "s' = (w', c)"
proof (cases "content_length rq")
  case (Inl e)
  with assms show ?thesis by (intro malformed) (auto simp: receive_webhook_def Let_def)
next
  case (Inr declared)
  let ?large = "(case declared of None \<Rightarrow> False | Some n \<Rightarrow> max_payload_size (env_settings E) < n) \<or>
    max_payload_size (env_settings E) < int (length (wq_body rq))"
  obtain res c where res: "resolve_workflow now now' p (fst s) (snd s) = (res, c)" by (metis surj_pair)
  show ?thesis
  proof (cases ?large)
    case True
    with assms Inr show ?thesis by (intro large) (auto simp: receive_webhook_def Let_def)
  next
    case small: False
    show ?thesis
    proof (cases res)
      case (Inl e)
      with assms Inr small res show ?thesis by (intro unknown) (auto simp: receive_webhook_def Let_def)
    next
      case flow: (Inr f)
      obtain r1 w1 where h: "handle_delivery E f rq (parse_payload loads (wq_body rq)) (opened E (fst s)) = (r1, w1)"
        by (metis surj_pair)
      with assms Inr small res flow have "r = r1" "s' = (w1, c)" by (auto simp: receive_webhook_def Let_def)
      with flow Inr small res h show ?thesis by (intro handled [of f c w1]) auto
    qed
  qed
qed

end
