(* ===== verification/Demo.thy ===== *)
theory Demo
  imports Webhooks
begin

text \<open>
  A concrete environment and a few concrete documents, on which the properties are applied:
  UUIDs and times count up, every template renders to \<open>yes\<close>, every HTTP request answers 200.
\<close>

definition demo_env :: env where
  "demo_env = \<lparr>env_settings = default_settings, env_now = int, env_uuid = (\<lambda>n. n), env_ms = (\<lambda>d. d),
     env_render = (\<lambda>j d. Rendered ''yes''), env_jinja_parse = (\<lambda>s. None),
     env_lax_int = (\<lambda>j. case j of JInt i \<Rightarrow> Some i | _ \<Rightarrow> None), env_validation_text = (\<lambda>j. ''invalid''),
     env_float_repr = (\<lambda>q. ''0.5''),
     env_http = (\<lambda>n rq. HttpResponse \<lparr>rs_status_code = 200, rs_headers = [], rs_text = ''ok''\<rparr>),
     env_http_ms = int, env_tracks_mutation = False, env_token_hex = (\<lambda>n. replicate 32 CHR ''a''),
     env_hashpw = (\<lambda>n k. k), env_checkpw = (\<lambda>k h. k = h),
     env_hmac_sha256 = (\<lambda>secret body. secret)\<rparr>"

definition demo_step :: "string \<Rightarrow> string \<Rightarrow> dict \<Rightarrow> string list \<Rightarrow> dict" where
  "demo_step i t config deps = [(''id'', JStr i), (''type'', JStr t), (''config'', JObj config),
     (''depends_on'', JList (map JStr deps))]"

text \<open>A delay, a condition that takes its true branch, and a step of each branch.\<close>

definition demo_steps :: "dict list" where
  "demo_steps =
    [demo_step ''wait'' ''delay'' [(''seconds'', JInt 1)] [],
     demo_step ''ask'' ''condition'' [(''expression'', JStr ''x''), (''true_branch'', JList [JStr ''left'']),
       (''false_branch'', JList [JStr ''right''])] [''wait''],
     demo_step ''left'' ''transform'' [(''expression'', JStr ''x'')] [''ask''],
     demo_step ''right'' ''transform'' [(''expression'', JStr ''x'')] [''ask'']]"

definition demo_raw :: dict where
  "demo_raw = [(''name'', JStr ''demo''), (''trigger_type'', JStr ''manual''), (''steps'', JList (map JObj demo_steps))]"

definition demo_flow :: "dict list \<Rightarrow> workflow" where
  "demo_flow steps = \<lparr>wf_id = 3, wf_tenant_id = 7, wf_name = ''demo'', wf_description = None,
     wf_trigger_type = ''manual'', wf_trigger_config = [], wf_steps = map JObj steps, wf_is_active = True,
     wf_webhook_path = None, wf_webhook_secret = None, wf_created_at = 0, wf_updated_at = 0\<rparr>"

text \<open>The request that stores them.\<close>

definition demo_create :: workflow_create_request where
  "demo_create = \<lparr>wc_name = ''demo'', wc_description = None, wc_trigger_type = ''manual'', wc_trigger_config = [],
     wc_steps = demo_steps, wc_is_active = True, wc_webhook_secret = Some ''s''\<rparr>"

text \<open>One step whose single attempt fails: a delay of no seconds.\<close>

definition failing_steps :: "dict list" where
  "failing_steps =
    [demo_step ''bad'' ''delay'' [(''seconds'', JInt 0)] [] @ [(''retry'', JObj [(''max_attempts'', JInt 2)])],
     demo_step ''later'' ''transform'' [(''expression'', JStr ''x'')] [''bad'']]"

lemma demo_fresh: "fresh_ids demo_env empty_world"
  by (simp add: fresh_ids_def demo_env_def empty_world_def find_execution_def find_step_def)

text \<open>A stored execution of workflow 3 of tenant 7 with one pending step.\<close>

definition stored_execution :: "status \<Rightarrow> execution" where
  "stored_execution st = (new_execution 5 7 3 [] None 0)\<lparr>ex_status := st\<rparr>"

definition service_world :: "status \<Rightarrow> world" where
  "service_world st = empty_world\<lparr>w_executions := [stored_execution st],
     w_steps := [new_step 6 7 5 \<lparr>sd_id = ''a'', sd_type = DELAY, sd_config = [], sd_depends_on = [], sd_retry = None\<rparr> 0],
     w_workflows := [demo_flow demo_steps], w_ticks := 10\<rparr>"

lemma service_row: "find_execution (service_world st) 5 = Some (stored_execution st)"
  by (simp add: service_world_def stored_execution_def new_execution_def find_execution_def)

lemma service_simps:
  "ex_tenant_id (stored_execution st) = 7" "ex_status (stored_execution st) = st"
  "ex_workflow_id (stored_execution st) = 3" "ex_trigger_data (stored_execution st) = []"
  "keys_ok (service_world st)" "find_workflow (service_world st) 3 = Some (demo_flow demo_steps)"
  by (simp_all add: stored_execution_def new_execution_def keys_ok_def service_world_def find_workflow_def demo_flow_def)

lemma service_fresh: "fresh_ids demo_env (service_world st)"
  by (simp add: fresh_ids_def service_world_def empty_world_def find_execution_def find_step_def stored_execution_def
      new_execution_def new_step_def demo_env_def)

text \<open>A workflow of one delay, whose runs end.\<close>

definition one_step :: "dict list" where
  "one_step = [demo_step ''wait'' ''delay'' [(''seconds'', JInt 1)] []]"

lemma demo_starts:
  assumes "fresh_ids demo_env w"
    and check: "case parse_workflow_definition demo_env (raw_definition flow) of
      Some (Inr d) \<Rightarrow> list_all (\<lambda>s. sd_type s \<noteq> CONDITION) (wfd_steps d) | _ \<Rightarrow> False"
    and start: "start_execution demo_env flow trigger 7 None 0 w = (r, u)"
  shows "\<exists>x. r = Inr x \<and> find_execution u (ex_id x) = Some x"
proof -
  obtain parsed where p: "parse_workflow_definition demo_env (raw_definition flow) = Some (Inr parsed)"
    "\<forall>s\<in>set (wfd_steps parsed). sd_type s \<noteq> CONDITION"
    using check by (auto simp: list_all_iff split: option.splits sum.splits)
  have "distinct (map sd_id (wfd_steps parsed))" using parsed_dag [OF p(1)] by (simp add: dag_def)
  then have none: "\<not> branch_failure demo_env (map_of (map (\<lambda>s. (sd_id s, s)) (wfd_steps parsed))) N e" for N e
    using branches_ok_no_failure p(2) by blast
  have T: "(7 :: uuid) < 2 ^ 128" by simp
  obtain res v where run: "start_execution demo_env flow trigger 7 None 0 w = (res, v)"
    "case res of
       Inl e \<Rightarrow> branch_failure demo_env (map_of (map (\<lambda>s. (sd_id s, s)) (wfd_steps parsed)))
         (topological_sort (wfd_steps parsed)) e
     | Inr x \<Rightarrow> run_result (produced demo_env 7 0 (engine_runner demo_env)) demo_env 7 flow trigger None
         (wfd_steps parsed) w x v"
    by (rule start_execution_run [OF T assms(1) p(1)])
  with start have "r = res" "u = v" by simp_all
  with none run(2) show ?thesis by (cases res) (auto simp: run_result_def)
qed

text \<open>A Redis server that is a single counter.\<close>

definition counting_redis :: "int redis_ops" where
  "counting_redis = \<lparr>rd_incr = (\<lambda>k r. (Inr (r + 1), r + 1)), rd_expire = (\<lambda>k n r. (Inr 1, r)),
     rd_ttl = (\<lambda>k r. (Inr 60, r))\<rparr>"

end
