(* ===== verification/Definition_Properties.thy ===== *)
theory Definition_Properties
  imports Demo
begin

text \<open>
  The properties of workflow definitions: what the parser accepts and rejects, the cycle
  search, the depth limit and the execution order. Each is stated over
  the component theories and applied once to a concrete document.
\<close>

text \<open>
  C8. The parser accepts a raw definition exactly when it is well formed: a nonempty list of
  valid steps within the size limit, unique ids, existing dependencies, no cycle, no chain of
  more than 20 steps, and templates that parse; and it returns those steps in their order.
\<close>

theorem parse_accepts_well_formed:
  "parse_workflow_definition E raw = Some (Inr d) \<longleftrightarrow>
    well_formed E raw (wfd_steps d) \<and>
    make_definition E raw (wfd_steps d) (step_pairs (wfd_steps d)) = Inr d"
  by (rule parse_Inr_iff)

text \<open>C21. The parser returns on every input: with a definition or with an error.\<close>

theorem parse_total: "\<exists>r. parse_workflow_definition E raw = Some r"
  by (rule parse_returns)

text \<open>
  A rejection is an answer to the client: when the name and the trigger type are texts, the
  steps are a list, and no step gives a list or an object as its type, every rejection is one
  of nine application errors with status 400, never another exception.
\<close>

theorem parse_rejects_cleanly:
  assumes "parse_workflow_definition E raw = Some (Inl e)"
    and "map_of raw ''name'' = Some (JStr n)" "map_of raw ''trigger_type'' = Some (JStr t)"
    and "map_of raw ''steps'' = Some (JList js)"
    and "\<And>d. JObj d \<in> set js \<Longrightarrow> \<not> compound (dict_get d ''type'' (JStr []))"
  shows "client_error e"
  by (rule parse_rejection [OF assms])

definition cyclic_raw :: dict where
  "cyclic_raw = [(''name'', JStr ''demo''), (''trigger_type'', JStr ''manual''), (''steps'', JList (map JObj
     [demo_step ''a'' ''delay'' [] [''b''], demo_step ''b'' ''delay'' [] [''a'']]))]"

theorem parse_rejects_cleanly_witness: "client_error (cycle_error [''a'', ''b'', ''a''])"
proof (rule parse_rejects_cleanly [of demo_env cyclic_raw])
  show "parse_workflow_definition demo_env cyclic_raw = Some (Inl (cycle_error [''a'', ''b'', ''a'']))"
    by code_simp
qed (auto simp: cyclic_raw_def demo_step_def dict_get_def)

text \<open>
  C20. The colour search reports no cycle exactly when the dependency relation is acyclic.
\<close>

theorem detect_cycles_exact: "detect_cycles g = Some (Inr ()) \<longleftrightarrow> acyclic (edges g)"
  by (rule detect_cycles_Inr_iff)

text \<open>
  A reported cycle is one: the nodes of the error form a closed walk of dependencies.
\<close>

theorem reported_cycle_real:
  assumes "detect_cycles g = Some (Inl e)"
  shows "\<exists>c. e = cycle_error c \<and> closed_walk (edges g) c"
  using detect_cycles_cases [of g] assms by auto

theorem reported_cycle_real_witness:
  "\<exists>c. cycle_error [''a'', ''b'', ''a''] = cycle_error c \<and> closed_walk (edges [(''a'', [''b'']), (''b'', [''a''])]) c"
proof -
  have "detect_cycles [(''a'', [''b'']), (''b'', [''a''])] = Some (Inl (cycle_error [''a'', ''b'', ''a'']))"
    by code_simp
  then show ?thesis by (rule reported_cycle_real)
qed

text \<open>
  C16. On an accepted graph the execution order lists every step once, each after all the
  steps it depends on.
\<close>

theorem execution_order:
  assumes "dag steps"
  shows "distinct (topological_sort steps) \<and> set (topological_sort steps) = sd_id ` set steps \<and>
    (\<forall>s pre post. s \<in> set steps \<longrightarrow> topological_sort steps = pre @ sd_id s # post \<longrightarrow>
      set (sd_depends_on s) \<subseteq> set pre)"
proof -
  have "set (sd_depends_on s) \<subseteq> set pre" if "s \<in> set steps" "topological_sort steps = pre @ sd_id s # post" for s pre post
    using dag_order(3) [OF assms] that unfolding ordered_def edges_def step_pairs_def by fastforce
  with dag_order(1,2) [OF assms] show ?thesis by simp
qed

definition chain :: "step_definition list" where
  "chain = [\<lparr>sd_id = ''b'', sd_type = DELAY, sd_config = [], sd_depends_on = [''a''], sd_retry = None\<rparr>,
     \<lparr>sd_id = ''a'', sd_type = DELAY, sd_config = [], sd_depends_on = [], sd_retry = None\<rparr>]"

lemma chain_dag: "dag chain"
proof -
  have "detect_cycles (step_pairs chain) = Some (Inr ())" by code_simp
  then have "acyclic (edges (step_pairs chain))" by (simp add: detect_cycles_Inr_iff)
  then show ?thesis by (simp add: dag_def) (simp add: chain_def)
qed

theorem execution_order_witness:
  "distinct (topological_sort chain) \<and> topological_sort chain = [''a'', ''b''] \<and>
    set (topological_sort chain) = {''a'', ''b''}"
proof -
  have order: "topological_sort chain = [''a'', ''b'']" by code_simp
  then show ?thesis using execution_order [OF chain_dag] by (simp add: order)
qed

text \<open>
  C19. The depth check is exact: it accepts an acyclic graph exactly when no chain of
  dependencies has more than 20 steps, and the depth it reports is that of a longest chain.
\<close>

theorem depth_check_exact:
  assumes "dag steps" "steps \<noteq> []"
  shows "(validate_max_depth (step_pairs steps) = Inr () \<longleftrightarrow>
      (\<forall>p. walk (edges (step_pairs steps)) p \<longrightarrow> length p \<le> 20)) \<and>
    (\<forall>p. walk (edges (step_pairs steps)) p \<longrightarrow> int (length p) \<le> max_found (step_pairs steps) + 1) \<and>
    (\<exists>p. walk (edges (step_pairs steps)) p \<and> int (length p) = max_found (step_pairs steps) + 1)"
proof -
  have g: "closed_graph (step_pairs steps)" "acyclic (edges (step_pairs steps))"
    using dag_closed [OF assms(1)] assms(1) by (simp_all add: dag_def)
  have "step_pairs steps \<noteq> []" using assms(2) by (simp add: step_pairs_def)
  with validate_max_depth_Inr_iff [OF g] max_found_longest [OF g] show ?thesis
    by (simp add: MAX_DEPTH_def)
qed

theorem depth_check_exact_witness:
  "validate_max_depth (step_pairs chain) = Inr () \<and> max_found (step_pairs chain) = 1 \<and>
    (\<exists>p. walk (edges (step_pairs chain)) p \<and> int (length p) = max_found (step_pairs chain) + 1)"
proof -
  have "chain \<noteq> []" by (simp add: chain_def)
  note exact = depth_check_exact [OF chain_dag this]
  have "max_found (step_pairs chain) = 1" "validate_max_depth (step_pairs chain) = Inr ()" by code_simp+
  with exact show ?thesis by simp
qed

text \<open>
  C35. An accepted definition is within the declared bounds: between one and the configured
  number of steps, ids of 1 to 100 characters, 1 to 10 attempts per step, and retry delays of
  0 to 300 seconds.
\<close>

theorem accepted_steps_bounded:
  assumes "parse_workflow_definition E raw = Some (Inr d)"
  shows "1 \<le> length (wfd_steps d) \<and> int (length (wfd_steps d)) \<le> max_steps_per_workflow (env_settings E) \<and>
    (\<forall>s\<in>set (wfd_steps d). step_id_ok (sd_id s) \<and> 1 \<le> max_attempts_of s \<and> max_attempts_of s \<le> 10 \<and>
      (\<forall>r. sd_retry s = Some r \<longrightarrow> retry_ok r))"
proof -
  from assms obtain js where js: "js \<noteq> []" "int (length js) \<le> max_steps_per_workflow (env_settings E)"
    "list_all2 (\<lambda>j s. \<exists>d. j = JObj d \<and> validate_step_definition E d = Some s) js (wfd_steps d)"
    unfolding parse_Inr_iff well_formed_def by blast
  have "length js = length (wfd_steps d)" using js(3) by (rule list_all2_lengthD)
  moreover have "\<exists>e. validate_step_definition E e = Some s" if "s \<in> set (wfd_steps d)" for s
    using js(3) that by (auto simp: list_all2_conv_all_nth in_set_conv_nth)
  then have "step_id_ok (sd_id s) \<and> (\<forall>r. sd_retry s = Some r \<longrightarrow> retry_ok r)" if "s \<in> set (wfd_steps d)" for s
    using that validate_step_definition_ok by blast
  ultimately show ?thesis
    using js(1,2) max_attempts_positive [OF assms] by (cases js) auto
qed

definition demo_parsed :: workflow_definition where
  "demo_parsed = (case parse_workflow_definition demo_env demo_raw of Some (Inr d) \<Rightarrow> d
     | _ \<Rightarrow> \<lparr>wfd_name = [], wfd_trigger_type = [], wfd_steps = [], wfd_dependency_graph = []\<rparr>)"

theorem accepted_steps_bounded_witness:
  "length (wfd_steps demo_parsed) = 4 \<and> int (length (wfd_steps demo_parsed)) \<le> 50 \<and>
    list_all (\<lambda>s. step_id_ok (sd_id s) \<and> max_attempts_of s \<le> 10) (wfd_steps demo_parsed)"
proof -
  have "(case parse_workflow_definition demo_env demo_raw of Some (Inr d) \<Rightarrow> length (wfd_steps d) = 4 | _ \<Rightarrow> False)"
    by code_simp
  then have "parse_workflow_definition demo_env demo_raw = Some (Inr demo_parsed)" "length (wfd_steps demo_parsed) = 4"
    by (auto simp: demo_parsed_def split: option.splits sum.splits)
  moreover have "max_steps_per_workflow (env_settings demo_env) = 50" by (simp add: demo_env_def default_settings_def)
  ultimately show ?thesis using accepted_steps_bounded [of demo_env demo_raw demo_parsed] by (simp add: list_all_iff)
qed

end
