(* ===== verification/Run_Properties.thy ===== *)
theory Run_Properties
  imports Demo
begin

text \<open>
  The properties of a run: the two state machines, the context, the step executors, and what
  \<open>start_execution\<close> leaves behind. The claims about runs hold for every environment: every
  clock, every HTTP peer, every template engine.
\<close>

section \<open>State machines\<close>

text \<open>
  C14. Whatever transitions are attempted, in whatever order, an execution that starts pending
  goes through pending, running and one terminal status, or is cancelled before it runs, and
  its row shows the last status of that history.
\<close>

theorem execution_lifecycle:
  assumes "(state_call E)\<^sup>*\<^sup>* w w'" "find_execution w i = Some r" "ex_status r = Pending"
  shows "\<exists>r' h. find_execution w' i = Some r' \<and>
    execution_history i (w_events w') = execution_history i (w_events w) @ h \<and>
    h \<in> {[], [Cancelled], [Running], [Running, Completed], [Running, Failed], [Running, Cancelled]} \<and>
    ex_status r' = last (Pending # h)"
proof -
  obtain r' h where r': "find_execution w' i = Some r'"
    "execution_history i (w_events w') = execution_history i (w_events w) @ h"
    "path ALLOWED_EXECUTION_TRANSITIONS Pending h" "ex_status r' = last (Pending # h)"
    using exl.run_history [OF assms(1,2)] assms(3) by metis
  have "h \<in> {[], [Cancelled], [Running], [Running, Completed], [Running, Failed], [Running, Cancelled]}"
  proof (cases h)
    case (Cons a g)
    with r'(3) have a: "a = Running \<and> path ALLOWED_EXECUTION_TRANSITIONS Running g \<or> a = Cancelled \<and> g = []"
      using exl.terminal_path by (auto simp: execution_moves execution_terminal_def)
    moreover have "g \<in> {[], [Completed], [Failed], [Cancelled]}" if "path ALLOWED_EXECUTION_TRANSITIONS Running g"
      using that exl.terminal_path by (cases g) (auto simp: execution_moves execution_terminal_def)
    ultimately show ?thesis using Cons by auto
  qed simp
  with r' show ?thesis by blast
qed

definition demo_execution :: "status \<Rightarrow> execution" where
  "demo_execution st = (new_execution 5 7 1000 [] None 0)\<lparr>ex_status := st\<rparr>"

definition demo_world :: "status \<Rightarrow> world" where
  "demo_world st = add_execution (demo_execution st) empty_world"

lemma demo_world_row: "find_execution (demo_world st) 5 = Some (demo_execution st)"
  by (simp add: demo_world_def demo_execution_def new_execution_def find_execution_def add_execution_def empty_world_def)

lemma demo_status: "ex_status (demo_execution st) = st"
  by (simp add: demo_execution_def)

theorem execution_lifecycle_witness:
  "\<exists>w' r' h. (state_call demo_env)\<^sup>*\<^sup>* (demo_world Pending) w' \<and> find_execution w' 5 = Some r' \<and>
    ex_status r' = Running \<and> ex_status r' = last (Pending # h) \<and>
    h \<in> {[], [Cancelled], [Running], [Running, Completed], [Running, Failed], [Running, Cancelled]}"
proof -
  have "may_move ALLOWED_EXECUTION_TRANSITIONS (ex_status (demo_execution Pending)) Running"
    by (simp add: demo_status execution_moves)
  from transition_execution_run [OF demo_world_row this, of demo_env 7 "{}"]
  obtain s w' where run: "transition_execution demo_env 5 Running (demo_world Pending) = (s, w')"
    and running: "\<exists>r. find_execution w' 5 = Some r \<and> ex_status r = Running"
    using stamp_execution_frame(2) by metis
  have call: "(state_call demo_env)\<^sup>*\<^sup>* (demo_world Pending) w'"
    using run by (blast intro: state_call.on_execution)
  from execution_lifecycle [OF call demo_world_row demo_status] running
  obtain r' h where "find_execution w' 5 = Some r'" "ex_status r' = Running" "ex_status r' = last (Pending # h)"
    "h \<in> {[], [Cancelled], [Running], [Running, Completed], [Running, Failed], [Running, Cancelled]}"
    by (metis option.inject)
  with call show ?thesis by blast
qed

text \<open>
  C15. A completed, failed or cancelled execution never changes again, whatever transitions
  are attempted; neither does a completed or skipped step.
\<close>

theorem terminal_rows_final:
  assumes "(state_call E)\<^sup>*\<^sup>* w w'"
  shows "(find_execution w i = Some r \<and> ex_status r \<in> {Completed, Failed, Cancelled} \<longrightarrow> find_execution w' i = Some r) \<and>
    (find_step w j = Some s \<and> se_status s \<in> {Completed, Skipped} \<longrightarrow> find_step w' j = Some s)"
  using exl.terminal_row_fixed [OF assms] stl.terminal_row_fixed [OF assms]
  by (auto simp: execution_terminal_def step_terminal_def)

theorem terminal_rows_final_witness:
  "\<exists>w'. (state_call demo_env)\<^sup>*\<^sup>* (demo_world Failed) w' \<and> find_execution w' 5 = Some (demo_execution Failed)"
proof -
  obtain s w' where "transition_execution demo_env 5 Running (demo_world Failed) = (s, w')"
    by (metis surj_pair)
  then have "(state_call demo_env)\<^sup>*\<^sup>* (demo_world Failed) w'" by (blast intro: state_call.on_execution)
  with terminal_rows_final [of demo_env "demo_world Failed" w' 5 "demo_execution Failed"]
  show ?thesis by (auto simp: demo_world_row demo_status)
qed

section \<open>Context\<close>

text \<open>
  Merging a step's output stores it under that step and changes nothing else: not the
  outputs of the other steps, not the other entries of the context, not another row.
\<close>

theorem merge_stores_output:
  assumes "find_execution w i = Some x" "context_ok (ex_context x)"
  shows "\<exists>c w'. merge_step_output i s out w = (Inr (), w') \<and> find_execution w' i = Some (x\<lparr>ex_context := c\<rparr>) \<and>
    outputs c = (outputs (ex_context x))(s \<mapsto> out) \<and> (\<forall>k. k \<noteq> ''steps'' \<longrightarrow> map_of c k = map_of (ex_context x) k) \<and>
    (\<forall>j. j \<noteq> i \<longrightarrow> find_execution w' j = find_execution w j) \<and> w_steps w' = w_steps w"
proof -
  obtain c where c: "merge_context (ex_context x) s out = Inr c" "outputs c = (outputs (ex_context x))(s \<mapsto> out)"
    "\<And>k. k \<noteq> ''steps'' \<Longrightarrow> map_of c k = map_of (ex_context x) k"
    by (rule merge_context_ok [OF assms(2), of s out]) blast
  let ?f = "\<lambda>r :: execution. r\<lparr>ex_context := c\<rparr>"
  have "find_execution (upd_execution i ?f w) j = (if j = i then map_option ?f (find_execution w j) else find_execution w j)" for j
    by (rule ext.find_upd) simp
  then show ?thesis
    using merge_step_output_ok [OF assms(1) c(1)] c(2,3) assms(1)
    by (intro exI [of _ c]) (simp add: upd_execution_def)
qed

theorem merge_stores_output_witness:
  "\<exists>c w'. merge_step_output 5 ''a'' [(''result'', JInt 1)] (demo_world Running) = (Inr (), w') \<and>
    outputs c ''a'' = Some [(''result'', JInt 1)] \<and>
    find_execution w' 5 = Some ((demo_execution Running)\<lparr>ex_context := c\<rparr>)"
proof -
  have "context_ok (ex_context (demo_execution Running))"
    by (simp add: demo_execution_def new_execution_def context_ok_def)
  from merge_stores_output [OF demo_world_row this, of "''a''" "[(''result'', JInt 1)]"]
  obtain c w' where "merge_step_output 5 ''a'' [(''result'', JInt 1)] (demo_world Running) = (Inr (), w')"
    "find_execution w' 5 = Some ((demo_execution Running)\<lparr>ex_context := c\<rparr>)"
    "outputs c = (outputs (ex_context (demo_execution Running)))(''a'' \<mapsto> [(''result'', JInt 1)])" by blast
  then show ?thesis by (intro exI [of _ c] exI [of _ w']) simp
qed

text \<open>
  C40. The merge is not safe under concurrency: when two sessions both read the row of an
  execution before either writes it, both merges succeed and are logged, but the one that
  writes last erases the output of the other; one merge after the other keeps both outputs.
\<close>

theorem concurrent_merge_loses:
  assumes "find_execution w i = Some x" "context_ok (ex_context x)"
    and "s \<noteq> t" "outputs (ex_context x) s = None"
  shows "(\<exists>c w'. andthen (fetch_execution i) (\<lambda>A. andthen (fetch_execution i) (\<lambda>B.
        andthen (write_output i s a A) (\<lambda>_. write_output i t b B))) w = (Inr (), w') \<and>
      find_execution w' i = Some (x\<lparr>ex_context := c\<rparr>) \<and> outputs c s = None \<and> outputs c t = Some b \<and>
      w_events w' = w_events w @ [ContextMerge i s, ContextMerge i t]) \<and>
    (\<exists>c w'. andthen (merge_step_output i s a) (\<lambda>_. merge_step_output i t b) w = (Inr (), w') \<and>
      find_execution w' i = Some (x\<lparr>ex_context := c\<rparr>) \<and> outputs c s = Some a \<and> outputs c t = Some b \<and>
      w_events w' = w_events w @ [ContextMerge i s, ContextMerge i t])"
proof (rule conjI)
  from merges_interleaved [OF assms(1,2), of s a t b] assms(3,4)
  show "\<exists>c w'. andthen (fetch_execution i) (\<lambda>A. andthen (fetch_execution i) (\<lambda>B.
        andthen (write_output i s a A) (\<lambda>_. write_output i t b B))) w = (Inr (), w') \<and>
      find_execution w' i = Some (x\<lparr>ex_context := c\<rparr>) \<and> outputs c s = None \<and> outputs c t = Some b \<and>
      w_events w' = w_events w @ [ContextMerge i s, ContextMerge i t]" by force
next
  from merges_in_turn [OF assms(1,2), of s a t b] assms(3)
  show "\<exists>c w'. andthen (merge_step_output i s a) (\<lambda>_. merge_step_output i t b) w = (Inr (), w') \<and>
      find_execution w' i = Some (x\<lparr>ex_context := c\<rparr>) \<and> outputs c s = Some a \<and> outputs c t = Some b \<and>
      w_events w' = w_events w @ [ContextMerge i s, ContextMerge i t]" by force
qed

theorem concurrent_merge_loses_witness:
  "\<exists>c w'. andthen (fetch_execution 5) (\<lambda>A. andthen (fetch_execution 5) (\<lambda>B.
      andthen (write_output 5 ''a'' [(''x'', JInt 1)] A) (\<lambda>_. write_output 5 ''b'' [(''y'', JInt 2)] B)))
      (demo_world Running) = (Inr (), w') \<and>
    find_execution w' 5 = Some ((demo_execution Running)\<lparr>ex_context := c\<rparr>) \<and>
    outputs c ''a'' = None \<and> outputs c ''b'' = Some [(''y'', JInt 2)]"
proof -
  have "context_ok (ex_context (demo_execution Running))" "outputs (ex_context (demo_execution Running)) ''a'' = None"
    by (simp_all add: demo_execution_def new_execution_def context_ok_def outputs_def)
  from concurrent_merge_loses [OF demo_world_row this(1), of "''a''" "''b''" "[(''x'', JInt 1)]" "[(''y'', JInt 2)]"] this(2)
  show ?thesis by auto
qed

section \<open>Steps\<close>

text \<open>
  A condition takes its false branch exactly when its expression renders to nothing,
  \<open>false\<close>, \<open>0\<close> or \<open>none\<close>, in any case and with any surrounding blanks, and hands on the
  steps of the branch it takes.
\<close>

theorem condition_branches:
  assumes "map_of config ''expression'' = Some (JStr e)" "evaluate_expression E (JStr e) context = Inr s"
  shows "condition_execute E config context = Inr
    (if py_lower (py_strip s) \<in> {'''', ''false'', ''0'', ''none''}
     then [(''result'', JBool False), (''branch'', JStr ''false''),
           (''branch_steps'', dict_get config ''false_branch'' (JList []))]
     else [(''result'', JBool True), (''branch'', JStr ''true''),
           (''branch_steps'', dict_get config ''true_branch'' (JList []))])"
proof -
  have "slice_for_log (JStr e) = Inr ()" by (simp add: slice_for_log_def)
  then show ?thesis
    using assms evaluate_truthiness_iff [of s] by (simp add: condition_execute_def Let_def)
qed

theorem condition_branches_witness:
  "condition_execute demo_env [(''expression'', JStr ''x''), (''true_branch'', JList [JStr ''a''])] [] =
    Inr [(''result'', JBool True), (''branch'', JStr ''true''), (''branch_steps'', JList [JStr ''a''])]"
proof -
  have "evaluate_expression demo_env (JStr ''x'') [] = Inr ''yes''"
    by (simp add: evaluate_expression_def demo_env_def)
  moreover have "py_lower (py_strip ''yes'') = ''yes''" by code_simp
  ultimately show ?thesis
    using condition_branches [of "[(''expression'', JStr ''x''), (''true_branch'', JList [JStr ''a''])]" "''x''" demo_env "[]" "''yes''"]
    by (simp add: dict_get_def)
qed

text \<open>
  An HTTP step succeeds exactly when the answer has a 2xx status, and the body it stores is at
  most the configured size and the 15 characters of the mark of truncation.
\<close>

theorem http_step_outcome:
  assumes "http_prepare E config context = Inr rq" "0 \<le> max_response_body_size (env_settings E)"
  shows "((\<exists>out w'. http_execute E config context w = (Inr out, w')) \<longleftrightarrow>
      (\<exists>rs. env_http E (w_ticks w) rq = HttpResponse rs \<and> rs_status_code rs div 100 = 2)) \<and>
    (\<forall>out w'. http_execute E config context w = (Inr out, w') \<longrightarrow>
      (\<exists>body. map_of out ''body'' = Some (JStr body) \<and>
        length body \<le> nat (max_response_body_size (env_settings E)) + 15))"
proof -
  let ?r = "http_result E rq (env_http E (w_ticks w) rq) (env_http_ms E (w_ticks w))"
  have run: "http_execute E config context w = (?r, w\<lparr>w_ticks := Suc (w_ticks w)\<rparr>)"
    using assms(1) by (simp add: http_execute_def andthen_def)
  have "(\<exists>out w'. http_execute E config context w = (Inr out, w')) \<longleftrightarrow>
      (\<exists>rs. env_http E (w_ticks w) rq = HttpResponse rs \<and> rs_status_code rs div 100 = 2)"
    using http_result_Inr_iff [of E rq "env_http E (w_ticks w) rq"] by (simp add: run)
  moreover have "\<forall>out w'. http_execute E config context w = (Inr out, w') \<longrightarrow>
      (\<exists>body. map_of out ''body'' = Some (JStr body) \<and>
        length body \<le> nat (max_response_body_size (env_settings E)) + 15)"
    unfolding run using length_cap_body [OF assms(2)]
    by (auto simp: http_result_def Let_def split: http_outcome.splits if_splits)
  ultimately show ?thesis by blast
qed

definition get_config :: dict where
  "get_config = [(''url'', JStr ''http://host/'')]"

theorem http_step_outcome_witness:
  "(\<exists>out w'. http_execute demo_env get_config [] empty_world = (Inr out, w') \<and> map_of out ''status_code'' = Some (JInt 200))"
proof -
  let ?rq = "\<lparr>rq_method = ''GET'', rq_url = ''yes'', rq_headers = [], rq_content = None, rq_timeout = JInt 30\<rparr>"
  have prepare: "http_prepare demo_env get_config [] = Inr ?rq" by code_simp
  have settings: "max_response_body_size (env_settings demo_env) = 1048576" by (simp add: demo_env_def default_settings_def)
  have http: "env_http demo_env n rq = HttpResponse \<lparr>rs_status_code = 200, rs_headers = [], rs_text = ''ok''\<rparr>" for n rq
    by (simp add: demo_env_def)
  have "\<exists>out w'. http_execute demo_env get_config [] empty_world = (Inr out, w')"
    using http_step_outcome [OF prepare, of empty_world] by (simp add: settings http)
  moreover have "map_of out ''status_code'' = Some (JInt 200)"
    if "http_execute demo_env get_config [] empty_world = (Inr out, w')" for out w'
    using that prepare by (auto simp: http_execute_def andthen_def http http_result_def)
  ultimately show ?thesis by blast
qed

text \<open>
  A delay is accepted exactly when its seconds are a number above 0 and at most 3600.
\<close>

theorem delay_range:
  "(\<exists>out. delay_execute E config context = Inr out) \<longleftrightarrow>
    (\<exists>j q. map_of config ''seconds'' = Some j \<and> py_number j = Some q \<and> 0 < q \<and> q \<le> 3600)"
  by (auto simp: delay_execute_def MAX_DELAY_SECONDS_def split: option.splits if_splits)

section \<open>Runs\<close>

text \<open>
  The rows of a run, by step id: the row of each step of the definition, new since the run
  started, with its history of statuses.
\<close>

definition run_rows :: "uuid \<Rightarrow> uuid \<Rightarrow> step_definition list \<Rightarrow> world \<Rightarrow> world \<Rightarrow> step_view \<Rightarrow> bool" where
  "run_rows T i steps w w' view \<longleftrightarrow>
    (\<forall>s\<in>set steps. \<exists>r. view (sd_id s) = Some (r, step_history (se_id r) (w_events w')) \<and>
      find_step w (se_id r) = None \<and> find_step w' (se_id r) = Some r \<and> se_tenant_id r = T \<and>
      se_execution_id r = i \<and> se_step_id r = sd_id s \<and> se_step_type r = step_type_value (sd_type s) \<and>
      se_max_attempts r = max_attempts_of s)"

definition step_table :: "step_definition list \<Rightarrow> string \<Rightarrow> step_definition option" where
  "step_table steps = map_of (map (\<lambda>s. (sd_id s, s)) steps)"

lemma run_result_rows:
  assumes "run_result P E T flow trigger replayed steps w x w'"
  obtains view where "run_rows T (ex_id x) steps w w' view"
    "finished P E (step_table steps) (topological_sort steps) view (outputs (ex_context x)) (ex_status x)
      (ex_error x) (execution_history (ex_id x) (w_events w'))"
proof -
  from assms obtain sm where
    rows: "\<forall>s\<in>set steps. \<exists>j r. map_of sm (sd_id s) = Some j \<and> find_step w j = None \<and>
        find_step w' j = Some r \<and> se_tenant_id r = T \<and> se_execution_id r = ex_id x \<and>
        se_step_id r = sd_id s \<and> se_step_type r = step_type_value (sd_type s) \<and> se_max_attempts r = max_attempts_of s"
    and fin: "finished P E (map_of (map (\<lambda>s. (sd_id s, s)) steps)) (topological_sort steps) (view_of sm w')
        (outputs (ex_context x)) (ex_status x) (ex_error x) (execution_history (ex_id x) (w_events w'))"
    unfolding run_result_def by blast
  have "run_rows T (ex_id x) steps w w' (view_of sm w')"
    unfolding run_rows_def
  proof
    fix s assume "s \<in> set steps"
    with rows obtain j r where r: "map_of sm (sd_id s) = Some j" "find_step w j = None" "find_step w' j = Some r"
      "se_tenant_id r = T" "se_execution_id r = ex_id x" "se_step_id r = sd_id s"
      "se_step_type r = step_type_value (sd_type s)" "se_max_attempts r = max_attempts_of s" by blast
    moreover have "se_id r = j" by (rule stt.find_key [OF r(3)])
    ultimately show "\<exists>r. view_of sm w' (sd_id s) = Some (r, step_history (se_id r) (w_events w')) \<and>
      find_step w (se_id r) = None \<and> find_step w' (se_id r) = Some r \<and> se_tenant_id r = T \<and>
      se_execution_id r = ex_id x \<and> se_step_id r = sd_id s \<and> se_step_type r = step_type_value (sd_type s) \<and>
      se_max_attempts r = max_attempts_of s" by (auto simp: view_of_def)
  qed
  with fin show ?thesis using that by (simp add: step_table_def)
qed

lemma finished_cases:
  assumes "finished P E defs order view outs st err hist"
  obtains (completed) "st = Completed" "err = None" "hist = [Running, Completed]" "settled P E defs view outs order"
  | (failed) pre s later where "order = pre @ s # later" "st = Failed" "err = Some (exhausted_error s)"
      "hist = [Running]" "settled P E defs view outs pre" "failed_step view s"
      "\<forall>c\<in>set pre. s \<notin> skipped_by E defs view c" "\<forall>t\<in>set later. untouched_step view t"
proof -
  from assms obtain pre rest where p: "order = pre @ rest" "settled P E defs view outs pre"
    "case rest of
         [] \<Rightarrow> st = Completed \<and> err = None \<and> hist = [Running, Completed]
       | s # later \<Rightarrow> st = Failed \<and> err = Some (exhausted_error s) \<and> hist = [Running] \<and>
           failed_step view s \<and> (\<forall>c\<in>set pre. s \<notin> skipped_by E defs view c) \<and>
           (\<forall>t\<in>set later. untouched_step view t)"
    unfolding finished_def by blast
  then show ?thesis by (cases rest) (use that in auto)
qed

lemma accepted_run_result:
  assumes "T < 2 ^ 128" "fresh_ids E w" "parse_workflow_definition E (raw_definition flow) = Some (Inr parsed)"
    and "\<forall>s\<in>set (wfd_steps parsed). sd_type s = CONDITION \<longrightarrow> branches_ok s"
  obtains x w' where "start_execution E flow trigger T replayed D w = (Inr x, w')"
    "run_result (produced E T D (engine_runner E)) E T flow trigger replayed (wfd_steps parsed) w x w'"
    "ex_status x \<in> {Completed, Failed}"
proof -
  obtain res w' where run: "start_execution E flow trigger T replayed D w = (res, w')"
    "case res of
       Inl e \<Rightarrow> branch_failure E (map_of (map (\<lambda>s. (sd_id s, s)) (wfd_steps parsed)))
         (topological_sort (wfd_steps parsed)) e
     | Inr x \<Rightarrow> run_result (produced E T D (engine_runner E)) E T flow trigger replayed (wfd_steps parsed) w x w'"
    by (rule start_execution_run [OF assms(1-3)])
  have "distinct (map sd_id (wfd_steps parsed))" using parsed_dag [OF assms(3)] by (simp add: dag_def)
  with run(2) branches_ok_no_failure [OF _ assms(4)]
  obtain x where x: "res = Inr x" "run_result (produced E T D (engine_runner E)) E T flow trigger replayed (wfd_steps parsed) w x w'"
    by (cases res) auto
  from x(2) obtain view where "finished (produced E T D (engine_runner E)) E (step_table (wfd_steps parsed))
      (topological_sort (wfd_steps parsed)) view (outputs (ex_context x)) (ex_status x)
      (ex_error x) (execution_history (ex_id x) (w_events w'))" by (rule run_result_rows)
  then have "ex_status x \<in> {Completed, Failed}" by (cases rule: finished_cases) simp_all
  with run(1) x that show ?thesis by blast
qed

text \<open>
  C3. Starting an accepted workflow whose condition steps list scalars as branches always
  returns an execution, completed or failed: no step, however it fails, makes the engine
  raise, and every retry loop ends.
\<close>

theorem run_always_settles:
  assumes "T < 2 ^ 128" "fresh_ids E w" "parse_workflow_definition E (raw_definition flow) = Some (Inr parsed)"
    and "\<forall>s\<in>set (wfd_steps parsed). sd_type s = CONDITION \<longrightarrow> branches_ok s"
  shows "\<exists>x w'. start_execution E flow trigger T replayed D w = (Inr x, w') \<and> find_execution w (ex_id x) = None \<and>
    find_execution w' (ex_id x) = Some x \<and> ex_status x \<in> {Completed, Failed} \<and> ex_tenant_id x = T \<and>
    ex_workflow_id x = wf_id flow \<and> ex_trigger_data x = trigger \<and> ex_replayed_from x = replayed"
  by (rule accepted_run_result [OF assms]) (auto simp: run_result_def)

text \<open>Two runs of the demonstration documents, evaluated.\<close>

definition start_demo :: "dict list \<Rightarrow> (exn + execution) \<times> world" where
  "start_demo steps = start_execution demo_env (demo_flow steps) [] 7 None 0 empty_world"

definition ended :: "status \<Rightarrow> status list \<Rightarrow> (exn + execution) \<times> world \<Rightarrow> bool" where
  "ended st rows r = (case r of (Inr x, w) \<Rightarrow> ex_status x = st \<and> map se_status (w_steps w) = rows | _ \<Rightarrow> False)"

lemma demo_completes: "ended Completed [Completed, Completed, Completed, Skipped] (start_demo demo_steps)"
  by code_simp

lemma demo_fails: "ended Failed [Failed, Pending] (start_demo failing_steps)"
  by code_simp

lemma endedE:
  assumes "ended st rows (start_demo steps)"
  obtains x w where "start_execution demo_env (demo_flow steps) [] 7 None 0 empty_world = (Inr x, w)"
    "ex_status x = st" "map se_status (w_steps w) = rows"
  using assms by (auto simp: ended_def start_demo_def split: prod.splits sum.splits)

lemma demo_branches:
  "\<exists>parsed. parse_workflow_definition demo_env (raw_definition (demo_flow demo_steps)) = Some (Inr parsed) \<and>
    (\<forall>s\<in>set (wfd_steps parsed). sd_type s = CONDITION \<longrightarrow> branches_ok s)"
proof -
  have "case parse_workflow_definition demo_env (raw_definition (demo_flow demo_steps)) of
      Some (Inr d) \<Rightarrow> list_all (\<lambda>s. \<not> isl (branch_set (dict_get (sd_config s) ''true_branch'' (JList []))) \<and>
        \<not> isl (branch_set (dict_get (sd_config s) ''false_branch'' (JList [])))) (wfd_steps d)
    | _ \<Rightarrow> False"
    by code_simp
  then obtain d where d: "parse_workflow_definition demo_env (raw_definition (demo_flow demo_steps)) = Some (Inr d)"
    "\<forall>s\<in>set (wfd_steps d). \<not> isl (branch_set (dict_get (sd_config s) ''true_branch'' (JList []))) \<and>
        \<not> isl (branch_set (dict_get (sd_config s) ''false_branch'' (JList [])))"
    by (auto simp: list_all_iff split: option.splits sum.splits)
  moreover have "\<exists>y. r = Inr y" if "\<not> isl r" for r :: "exn + string list"
    using that by (cases r) auto
  ultimately show ?thesis unfolding branches_ok_def by blast
qed

theorem run_always_settles_witness:
  "\<exists>x w'. start_execution demo_env (demo_flow demo_steps) [] 7 None 0 empty_world = (Inr x, w') \<and>
    ex_status x \<in> {Completed, Failed} \<and> ex_tenant_id x = 7"
proof -
  from demo_branches obtain parsed where
    "parse_workflow_definition demo_env (raw_definition (demo_flow demo_steps)) = Some (Inr parsed)"
    "\<forall>s\<in>set (wfd_steps parsed). sd_type s = CONDITION \<longrightarrow> branches_ok s" by blast
  from run_always_settles [OF _ demo_fresh this, of 7 "[]" None 0] show ?thesis by auto
qed

text \<open>
  C1. A completed execution went through running to completed, and every step of the workflow was
  either skipped, exactly when an earlier condition skips it, or completed: within its
  attempts, with its output stored in the row and in the context, and produced from a context
  holding exactly the outputs of the steps before it in the order.
\<close>

theorem completed_run:
  assumes "T < 2 ^ 128" "fresh_ids E w" "start_execution E flow trigger T replayed D w = (Inr x, w')"
    and "ex_status x = Completed"
  shows "\<exists>parsed view. parse_workflow_definition E (raw_definition flow) = Some (Inr parsed) \<and>
    run_rows T (ex_id x) (wfd_steps parsed) w w' view \<and> ex_error x = None \<and>
    execution_history (ex_id x) (w_events w') = [Running, Completed] \<and>
    (\<forall>pre s post. topological_sort (wfd_steps parsed) = pre @ s # post \<longrightarrow>
      (if \<exists>c\<in>set pre. s \<in> skipped_by E (step_table (wfd_steps parsed)) view c
       then skipped_step view (outputs (ex_context x)) s
       else completed_step (produced E T D (engine_runner E)) (step_table (wfd_steps parsed)) view
         (outputs (ex_context x)) pre s))"
proof -
  obtain parsed where p: "parse_workflow_definition E (raw_definition flow) = Some (Inr parsed)"
    "run_result (produced E T D (engine_runner E)) E T flow trigger replayed (wfd_steps parsed) w x w'"
    by (rule start_execution_parsed [OF assms(1-3)])
  from p(2) obtain view where v: "run_rows T (ex_id x) (wfd_steps parsed) w w' view"
    "finished (produced E T D (engine_runner E)) E (step_table (wfd_steps parsed)) (topological_sort (wfd_steps parsed))
      view (outputs (ex_context x)) (ex_status x) (ex_error x) (execution_history (ex_id x) (w_events w'))"
    by (rule run_result_rows)
  from v(2) assms(4) have "settled (produced E T D (engine_runner E)) E (step_table (wfd_steps parsed)) view
      (outputs (ex_context x)) (topological_sort (wfd_steps parsed))" "ex_error x = None"
    "execution_history (ex_id x) (w_events w') = [Running, Completed]"
    by (cases rule: finished_cases; simp)+
  with p(1) v(1) show ?thesis unfolding settled_def by blast
qed

theorem completed_run_witness:
  "\<exists>x w'. start_execution demo_env (demo_flow demo_steps) [] 7 None 0 empty_world = (Inr x, w') \<and>
    ex_status x = Completed \<and> ex_error x = None \<and> execution_history (ex_id x) (w_events w') = [Running, Completed]"
proof -
  obtain x w' where run: "start_execution demo_env (demo_flow demo_steps) [] 7 None 0 empty_world = (Inr x, w')"
    "ex_status x = Completed" using demo_completes by (rule endedE)
  from completed_run [OF _ demo_fresh run] have "ex_error x = None \<and>
      execution_history (ex_id x) (w_events w') = [Running, Completed]" by auto
  with run show ?thesis by blast
qed

text \<open>
  C2. An execution that failed stopped at one step: that step used up all its attempts and
  carries an error, the steps before it are settled as in a completed run, the steps after it
  were never touched, and the error of the execution names the step. The failure itself is
  not among the recorded transitions: the history of a failed run is running only.
\<close>

theorem failed_run:
  assumes "T < 2 ^ 128" "fresh_ids E w" "start_execution E flow trigger T replayed D w = (Inr x, w')"
    and "ex_status x = Failed"
  shows "\<exists>parsed view pre s later. parse_workflow_definition E (raw_definition flow) = Some (Inr parsed) \<and>
    run_rows T (ex_id x) (wfd_steps parsed) w w' view \<and>
    topological_sort (wfd_steps parsed) = pre @ s # later \<and> ex_error x = Some (exhausted_error s) \<and>
    settled (produced E T D (engine_runner E)) E (step_table (wfd_steps parsed)) view (outputs (ex_context x)) pre \<and>
    failed_step view s \<and> (\<forall>t\<in>set later. untouched_step view t) \<and>
    execution_history (ex_id x) (w_events w') = [Running]"
proof -
  obtain parsed where p: "parse_workflow_definition E (raw_definition flow) = Some (Inr parsed)"
    "run_result (produced E T D (engine_runner E)) E T flow trigger replayed (wfd_steps parsed) w x w'"
    by (rule start_execution_parsed [OF assms(1-3)])
  from p(2) obtain view where v: "run_rows T (ex_id x) (wfd_steps parsed) w w' view"
    "finished (produced E T D (engine_runner E)) E (step_table (wfd_steps parsed)) (topological_sort (wfd_steps parsed))
      view (outputs (ex_context x)) (ex_status x) (ex_error x) (execution_history (ex_id x) (w_events w'))"
    by (rule run_result_rows)
  from v(2) show ?thesis
  proof (cases rule: finished_cases)
    case completed
    with assms(4) show ?thesis by simp
  next
    case (failed pre s later)
    with p(1) v(1) show ?thesis by blast
  qed
qed

theorem failed_run_witness:
  "\<exists>x w' s. start_execution demo_env (demo_flow failing_steps) [] 7 None 0 empty_world = (Inr x, w') \<and>
    ex_status x = Failed \<and> ex_error x = Some (exhausted_error s) \<and> execution_history (ex_id x) (w_events w') = [Running]"
proof -
  obtain x w' where run: "start_execution demo_env (demo_flow failing_steps) [] 7 None 0 empty_world = (Inr x, w')"
    "ex_status x = Failed" using demo_fails by (rule endedE)
  from failed_run [OF _ demo_fresh run] have "\<exists>s. ex_error x = Some (exhausted_error s) \<and>
      execution_history (ex_id x) (w_events w') = [Running]" by auto
  with run show ?thesis by blast
qed

text \<open>
  C7. A run of a tenant touches nothing else: every execution and step that existed before,
  of this or any other tenant, is as it was; all new rows belong to the tenant; tenants,
  workflows, logs and deliveries are unchanged. This holds for nested runs and for runs that raise.
\<close>

theorem run_isolated:
  assumes "T < 2 ^ 128" "fresh_ids E w" "start_execution E flow trigger T replayed D w = (r, w')"
  shows "(\<forall>i y. find_execution w i = Some y \<longrightarrow> find_execution w' i = Some y) \<and>
    (\<forall>i s. find_step w i = Some s \<longrightarrow> find_step w' i = Some s) \<and>
    (\<forall>i y. find_execution w i = None \<longrightarrow> find_execution w' i = Some y \<longrightarrow> ex_tenant_id y = T) \<and>
    (\<forall>i s. find_step w i = None \<longrightarrow> find_step w' i = Some s \<longrightarrow> se_tenant_id s = T) \<and>
    w_tenants w' = w_tenants w \<and> w_workflows w' = w_workflows w \<and> w_logs w' = w_logs w \<and>
    w_deliveries w' = w_deliveries w"
proof -
  have ev: "evolves E T {} {} w w'" by (rule start_execution_evolves [OF assms])
  have "find_execution w i = Some y \<Longrightarrow> find_execution w' i = Some y" for i y
    using evolves_execution [OF ev] by simp
  moreover have "find_step w i = Some s \<Longrightarrow> find_step w' i = Some s" for i s
    using evolves_step [OF ev] by simp
  moreover note evolves_new_execution [OF ev] evolves_new_step [OF ev] evolves_tables [OF ev]
  ultimately show ?thesis unfolding same_tables_def by blast
qed

theorem run_isolated_witness:
  "\<exists>w'. snd (start_execution demo_env (demo_flow demo_steps) [] 7 None 0 empty_world) = w' \<and>
    (\<forall>i y. find_execution w' i = Some y \<longrightarrow> ex_tenant_id y = 7) \<and> w_workflows w' = []"
proof -
  obtain x w' where run: "start_execution demo_env (demo_flow demo_steps) [] 7 None 0 empty_world = (Inr x, w')"
    using demo_completes by (rule endedE)
  have "find_execution empty_world i = None" for i by (simp add: find_execution_def empty_world_def)
  with run_isolated [OF _ demo_fresh run] run show ?thesis by (simp add: empty_world_def)
qed

text \<open>
  C22. The bound on nested runs is enough: any larger fuel gives the same result, so the
  model of \<open>start_execution\<close> never ends a run the code would continue.
\<close>

theorem nesting_bound_enough:
  assumes "T < 2 ^ 128" "fresh_ids E w" "0 \<le> D" "nat (max_sub_workflow_depth (env_settings E)) \<le> n"
  shows "start_execution_with E (run_step n E) flow trigger T replayed D w =
    start_execution E flow trigger T replayed D w"
  by (rule start_execution_fuel [OF assms])

theorem nesting_bound_enough_witness:
  "start_execution_with demo_env (run_step 100 demo_env) (demo_flow demo_steps) [] 7 None 0 empty_world =
    start_demo demo_steps"
  using nesting_bound_enough [OF _ demo_fresh, of 7 0 100]
  by (simp add: start_demo_def demo_env_def default_settings_def)

lemma sub_workflow_produces_nothing:
  assumes "\<not> env_tracks_mutation E" "T < 2 ^ 128" "sd_type s = SUB_WORKFLOW" "defs t = Some s"
  shows "\<not> completed_step (produced E T D (engine_runner E)) defs view outs pre t"
proof
  assume "completed_step (produced E T D (engine_runner E)) defs view outs pre t"
  then obtain c out where "produced E T D (engine_runner E) s c out" using assms(4) by (auto simp: completed_step_def)
  then obtain v v' where "stored E T D c" "engine_runner E s (step_input_of c s) v = (Inr out, v')"
    by (auto simp: produced_def)
  moreover from sub_workflow_needs_tracking [OF assms(1) calculation(1) assms(3,2)]
  have "\<exists>e. engine_runner E s (step_input_of c s) v = (Inl e, v)" by (simp add: engine_runner_def)
  ultimately show False by auto
qed

text \<open>
  C36. Unless the ORM notices changes inside the context, no sub-workflow step ever completes, in
  a run that completes or fails: its row is skipped by a condition, or it failed in all its
  attempts and the run failed at it, or the run failed at an earlier step and never reached it.
\<close>

theorem sub_workflow_never_completes:
  assumes "\<not> env_tracks_mutation E" "T < 2 ^ 128" "fresh_ids E w"
    and "start_execution E flow trigger T replayed D w = (Inr x, w')"
    and "parse_workflow_definition E (raw_definition flow) = Some (Inr parsed)"
    and "s \<in> set (wfd_steps parsed)" "sd_type s = SUB_WORKFLOW"
  shows "\<exists>r. find_step w (se_id r) = None \<and> find_step w' (se_id r) = Some r \<and> se_execution_id r = ex_id x \<and>
    se_step_id r = sd_id s \<and> se_output_data r = None \<and>
    (se_status r = Skipped \<or>
     se_status r = Failed \<and> se_attempt r = se_max_attempts r \<and> se_error r \<noteq> None \<and>
       ex_status x = Failed \<and> ex_error x = Some (exhausted_error (sd_id s)) \<or>
     se_status r = Pending \<and> ex_status x = Failed \<and>
       (\<exists>pre t later. topological_sort (wfd_steps parsed) = pre @ t # later \<and> sd_id s \<in> set later \<and>
         ex_error x = Some (exhausted_error t)))"
proof -
  let ?P = "produced E T D (engine_runner E)" and ?defs = "step_table (wfd_steps parsed)"
  let ?order = "topological_sort (wfd_steps parsed)"
  have result: "run_result ?P E T flow trigger replayed (wfd_steps parsed) w x w'"
    by (rule start_execution_parsed [OF assms(2-4)]) (use assms(5) in simp)
  obtain view where rows: "run_rows T (ex_id x) (wfd_steps parsed) w w' view"
    and fin: "finished ?P E ?defs ?order view (outputs (ex_context x)) (ex_status x) (ex_error x)
      (execution_history (ex_id x) (w_events w'))"
    by (rule run_result_rows [OF result])
  from rows assms(6) obtain r where r: "view (sd_id s) = Some (r, step_history (se_id r) (w_events w'))"
    "find_step w (se_id r) = None" "find_step w' (se_id r) = Some r" "se_execution_id r = ex_id x" "se_step_id r = sd_id s"
    unfolding run_rows_def by blast
  note dag = parsed_dag [OF assms(5)]
  have "sd_id s \<in> set ?order" using dag dag_order(2) assms(6) by simp
  have row: "?defs (sd_id s) = Some s" using dag map_of_steps(2) [OF _ assms(6)] by (simp add: step_table_def dag_def)
  have never: "\<not> completed_step ?P ?defs view (outputs (ex_context x)) pre (sd_id s)" for pre
    by (rule sub_workflow_produces_nothing [where s = s]) (use assms row in simp_all)
  have skipped: "se_status r = Skipped \<and> se_output_data r = None"
    if before: "settled ?P E ?defs view (outputs (ex_context x)) past" "sd_id s \<in> set past" for past
  proof -
    obtain pre post where "past = pre @ sd_id s # post" using before(2) by (meson split_list)
    with before(1) never have "skipped_step view (outputs (ex_context x)) (sd_id s)"
      unfolding settled_def by metis
    with r(1) show ?thesis by (auto simp: skipped_step_def)
  qed
  from fin show ?thesis
  proof (cases rule: finished_cases)
    case completed
    from skipped [OF completed(4) \<open>sd_id s \<in> set ?order\<close>] r show ?thesis by blast
  next
    case (failed pre t later)
    then consider "sd_id s \<in> set pre" | "sd_id s = t" | "sd_id s \<in> set later" using \<open>sd_id s \<in> set ?order\<close> by auto
    then show ?thesis
    proof cases
      case 1
      from skipped [OF failed(5) this] r show ?thesis by blast
    next
      case 2
      with failed(6) r(1) have "se_status r = Failed" "se_attempt r = se_max_attempts r" "se_output_data r = None" "se_error r \<noteq> None"
        by (auto simp: failed_step_def)
      with r failed(2,3) 2 show ?thesis by blast
    next
      case 3
      with failed(8) r(1) have "se_status r = Pending" "se_output_data r = None" by (auto simp: untouched_step_def)
      with r failed(1-3) 3 show ?thesis by blast
    qed
  qed
qed

definition sub_steps :: "dict list" where
  "sub_steps =
    [demo_step ''ask'' ''condition'' [(''expression'', JStr ''x''), (''false_branch'', JList [JStr ''sub''])] [],
     demo_step ''sub'' ''sub_workflow'' [(''workflow_id'', JStr ''1'')] [''ask'']]"

definition lone_sub_step :: "dict list" where
  "lone_sub_step = [demo_step ''sub'' ''sub_workflow'' [(''workflow_id'', JStr ''1'')] []]"

lemma sub_in_demo:
  assumes "steps \<in> {sub_steps, lone_sub_step}"
  obtains d s where "parse_workflow_definition demo_env (raw_definition (demo_flow steps)) = Some (Inr d)"
    "s \<in> set (wfd_steps d)" "sd_id s = ''sub''" "sd_type s = SUB_WORKFLOW"
proof -
  have "list_all (\<lambda>steps. case parse_workflow_definition demo_env (raw_definition (demo_flow steps)) of
      Some (Inr d) \<Rightarrow> list_ex (\<lambda>s. sd_id s = ''sub'' \<and> sd_type s = SUB_WORKFLOW) (wfd_steps d) | _ \<Rightarrow> False)
    [sub_steps, lone_sub_step]"
    by code_simp
  with assms that show ?thesis by (auto simp: list_ex_iff split: option.splits sum.splits)
qed

theorem sub_workflow_never_completes_witness:
  "(\<exists>x w' r. start_execution demo_env (demo_flow sub_steps) [] 7 None 0 empty_world = (Inr x, w') \<and>
      ex_status x = Completed \<and> find_step w' (se_id r) = Some r \<and> se_step_id r = ''sub'' \<and> se_status r = Skipped) \<and>
   (\<exists>x w' r. start_execution demo_env (demo_flow lone_sub_step) [] 7 None 0 empty_world = (Inr x, w') \<and>
      ex_status x = Failed \<and> find_step w' (se_id r) = Some r \<and> se_step_id r = ''sub'' \<and> se_status r \<noteq> Completed)"
proof
  have tracks: "\<not> env_tracks_mutation demo_env" by (simp add: demo_env_def)
  have "ended Completed [Completed, Skipped] (start_demo sub_steps)" by code_simp
  then obtain x w' where run: "start_execution demo_env (demo_flow sub_steps) [] 7 None 0 empty_world = (Inr x, w')"
    "ex_status x = Completed" by (rule endedE)
  obtain d s where "parse_workflow_definition demo_env (raw_definition (demo_flow sub_steps)) = Some (Inr d)"
    "s \<in> set (wfd_steps d)" "sd_id s = ''sub''" "sd_type s = SUB_WORKFLOW" by (rule sub_in_demo [of sub_steps]) simp
  from sub_workflow_never_completes [OF tracks _ demo_fresh run(1) this(1,2,4)] this(3) run
  show "\<exists>x w' r. start_execution demo_env (demo_flow sub_steps) [] 7 None 0 empty_world = (Inr x, w') \<and>
      ex_status x = Completed \<and> find_step w' (se_id r) = Some r \<and> se_step_id r = ''sub'' \<and> se_status r = Skipped" by auto
next
  have tracks: "\<not> env_tracks_mutation demo_env" by (simp add: demo_env_def)
  have "ended Failed [Failed] (start_demo lone_sub_step)" by code_simp
  then obtain x w' where run: "start_execution demo_env (demo_flow lone_sub_step) [] 7 None 0 empty_world = (Inr x, w')"
    "ex_status x = Failed" by (rule endedE)
  obtain d s where "parse_workflow_definition demo_env (raw_definition (demo_flow lone_sub_step)) = Some (Inr d)"
    "s \<in> set (wfd_steps d)" "sd_id s = ''sub''" "sd_type s = SUB_WORKFLOW" by (rule sub_in_demo [of lone_sub_step]) simp
  from sub_workflow_never_completes [OF tracks _ demo_fresh run(1) this(1,2,4)] this(3) run
  show "\<exists>x w' r. start_execution demo_env (demo_flow lone_sub_step) [] 7 None 0 empty_world = (Inr x, w') \<and>
      ex_status x = Failed \<and> find_step w' (se_id r) = Some r \<and> se_step_id r = ''sub'' \<and> se_status r \<noteq> Completed" by force
qed

end
