(* ===== verification/Service_Properties.thy ===== *)
theory Service_Properties
  imports Demo
begin

text \<open>
  The properties of the services around the engine: executions behind the API, workflow
  definitions, the cache, tenants, authentication, rate limits and webhooks.
\<close>

section \<open>Executions\<close>

text \<open>
  C17. Cancelling a pending or running execution of the tenant marks it cancelled and skips its
  steps that are pending, queued or running. Everything else stays as it was: its other steps and
  its context, every other execution, the steps of every other execution, and the tables of the
  tenants, workflows, logs and deliveries; no row appears and none disappears.
\<close>

theorem cancel_effect:
  assumes "keys_ok w" "find_execution w i = Some x" "ex_tenant_id x = T" "ex_status x \<in> {Pending, Running}"
  shows "\<exists>x' w'. cancel_execution E T i w = (Inr True, w') \<and> find_execution w' i = Some x' \<and>
    ex_status x' = Cancelled \<and> ex_context x' = ex_context x \<and> ex_trigger_data x' = ex_trigger_data x \<and>
    ex_tenant_id x' = ex_tenant_id x \<and> ex_workflow_id x' = ex_workflow_id x \<and>
    (\<forall>s\<in>set (step_executions w i). \<exists>s'. find_step w' (se_id s) = Some s' \<and>
      (if se_status s \<in> {Pending, Queued, Running} then se_status s' = Skipped \<and> se_output_data s' = se_output_data s
       else s' = s)) \<and>
    (\<forall>j y. j \<noteq> i \<longrightarrow> find_execution w j = Some y \<longrightarrow> find_execution w' j = Some y) \<and>
    (\<forall>j s. find_step w j = Some s \<longrightarrow> se_execution_id s \<noteq> i \<longrightarrow> find_step w' j = Some s) \<and>
    map ex_id (w_executions w') = map ex_id (w_executions w) \<and> map se_id (w_steps w') = map se_id (w_steps w) \<and>
    w_tenants w' = w_tenants w \<and> w_workflows w' = w_workflows w \<and> w_logs w' = w_logs w \<and> w_deliveries w' = w_deliveries w"
proof -
  obtain x' w' where c: "cancel_execution E T i w = (Inr True, w')" "find_execution w' i = Some x'"
    "ex_status x' = Cancelled" "ex_context x' = ex_context x" "ex_base x' = ex_base x"
    "\<forall>s\<in>set (step_executions w i). \<exists>s'. find_step w' (se_id s) = Some s' \<and>
      (if active (se_status s) then se_status s' = Skipped \<and> se_base s' = se_base s \<and> se_output_data s' = se_output_data s
       else s' = s)"
    "evolves E T {i} {j. \<exists>s\<in>set (step_executions w i). active (se_status s) \<and> j = se_id s} (opened E w) w'"
    by (rule cancel_run [OF assms])
  have "find_execution w' j = Some y" if "j \<noteq> i" "find_execution w j = Some y" for j y
    using evolves_execution [OF c(7), of j y] that by simp
  moreover have "find_step w' j = Some s" if "find_step w j = Some s" "se_execution_id s \<noteq> i" for j s
  proof -
    have "j \<noteq> se_id t" if "t \<in> set (step_executions w i)" for t
      using find_step_in [OF assms(1), of t] that \<open>find_step w j = Some s\<close> \<open>se_execution_id s \<noteq> i\<close>
      by (auto simp: step_executions_def)
    then show ?thesis using evolves_step [OF c(7), of j s] that(1) by auto
  qed
  moreover have "\<forall>s\<in>set (step_executions w i). \<exists>s'. find_step w' (se_id s) = Some s' \<and>
      (if active (se_status s) then se_status s' = Skipped \<and> se_output_data s' = se_output_data s else s' = s)"
    using c(6) by (metis (full_types))
  moreover have "w_tenants w' = w_tenants w" "w_workflows w' = w_workflows w" "w_logs w' = w_logs w" "w_deliveries w' = w_deliveries w"
    using evolves_tables [OF c(7)] by (simp_all add: same_tables_def)
  moreover have "map ex_id (w_executions w') = map ex_id (w_executions w)" "map se_id (w_steps w') = map se_id (w_steps w)"
    using cancel_keys [OF c(1)] by (simp_all add: row_keys_def)
  ultimately show ?thesis using c(1-5) unfolding ex_base_eq by blast
qed

theorem cancel_effect_witness:
  "\<exists>x' w'. cancel_execution demo_env 7 5 (service_world Running) = (Inr True, w') \<and>
    find_execution w' 5 = Some x' \<and> ex_status x' = Cancelled"
proof -
  have "ex_status (stored_execution Running) \<in> {Pending, Running}" by (simp add: service_simps)
  from cancel_effect [OF service_simps(5) service_row service_simps(1) this, of demo_env] show ?thesis by blast
qed

text \<open>
  Every other request to cancel, for an execution that does not exist, belongs to another
  tenant, or has ended, is answered 404 or 409 and changes no row.
\<close>

theorem cancel_refused:
  assumes "\<not> (\<exists>x. find_execution w i = Some x \<and> ex_tenant_id x = T \<and> ex_status x \<in> {Pending, Running})"
  shows "\<exists>c m st w'. cancel_execution E T i w = (Inl (AppError c m st []), w') \<and> st \<in> {404, 409} \<and> same_rows w w'"
  by (rule cancel_rejected [OF assms])

theorem cancel_refused_witness:
  "(\<exists>c m st w'. cancel_execution demo_env 7 5 (service_world Completed) = (Inl (AppError c m st []), w') \<and>
      st \<in> {404, 409} \<and> same_rows (service_world Completed) w') \<and>
   (\<exists>c m st w'. cancel_execution demo_env 8 5 (service_world Running) = (Inl (AppError c m st []), w') \<and>
      st \<in> {404, 409} \<and> same_rows (service_world Running) w')"
  by (intro conjI cancel_refused) (simp_all add: service_row service_simps)

text \<open>
  A client that follows the cursors of the execution list sees every matching execution
  of its tenant exactly once, in the order of time and id, whatever the page size.
\<close>

lemma listing_by_cursors:
  assumes "keys_ok w" "0 < limit" "length (matching_executions T f w) \<le> n"
  shows "crawl (\<lambda>c. list_executions T f limit c w) (Suc n) None =
    map execution_to_response (sort_key (\<lambda>x. (ex_created_at x, ex_id x)) (matching_executions T f w))"
proof -
  have page: "list_executions T f limit c w =
      (map execution_to_response (fst (page_of ex_created_at ex_id limit c (matching_executions T f w))),
       snd (page_of ex_created_at ex_id limit c (matching_executions T f w)))" for c
    by (simp add: list_executions_def split: prod.split)
  have "crawl (\<lambda>c. (map g (fst (h c)), snd (h c))) k c = map g (crawl h k c)"
    for g :: "execution \<Rightarrow> execution_response" and h k c
    by (induction k arbitrary: c) (simp_all split: option.split)
  with exr.crawl_all [OF assms] show ?thesis
    by (simp add: page exr.ordered_rows_def exr.key_def [abs_def])
qed

text \<open>
  Reading is scoped to the tenant: a request for an execution that is not the tenant's is
  answered 404, a request for its own returns that execution and its steps, and no read
  changes anything.
\<close>

theorem reads_scoped:
  "get_execution T i w =
    (case find_execution w i of
       Some x \<Rightarrow> if ex_tenant_id x = T
         then (Inr (execution_to_response x, map step_execution_to_response (step_executions w i)), w)
         else (Inl (AppError ''NOT_FOUND'' ''Execution not found.'' 404 []), w)
     | None \<Rightarrow> (Inl (AppError ''NOT_FOUND'' ''Execution not found.'' 404 []), w)) \<and>
   (\<forall>r\<in>set (matching_executions T f w). ex_tenant_id r = T)"
  using ext.find_key [of w i]
  by (auto simp: get_execution_def get_tenant_execution_def andthen_def not_found_def matching_executions_def
      split: option.split)

theorem reads_scoped_witness:
  "get_execution 8 5 (service_world Running) =
    (Inl (AppError ''NOT_FOUND'' ''Execution not found.'' 404 []), service_world Running)"
  using reads_scoped [of 8 5 "service_world Running"] by (simp add: service_row stored_execution_def new_execution_def)

text \<open>
  An operation that raises leaves every row as it was: a manual run, a cancellation and
  a replay that fail are rolled back.
\<close>

theorem failed_operations_roll_back:
  "(manual_execute E T wid body w = (Inl e, w') \<longrightarrow> same_rows w w') \<and>
   (cancel_execution E T i w = (Inl e, w') \<longrightarrow> same_rows w w') \<and>
   (replay_execution_endpoint E T i override w = (Inl e, w') \<longrightarrow> same_rows w w')"
  by (auto simp: manual_execute_def cancel_execution_def replay_execution_endpoint_def dest: in_session_error split: if_splits)

theorem failed_operations_roll_back_witness:
  "\<exists>e w'. manual_execute demo_env 8 3 [] (service_world Running) = (Inl e, w') \<and> same_rows (service_world Running) w'"
proof -
  have "get_tenant_workflow 3 8 (opened demo_env (service_world Running)) =
      (Inl (not_found ''Workflow''), opened demo_env (service_world Running))"
    by (simp add: get_tenant_workflow_def service_simps) (simp add: demo_flow_def)
  then have "\<exists>e w'. manual_execute demo_env 8 3 [] (service_world Running) = (Inl e, w')"
    by (simp add: manual_execute_def in_session_Inl andthen_def)
  then show ?thesis using failed_operations_roll_back by blast
qed

lemma andthen_Inr_iff:
  "andthen m k w = (Inr y, w') \<longleftrightarrow> (\<exists>x v. m w = (Inr x, v) \<and> k x v = (Inr y, w'))"
  by (auto simp: andthen_def split: prod.splits sum.splits)

lemma replay_execution_Inr:
  "replay_execution E i T override w = (Inr x, w') \<longleftrightarrow>
    (\<exists>orig flow trigger. find_execution w i = Some orig \<and> ex_tenant_id orig = T \<and>
      find_workflow w (ex_workflow_id orig) = Some flow \<and> wf_tenant_id flow = T \<and> wf_is_active flow \<and>
      merge_override (ex_trigger_data orig) override = Inr trigger \<and>
      start_execution E flow trigger T (Some i) 0 w = (Inr x, w'))"
  by (simp add: replay_execution_def andthen_Inr_iff lookup_simps)

text \<open>
  C18. A replay runs the original's workflow again: a new execution of the tenant, linked to the
  original, with its trigger data, the override merged key by key into the data section; the
  original stays as it was.
\<close>

theorem replay_links:
  assumes "T < 2 ^ 128" "fresh_ids E w" "replay_execution E i T override w = (Inr x, w')"
  shows "\<exists>orig flow trigger. find_execution w i = Some orig \<and> ex_tenant_id orig = T \<and>
    find_workflow w (ex_workflow_id orig) = Some flow \<and> wf_tenant_id flow = T \<and> wf_is_active flow \<and>
    ex_replayed_from x = Some i \<and> ex_workflow_id x = ex_workflow_id orig \<and> ex_tenant_id x = T \<and>
    ex_trigger_data x = trigger \<and> (override = [] \<longrightarrow> trigger = ex_trigger_data orig) \<and>
    (\<forall>d. override \<noteq> [] \<longrightarrow> dict_get (ex_trigger_data orig) ''data'' (JObj []) = JObj d \<longrightarrow>
      dict_get trigger ''data'' JNull = JObj (dict_update d override)) \<and>
    (\<forall>k. k \<noteq> ''data'' \<longrightarrow> map_of trigger k = map_of (ex_trigger_data orig) k) \<and>
    find_execution w (ex_id x) = None \<and> find_execution w' i = Some orig"
proof -
  from assms(3) obtain orig flow trigger where orig: "find_execution w i = Some orig" "ex_tenant_id orig = T"
    and flow: "find_workflow w (ex_workflow_id orig) = Some flow"
    "wf_tenant_id flow = T" "wf_is_active flow" "merge_override (ex_trigger_data orig) override = Inr trigger"
    "start_execution E flow trigger T (Some i) 0 w = (Inr x, w')"
    unfolding replay_execution_Inr by blast
  obtain parsed :: workflow_definition where "run_result (produced E T 0 (engine_runner E)) E T flow trigger (Some i) (wfd_steps parsed) w x w'"
    by (rule start_execution_parsed [OF assms(1,2) flow(5)]) blast
  then have x: "find_execution w (ex_id x) = None" "ex_tenant_id x = T" "ex_workflow_id x = wf_id flow"
    "ex_trigger_data x = trigger" "ex_replayed_from x = Some i"
    by (simp_all add: run_result_def)
  have "find_execution w' i = Some orig"
    using evolves_execution [OF start_execution_evolves [OF assms(1,2) flow(5)] orig(1)] by simp
  moreover have "wf_id flow = ex_workflow_id orig" by (rule wft.find_key [OF flow(1)])
  moreover have "(override = [] \<longrightarrow> trigger = ex_trigger_data orig) \<and>
    (\<forall>d. override \<noteq> [] \<longrightarrow> dict_get (ex_trigger_data orig) ''data'' (JObj []) = JObj d \<longrightarrow>
      dict_get trigger ''data'' JNull = JObj (dict_update d override)) \<and>
    (\<forall>k. k \<noteq> ''data'' \<longrightarrow> map_of trigger k = map_of (ex_trigger_data orig) k)"
    using flow(4) by (auto simp: merge_override_def sum_bind_Inr_iff py_dict_def split: if_splits)
  ultimately show ?thesis using orig(1,2) flow(1-3) x by auto
qed

theorem replay_links_witness:
  "\<exists>x w'. replay_execution demo_env 5 7 [(''k'', JInt 1)] (service_world Completed) = (Inr x, w') \<and>
    ex_replayed_from x = Some 5 \<and> ex_workflow_id x = 3 \<and>
    find_execution w' 5 = Some (stored_execution Completed)"
proof -
  have "case replay_execution demo_env 5 7 [(''k'', JInt 1)] (service_world Completed) of (Inr x, w') \<Rightarrow> True | _ \<Rightarrow> False"
    by code_simp
  then obtain x w' where run: "replay_execution demo_env 5 7 [(''k'', JInt 1)] (service_world Completed) = (Inr x, w')"
    by (auto split: prod.splits sum.splits)
  have "ex_replayed_from x = Some 5 \<and>
      (\<exists>orig. find_execution (service_world Completed) 5 = Some orig \<and> ex_workflow_id x = ex_workflow_id orig \<and>
        find_execution w' 5 = Some orig)"
    using replay_links [OF _ service_fresh run] by auto
  with run show ?thesis by (auto simp: service_row service_simps)
qed

section \<open>Workflows\<close>

text \<open>
  C9. Creating, updating and deleting keep the catalogue in order, whatever the request and
  whatever fails: every stored workflow passes the parser, has a webhook path exactly when it
  is triggered by a webhook, and no two share a key or a path. Requests that the models of the API
  have validated keep every stored trigger one of webhook, cron and manual as well.
\<close>

theorem catalogue_kept:
  assumes "catalogue_ok E w" "fresh_workflows E w"
  shows "catalogue_ok E (snd (create_workflow E T b w)) \<and>
    catalogue_ok E (fst (snd (update_workflow E T i u (w, c)))) \<and>
    catalogue_ok E (fst (snd (delete_workflow E T i (w, c)))) \<and>
    (triggers_known w \<longrightarrow>
      (create_request_ok b \<longrightarrow> triggers_known (snd (create_workflow E T b w))) \<and>
      (update_request_ok u \<longrightarrow> triggers_known (fst (snd (update_workflow E T i u (w, c))))) \<and>
      triggers_known (fst (snd (delete_workflow E T i (w, c)))))"
  using create_keeps_catalogue [OF assms] update_keeps_catalogue [OF assms(1)] delete_keeps_catalogue [OF assms(1)]
    create_keeps_triggers [OF assms] update_keeps_triggers [OF assms(1)] delete_keeps_triggers by simp

lemma empty_catalogue: "catalogue_ok E empty_world" "fresh_workflows E empty_world"
  by (simp_all add: catalogue_ok_def unique_paths_def fresh_workflows_def find_workflow_def empty_world_def)

theorem catalogue_kept_witness:
  "catalogue_ok demo_env (snd (create_workflow demo_env 7 demo_create empty_world)) \<and>
    triggers_known (snd (create_workflow demo_env 7 demo_create empty_world)) \<and>
    length (w_workflows (snd (create_workflow demo_env 7 demo_create empty_world))) = 1"
proof -
  have "length (w_workflows (snd (create_workflow demo_env 7 demo_create empty_world))) = 1" by code_simp
  moreover have "create_request_ok demo_create" by code_simp
  moreover have "triggers_known empty_world" by (simp add: triggers_known_def empty_world_def)
  ultimately show ?thesis using catalogue_kept [OF empty_catalogue, of demo_env 7 demo_create] by blast
qed

lemma references_opened: "references_ok (opened E w) = references_ok w"
proof -
  have "w_executions (opened E w) = w_executions w" "w_steps (opened E w) = w_steps w" "w_logs (opened E w) = w_logs w"
    "w_deliveries (opened E w) = w_deliveries w" "w_workflows (opened E w) = w_workflows w"
    by (simp_all add: opened_def)
  then show ?thesis by (simp only: references_ok_def)
qed

text \<open>
  Deleting a workflow takes its executions, their steps and logs, and its deliveries with
  it, and leaves no row that refers to something gone; the rows of other workflows stay.
\<close>

theorem delete_keeps_references:
  assumes "references_ok w" "distinct (map ex_id (w_executions w))"
    and "find_workflow w i = Some f" "wf_tenant_id f = T"
  shows "\<exists>w'. delete_workflow E T i (w, c) = (Inr True, (w', invalidate i c)) \<and> references_ok w' \<and>
    find_workflow w' i = None \<and> (\<forall>x\<in>set (w_executions w'). ex_workflow_id x \<noteq> i) \<and>
    (\<forall>g\<in>set (w_workflows w). wf_id g \<noteq> i \<longrightarrow> g \<in> set (w_workflows w')) \<and>
    (\<forall>x\<in>set (w_executions w). ex_workflow_id x \<noteq> i \<longrightarrow> ex_id x \<in> ex_id ` set (w_executions w'))"
proof -
  let ?v = "opened E w" let ?w' = "cascade_delete i ?v"
  have "references_ok ?v" using assms(1) by (simp add: references_opened)
  then have "references_ok ?w'" using assms(2) by (intro cascade_delete_references) simp_all
  moreover have "find_workflow ?w' i = None"
    by (auto simp: find_workflow_def cascade_delete_def Let_def find_None_iff)
  moreover have "\<forall>x\<in>set (w_executions ?w'). ex_workflow_id x \<noteq> i"
    by (auto simp: cascade_delete_def Let_def)
  moreover have "\<forall>g\<in>set (w_workflows w). wf_id g \<noteq> i \<longrightarrow> g \<in> set (w_workflows ?w')"
    by (simp add: cascade_delete_def Let_def)
  moreover have "\<forall>x\<in>set (w_executions w). ex_workflow_id x \<noteq> i \<longrightarrow> ex_id x \<in> ex_id ` set (w_executions ?w')"
    by (simp add: cascade_delete_def Let_def image_image)
  ultimately show ?thesis using delete_workflow_run [OF assms(3,4), of E c] by blast
qed

theorem delete_keeps_references_witness:
  "\<exists>w'. delete_workflow demo_env 7 3 (service_world Completed, new_cache 2 300) =
      (Inr True, (w', invalidate 3 (new_cache 2 300))) \<and> w_executions w' = []"
proof -
  have "references_ok (service_world Completed)" "distinct (map ex_id (w_executions (service_world Completed)))"
    by (simp_all add: references_ok_def service_world_def empty_world_def stored_execution_def new_execution_def
        new_step_def demo_flow_def)
  moreover have "wf_tenant_id (demo_flow demo_steps) = 7" by (simp add: demo_flow_def)
  moreover have "w_executions w' = []" if "delete_workflow demo_env 7 3 (service_world Completed, new_cache 2 300) =
      (Inr True, (w', invalidate 3 (new_cache 2 300)))" for w'
    using that delete_workflow_run [OF service_simps(6), of 7]
    by (auto simp: demo_flow_def cascade_delete_def Let_def service_world_def stored_execution_def new_execution_def)
  ultimately show ?thesis using delete_keeps_references [OF _ _ service_simps(6)] by metis
qed

text \<open>
  An update writes the workflow of the tenant it names and nothing else, drops it from the
  cache, and does not touch \<open>updated_at\<close>; for another tenant's workflow it is a 404 that
  changes nothing.
\<close>

theorem update_scoped:
  assumes "catalogue_ok E w" "update_workflow E T i b (w, c) = (r, (w', c'))"
  shows "(\<forall>resp. r = Inr resp \<longrightarrow> (\<exists>f g. find_workflow w i = Some f \<and> find_workflow w' i = Some g \<and>
      wf_tenant_id f = T \<and> wf_tenant_id g = T \<and> wf_updated_at g = wf_updated_at f \<and>
      resp = workflow_to_response g \<and> fst (get_by_id now i c') = None)) \<and>
    (\<forall>j. j \<noteq> i \<longrightarrow> find_workflow w' j = find_workflow w j) \<and> w_executions w' = w_executions w \<and>
    (\<not> (\<exists>f. find_workflow w i = Some f \<and> wf_tenant_id f = T) \<longrightarrow> r = Inl (not_found ''Workflow'') \<and> same_rows w w')"
  using assms(2,1)
proof (cases rule: update_workflow_cases)
  case (failed e)
  moreover from failed(2) have "find_workflow w' j = find_workflow w j" "w_executions w' = w_executions w" for j
    by (simp_all add: same_rows_def find_workflow_def)
  ultimately show ?thesis by auto
next
  case (stored f g)
  moreover from stored(10) have "w_executions w' = w_executions w" by (simp add: other_tables_def)
  moreover have "fst (get_by_id now i (invalidate i c)) = None"
    by (simp add: get_by_id_def invalidate_def map_of_remove_key)
  ultimately show ?thesis by auto
qed

definition rename :: workflow_update_request where
  "rename = \<lparr>wu_name = Some ''new'', wu_description = None, wu_trigger_type = None, wu_trigger_config = None,
     wu_steps = None, wu_is_active = None, wu_webhook_secret = None\<rparr>"

theorem update_scoped_witness:
  "\<exists>g r w' c'. update_workflow demo_env 7 3 rename (service_world Completed, new_cache 2 300) = (r, (w', c')) \<and>
    find_workflow w' 3 = Some g \<and> wf_name g = ''new'' \<and> wf_updated_at g = 0"
proof -
  have steps: "check_definition demo_env (raw_definition (demo_flow demo_steps)) = Inr ()" by code_simp
  have "catalogue_ok demo_env (service_world Completed)"
    by (simp add: catalogue_ok_def service_world_def unique_paths_def steps)
      (simp add: path_ok_def demo_flow_def)
  moreover obtain r w' c' where run: "update_workflow demo_env 7 3 rename (service_world Completed, new_cache 2 300) = (r, (w', c'))"
    by (metis surj_pair)
  moreover have "case update_workflow demo_env 7 3 rename (service_world Completed, new_cache 2 300) of
      (Inr resp, s) \<Rightarrow> wr_name resp = ''new'' | _ \<Rightarrow> False" by code_simp
  then obtain resp where resp: "r = Inr resp" "wr_name resp = ''new''" using run by (cases r) auto
  ultimately obtain f g where "find_workflow (service_world Completed) 3 = Some f"
    "find_workflow w' 3 = Some g" "wf_updated_at g = wf_updated_at f" "resp = workflow_to_response g"
    using update_scoped [of demo_env "service_world Completed" 7 3 rename "new_cache 2 300" r w' c'] by blast
  with run resp service_simps(6) show ?thesis by (auto simp: workflow_to_response_def demo_flow_def)
qed

section \<open>Cache\<close>

text \<open>
  C30. However the cache is used, it never holds more than its size, and what it returns for an
  id is the last workflow put under that id, not dropped since, put less than the time to
  live ago.
\<close>

theorem cache_bounded_and_fresh:
  assumes "0 < max_size"
  shows "fst (stats (run_cache max_size ttl calls)) \<le> max_size \<and>
    (\<forall>flow. fst (get_by_id now i (run_cache max_size ttl calls)) = Some flow \<longrightarrow>
      wf_id flow = i \<and> (\<exists>t. last_put i (rev calls) = Some (t, flow) \<and> now < t + ttl))"
  using run_cache_ok [OF assms, of ttl calls] cache_lookup_fresh [OF assms, of now i ttl calls]
  by (simp add: stats_def cache_ok_def)

theorem cache_bounded_and_fresh_witness:
  "fst (get_by_id 2 1 (run_cache 2 300 [Put 0 (demo_workflow 1 ''p'')])) = Some (demo_workflow 1 ''p'') \<and>
    last_put 1 [Put 0 (demo_workflow 1 ''p'')] = Some (0, demo_workflow 1 ''p'')"
proof -
  have hit: "fst (get_by_id 2 1 (run_cache 2 300 [Put 0 (demo_workflow 1 ''p'')])) = Some (demo_workflow 1 ''p'')"
    by code_simp
  with cache_bounded_and_fresh [of 2 300 "[Put 0 (demo_workflow 1 ''p'')]" 2 1]
  show ?thesis by (auto simp: demo_workflow_def)
qed

section \<open>Tenants and access\<close>

text \<open>
  Outside the public paths a handler runs only for a key that names an active tenant whose
  hash it matches, and is given that tenant; every other request is answered 401, 403 or 500
  without reaching the handler.
\<close>

theorem protected_paths:
  assumes "\<not> is_public_path url_path"
  shows "(\<exists>t\<in>set (w_tenants w). tn_is_active t \<and> env_checkpw E k (tn_api_key_hash t) \<and>
        tn_api_key_prefix t = take 17 k \<and>
        auth_dispatch E id url_path k handler w = handler (Some \<lparr>tc_id = tn_id t, tc_name = tn_name t, tc_is_active = True\<rparr>) w) \<or>
    (\<exists>st body. auth_dispatch E id url_path k handler w = (Inr (json_reply st body), w) \<and> st \<in> {401, 403, 500})"
proof (cases "\<exists>c. validate_api_key E k w = Inr c")
  case True
  then obtain c where c: "validate_api_key E k w = Inr c" by blast
  then obtain t where t: "filter (\<lambda>t. tn_api_key_prefix t = take 17 k) (w_tenants w) = [t]"
    "env_checkpw E k (tn_api_key_hash t)" "tn_is_active t" "c = \<lparr>tc_id = tn_id t, tc_name = tn_name t, tc_is_active = True\<rparr>"
    by (auto simp: validate_api_key_Inr API_KEY_LOOKUP_PREFIX_LENGTH_def)
  from t(1) have "t \<in> set (w_tenants w) \<and> tn_api_key_prefix t = take 17 k"
    by (metis (mono_tags, lifting) filter_eq_Cons_iff in_set_conv_decomp)
  moreover have "auth_dispatch E id url_path k handler w = handler (Some c) w"
    using c assms by (intro auth_dispatch_accepted) simp_all
  ultimately show ?thesis using t(2-4) by blast
next
  case False
  obtain st body where "auth_dispatch E id url_path k handler w = (Inr (json_reply st body), w)" "st \<in> {401, 403, 500}"
    by (rule auth_dispatch_refused [OF assms, of E k id w handler]) (use False in auto)
  then show ?thesis by blast
qed

theorem protected_paths_witness:
  "\<exists>st body. auth_dispatch demo_env id ''/api/executions'' ''key'' (\<lambda>t. ret (json_reply 200 JNull)) empty_world =
    (Inr (json_reply st body), empty_world) \<and> st \<in> {401, 403, 500}"
proof -
  have "\<not> is_public_path ''/api/executions''" by code_simp
  from protected_paths [OF this, of empty_world demo_env "''key''" "\<lambda>t. ret (json_reply 200 JNull)"]
  show ?thesis by (simp add: empty_world_def)
qed

text \<open>
  C29. The key a registration returns opens the account it created: with a password hash that
  accepts what was hashed, validating the key gives the new tenant, with the name it registered.
  No other tenant can have the prefix of the key: the unique column refuses the registration.
\<close>

theorem registration_round_trip:
  assumes "\<And>n k. env_checkpw E k (env_hashpw E n k)"
    and "length (env_token_hex E (w_ticks w)) = 32"
    and "register_tenant E name w = (Inr k, w')"
  shows "validate_api_key E (tk_api_key k) w' = Inr \<lparr>tc_id = tk_id k, tc_name = name, tc_is_active = True\<rparr>"
  using assms(3)
proof (cases rule: register_tenant_cases)
  case (added key t)
  have len: "API_KEY_LOOKUP_PREFIX_LENGTH \<le> length key"
    using added(1) assms(2) by (simp add: API_KEY_LOOKUP_PREFIX_LENGTH_def API_KEY_PREFIX_LABEL_def)
  have "tn_api_key_prefix t = take API_KEY_LOOKUP_PREFIX_LENGTH key" using added(2) by (simp add: new_tenant_def)
  then have "filter (\<lambda>u. tn_api_key_prefix u = take API_KEY_LOOKUP_PREFIX_LENGTH key) (w_tenants w') = [t]"
    using added(3,5) by (auto simp: filter_empty_conv)
  moreover have "env_checkpw E key (tn_api_key_hash t)" "tn_is_active t" "tn_name t = name"
    using added(2) assms(1) by (simp_all add: new_tenant_def)
  ultimately have "validate_api_key E key w' = Inr \<lparr>tc_id = tn_id t, tc_name = name, tc_is_active = True\<rparr>"
    unfolding validate_api_key_Inr using len by blast
  then show ?thesis using added(4) by simp
qed simp

theorem registration_round_trip_witness:
  "\<exists>k w'. register_tenant demo_env ''acme'' empty_world = (Inr k, w') \<and>
    validate_api_key demo_env (tk_api_key k) w' = Inr \<lparr>tc_id = tk_id k, tc_name = ''acme'', tc_is_active = True\<rparr>"
proof -
  have "\<exists>k w'. register_tenant demo_env ''acme'' empty_world = (Inr k, w')"
    by (simp add: register_tenant_def andthen_def generate_api_key_def hash_key_def generate_uuid_run insert_tenant_def
        empty_world_def)
  then obtain k w' where run: "register_tenant demo_env ''acme'' empty_world = (Inr k, w')" by blast
  have "validate_api_key demo_env (tk_api_key k) w' = Inr \<lparr>tc_id = tk_id k, tc_name = ''acme'', tc_is_active = True\<rparr>"
    by (rule registration_round_trip [OF _ _ run]) (simp_all add: demo_env_def empty_world_def)
  with run show ?thesis by blast
qed

text \<open>
  Requests of one client on one route, one after the other: what each is answered, and the log of
  the handler, which notes the time of a request and gives a fixed answer.
\<close>

primrec served :: "'r redis_ops \<Rightarrow> string option \<Rightarrow> string \<Rightarrow> string \<Rightarrow> reply \<Rightarrow> int list \<Rightarrow> 'r \<times> int list \<Rightarrow>
    (exn + reply) list \<times> 'r \<times> int list" where
  "served R client m p answer [] s = ([], s)"
| "served R client m p answer (now # nows) s =
    (case rate_limit_dispatch R client m p now (\<lambda>seen. (Inr answer, seen @ [now])) s of
       (res, s') \<Rightarrow> (case served R client m p answer nows s' of (rs, s'') \<Rightarrow> (res # rs, s'')))"

lemma served_requests:
  assumes "\<And>r. \<exists>r'. rd_incr R (redis_key (get_client_key client) m p) r = (Inr (cnt r + 1), r') \<and> cnt r' = cnt r + 1"
    and "\<And>r n. \<exists>y r'. rd_expire R (redis_key (get_client_key client) m p) n r = (Inr y, r') \<and> cnt r' = cnt r"
    and "\<And>r. \<exists>y r'. rd_ttl R (redis_key (get_client_key client) m p) r = (Inr y, r') \<and> cnt r' = cnt r"
    and "k = min (length nows) (nat (get_rate_limit m p - cnt r))"
  shows "map (map_sum id rp_status) (fst (served R client m p answer nows (r, seen))) =
      replicate k (Inr (rp_status answer)) @ replicate (length nows - k) (Inr 429) \<and>
    snd (snd (served R client m p answer nows (r, seen))) = seen @ take k nows"
  using assms(4)
proof (induction nows arbitrary: r seen k)
  case Nil
  then show ?case by simp
next
  case (Cons now nows)
  let ?k = "redis_key (get_client_key client) m p" let ?limit = "get_rate_limit m p"
  obtain r1 where r1: "rd_incr R ?k r = (Inr (cnt r + 1), r1)" "cnt r1 = cnt r + 1" using assms(1) by blast
  obtain y r2 where "rd_expire R ?k WINDOW_SECONDS r1 = (Inr y, r2)" "cnt r2 = cnt r1" using assms(2) by blast
  then obtain z r3 where r3: "(if cnt r + 1 = 1 then rd_expire R ?k WINDOW_SECONDS else ret 0) r1 = (Inr z, r3)"
    "cnt r3 = cnt r1" by (cases "cnt r + 1 = 1") auto
  obtain t r4 where r4: "rd_ttl R ?k r3 = (Inr t, r4)" "cnt r4 = cnt r3" using assms(3) by blast
  have count: "count_request R ?k r = (Inr (cnt r + 1, if t < 0 then WINDOW_SECONDS else t), r4)"
    unfolding count_request_def using r1(1) r3(1) r4(1) by (simp add: andthen_def)
  have next_count: "cnt r4 = cnt r + 1" using r1(2) r3(2) r4(2) by simp
  show ?case
  proof (cases "?limit < cnt r + 1")
    case True
    then have "rate_limit_dispatch R client m p now (\<lambda>seen. (Inr answer, seen @ [now])) (r, seen) =
        (Inr (with_headers (limit_headers ?limit 0 (now + (if t < 0 then WINDOW_SECONDS else t)) @
           [(''Retry-After'', string_of_int (if t < 0 then WINDOW_SECONDS else t))])
          (json_reply 429 (create_error_response ''RATE_LIMIT_EXCEEDED''
              ''Too many requests. Please try again later.'' []))), (r4, seen))"
      by (simp add: rate_limit_dispatch_def count Let_def)
    with Cons.IH [of 0 r4 seen] Cons.prems True next_count show ?thesis
      by (auto simp: with_headers_def json_reply_def split: prod.split)
  next
    case False
    then obtain hs where "rate_limit_dispatch R client m p now (\<lambda>seen. (Inr answer, seen @ [now])) (r, seen) =
        (Inr (with_headers hs answer), (r4, seen @ [now]))"
      by (simp add: rate_limit_dispatch_def count Let_def)
    moreover obtain q where "nat (?limit - cnt r) = Suc q" "nat (?limit - cnt r4) = q"
      using False next_count by (cases "nat (?limit - cnt r)") auto
    ultimately show ?thesis
      using Cons.IH [of "min (length nows) q" r4 "seen @ [now]"] Cons.prems
      by (auto simp: with_headers_def split: prod.split)
  qed
qed

text \<open>
  C31. Within one window, in which the counter of a client on a route starts at nothing, counts
  every request and is not reset, the first requests, as many as the limit of the route allows,
  reach the handler in their order and get its answer; every later one does not reach it and is
  answered 429.
\<close>

theorem rate_limit_exact:
  assumes "\<And>r. \<exists>r'. rd_incr R (redis_key (get_client_key client) m p) r = (Inr (cnt r + 1), r') \<and> cnt r' = cnt r + 1"
    and "\<And>r n. \<exists>y r'. rd_expire R (redis_key (get_client_key client) m p) n r = (Inr y, r') \<and> cnt r' = cnt r"
    and "\<And>r. \<exists>y r'. rd_ttl R (redis_key (get_client_key client) m p) r = (Inr y, r') \<and> cnt r' = cnt r"
    and "cnt r0 = 0" "k = min (length nows) (nat (get_rate_limit m p))"
  shows "map (map_sum id rp_status) (fst (served R client m p answer nows (r0, []))) =
      replicate k (Inr (rp_status answer)) @ replicate (length nows - k) (Inr 429) \<and>
    snd (snd (served R client m p answer nows (r0, []))) = take k nows"
  using served_requests [OF assms(1-3), of k nows r0 answer "[]"] assms(4,5) by simp

theorem rate_limit_exact_witness:
  "map (map_sum id rp_status) (fst (served counting_redis None ''POST'' ''/api/tenants/register'' (json_reply 201 JNull)
      [1, 2, 3, 4, 5, 6, 7] (0, []))) = [Inr 201, Inr 201, Inr 201, Inr 201, Inr 201, Inr 429, Inr 429] \<and>
   snd (snd (served counting_redis None ''POST'' ''/api/tenants/register'' (json_reply 201 JNull)
      [1, 2, 3, 4, 5, 6, 7] (0, []))) = [1, 2, 3, 4, 5]"
proof -
  have "get_rate_limit ''POST'' ''/api/tenants/register'' = 5" by code_simp
  then show ?thesis
    using rate_limit_exact [of counting_redis None "''POST''" "''/api/tenants/register''" "\<lambda>r. r" 0 5 "[1, 2, 3, 4, 5, 6, 7]"
        "json_reply 201 JNull"]
    by (simp add: counting_redis_def json_reply_def numeral_eq_Suc)
qed

section \<open>Webhooks\<close>

text \<open>The workflow a path leads to: a row with that path, or an entry of the cache that has not expired.\<close>

definition cached_for :: "int \<Rightarrow> string \<Rightarrow> workflow_cache \<Rightarrow> workflow \<Rightarrow> bool" where
  "cached_for now p c flow \<longleftrightarrow> (\<exists>i e. map_of (wc_path_index c) p = Some i \<and> map_of (wc_entries c) i = Some e \<and>
    now < ce_expires_at e \<and> ce_workflow e = flow)"

lemma resolved_flow:
  assumes "resolve_workflow now now' p w c = (Inr flow, c')"
  shows "flow \<in> set (w_workflows w) \<and> wf_webhook_path flow = Some p \<or> cached_for now p c flow"
proof -
  obtain o1 c1 where g: "get_by_webhook_path now p c = (o1, c1)" by (metis surj_pair)
  show ?thesis
  proof (cases o1)
    case None
    with assms g have "lookup_workflow_by_path p w = Inr flow" by (auto simp: resolve_workflow_def split: sum.splits)
    from lookup_workflow_by_path_Inr [OF this] show ?thesis by blast
  next
    case (Some f)
    with assms g have "f = flow" by (simp add: resolve_workflow_def)
    moreover obtain i where "map_of (wc_path_index c) p = Some i" "get_by_id now i c = (Some f, c1)"
      using g Some by (auto simp: get_by_webhook_path_def split: option.splits)
    ultimately have "cached_for now p c flow"
      by (cases rule: get_by_id_cases [of now i c]) (auto simp: cached_for_def)
    then show ?thesis ..
  qed
qed

lemma new_execution_of_run:
  assumes "T < 2 ^ 128" "fresh_ids E w" "start_execution E flow trigger T None 0 w = (r, w')"
    and "w_executions w' \<noteq> w_executions w"
  shows "\<exists>x. find_execution w (ex_id x) = None \<and> find_execution w' (ex_id x) = Some x \<and> ex_tenant_id x = T \<and>
    ex_workflow_id x = wf_id flow \<and> ex_trigger_data x = trigger \<and> ex_replayed_from x = None"
proof -
  obtain y where "find_execution w' (env_uuid E (w_ticks w)) = Some y"
    "ex_base y = (env_uuid E (w_ticks w), T, wf_id flow, trigger, None, w_txn_now w)"
    using start_execution_row [OF assms] by blast
  then show ?thesis using fresh_ids_next(1) [OF assms(2)] by (intro exI [of _ y]) (simp add: ex_base_def)
qed

text \<open>
  C10. A webhook writes executions only for an active workflow: one whose row has the path, or one
  the cache still holds under it, which has the path as long as the entries the index leads to do.
  When it has a secret, the request carries the right signature of the body, and the body is within
  the size limit. Then one of the new executions is of this workflow and its tenant, with the
  payload and headers as trigger data, and all of them are of that tenant.
\<close>

theorem webhook_guarded:
  assumes "receive_webhook E loads now now' p rq (w, c) = (r, (w', c'))"
    and "w_executions w' \<noteq> w_executions w"
  shows "\<exists>flow. wf_is_active flow \<and>
    (flow \<in> set (w_workflows w) \<and> wf_webhook_path flow = Some p \<or> cached_for now p c flow) \<and>
    ((\<forall>f. cached_for now p c f \<longrightarrow> wf_webhook_path f = Some p) \<longrightarrow> wf_webhook_path flow = Some p) \<and>
    (\<forall>secret. secret_of flow = Some secret \<longrightarrow>
      map_of (wq_headers rq) ''x-hub-signature-256'' = Some (''sha256='' @ env_hmac_sha256 E secret (wq_body rq))) \<and>
    int (length (wq_body rq)) \<le> max_payload_size (env_settings E) \<and>
    (\<forall>n. content_length rq = Inr (Some n) \<longrightarrow> n \<le> max_payload_size (env_settings E)) \<and>
    (fresh_ids E w \<longrightarrow> wf_tenant_id flow < 2 ^ 128 \<longrightarrow>
      (\<exists>x. find_execution w (ex_id x) = None \<and> find_execution w' (ex_id x) = Some x \<and>
        ex_tenant_id x = wf_tenant_id flow \<and> ex_workflow_id x = wf_id flow \<and>
        ex_trigger_data x = payload_data rq (parse_payload loads (wq_body rq)) \<and> ex_replayed_from x = None) \<and>
      (\<forall>i y. find_execution w i = None \<longrightarrow> find_execution w' i = Some y \<longrightarrow> ex_tenant_id y = wf_tenant_id flow))"
  using assms(1)
proof (cases rule: receive_webhook_cases)
  case (handled flow c1 w1)
  let ?payload = "parse_payload loads (wq_body rq)"
  have w1: "w' = w1" "w_executions w1 \<noteq> w_executions (opened E w)" using handled(5) assms(2) by simp_all
  have go: "wf_is_active flow \<and> authentic E flow rq"
  proof (rule ccontr)
    assume "\<not> (wf_is_active flow \<and> authentic E flow rq)"
    then have "w_executions w1 = w_executions w"
      by (cases rule: handle_delivery_refused [of flow E rq ?payload "opened E w"]) (use handled(4) in auto)
    with w1 show False by simp
  qed
  then have run: "trigger_delivery E flow rq ?payload (opened E w) = (r, w1)"
    using handled(4) by (simp add: handle_delivery_trigger)
  obtain d q v where start: "start_execution E flow (payload_data rq ?payload) (wf_tenant_id flow) None 0
      (add_delivery d ((opened E w)\<lparr>w_ticks := Suc (w_ticks (opened E w))\<rparr>)) = (q, v)"
    and same: "w_executions w1 = w_executions v"
    using run by (cases rule: trigger_delivery_cases) (auto simp: upd_delivery_def)
  let ?u = "add_delivery d ((opened E w)\<lparr>w_ticks := Suc (w_ticks (opened E w))\<rparr>)"
  have find: "find_execution w' i = find_execution v i" "find_execution ?u i = find_execution w i" for i
    using same w1(1) by (simp_all add: find_execution_def)
  have "(\<exists>x. find_execution w (ex_id x) = None \<and> find_execution w' (ex_id x) = Some x \<and>
        ex_tenant_id x = wf_tenant_id flow \<and> ex_workflow_id x = wf_id flow \<and>
        ex_trigger_data x = payload_data rq ?payload \<and> ex_replayed_from x = None) \<and>
      (\<forall>i y. find_execution w i = None \<longrightarrow> find_execution w' i = Some y \<longrightarrow> ex_tenant_id y = wf_tenant_id flow)"
    if "fresh_ids E w" "wf_tenant_id flow < 2 ^ 128"
  proof -
    have fresh: "fresh_ids E ?u" using opened_fresh [OF that(1)] by (simp add: fresh_ids_later)
    have "w_executions v \<noteq> w_executions ?u" using w1(2) same by simp
    from new_execution_of_run [OF that(2) fresh start this]
      evolves_new_execution [OF start_execution_evolves [OF that(2) fresh start]]
    show ?thesis unfolding find by blast
  qed
  moreover have "\<forall>secret. secret_of flow = Some secret \<longrightarrow>
      map_of (wq_headers rq) ''x-hub-signature-256'' = Some (''sha256='' @ env_hmac_sha256 E secret (wq_body rq))"
    using go by (auto simp: authentic_def validate_hmac_signature_Inr)
  ultimately show ?thesis using go handled(2,3) resolved_flow [of now now' p w c flow c1] handled(1) by auto
qed (use assms(2) in auto)

definition hook_flow :: "dict list \<Rightarrow> workflow" where
  "hook_flow steps = (demo_flow steps)\<lparr>wf_trigger_type := ''webhook'', wf_webhook_path := Some ''p'',
     wf_webhook_secret := Some ''s''\<rparr>"

definition hook_world :: "dict list \<Rightarrow> world" where
  "hook_world steps = empty_world\<lparr>w_workflows := [hook_flow steps], w_ticks := 10\<rparr>"

definition hook_request :: webhook_request where
  "hook_request = \<lparr>wq_method = ''POST'', wq_headers = [(''x-hub-signature-256'', ''sha256=s''), (''content-length'', ''2'')],
     wq_body = ''{}'', wq_client = None\<rparr>"

lemma hook_starts:
  assumes "fresh_ids demo_env w"
    and start: "start_execution demo_env (hook_flow one_step) trigger (wf_tenant_id (hook_flow one_step)) None 0 w = (r, u)"
  shows "\<exists>x. r = Inr x \<and> find_execution u (ex_id x) = Some x"
proof (rule demo_starts [OF assms(1)])
  show "case parse_workflow_definition demo_env (raw_definition (hook_flow one_step)) of
      Some (Inr d) \<Rightarrow> list_all (\<lambda>s. sd_type s \<noteq> CONDITION) (wfd_steps d) | _ \<Rightarrow> False"
    by code_simp
  have "wf_tenant_id (hook_flow one_step) = 7" by (simp add: hook_flow_def demo_flow_def)
  with start show "start_execution demo_env (hook_flow one_step) trigger 7 None 0 w = (r, u)" by simp
qed

lemma hook_fresh: "fresh_ids demo_env (hook_world steps)"
  by (simp add: fresh_ids_def hook_world_def empty_world_def demo_env_def find_execution_def find_step_def)

lemma hook_resolves:
  "\<exists>c. resolve_workflow 0 0 ''p'' (hook_world one_step) (new_cache 2 300) = (Inr (hook_flow one_step), c)"
proof -
  have "case resolve_workflow 0 0 ''p'' (hook_world one_step) (new_cache 2 300) of (Inr f, c) \<Rightarrow> True | _ \<Rightarrow> False"
    by code_simp
  moreover have "f = hook_flow one_step"
    if "resolve_workflow 0 0 ''p'' (hook_world one_step) (new_cache 2 300) = (Inr f, c)" for f c
    using that by (auto simp: resolve_workflow_def new_cache_def get_by_webhook_path_def hook_world_def
        dest!: lookup_workflow_by_path_Inr split: sum.splits)
  ultimately show ?thesis by (auto split: prod.splits sum.splits)
qed

theorem webhook_guarded_witness:
  "\<exists>r w' c' x. receive_webhook demo_env (\<lambda>s. None) 0 0 ''p'' hook_request (hook_world one_step, new_cache 2 300) = (r, (w', c')) \<and>
    find_execution w' (ex_id x) = Some x \<and> ex_workflow_id x = 3 \<and> ex_tenant_id x = 7"
proof -
  obtain c where c: "resolve_workflow 0 0 ''p'' (hook_world one_step) (new_cache 2 300) = (Inr (hook_flow one_step), c)"
    using hook_resolves by blast
  have "wf_is_active (hook_flow one_step)" by (simp add: hook_flow_def demo_flow_def)
  moreover have "authentic demo_env (hook_flow one_step) hook_request" by code_simp
  moreover have "\<not> (2 :: int) > max_payload_size (env_settings demo_env)" "length (wq_body hook_request) = 2"
    by (simp_all add: demo_env_def default_settings_def hook_request_def)
  moreover have "content_length hook_request = Inr (Some 2)" by code_simp
  moreover obtain r w' c' where run: "receive_webhook demo_env (\<lambda>s. None) 0 0 ''p'' hook_request
      (hook_world one_step, new_cache 2 300) = (r, (w', c'))" by (metis surj_pair)
  ultimately have "trigger_delivery demo_env (hook_flow one_step) hook_request
      (parse_payload (\<lambda>s. None) (wq_body hook_request)) (opened demo_env (hook_world one_step)) = (r, w')"
    using c by (auto simp: receive_webhook_def Let_def handle_delivery_trigger split: prod.splits)
  then have "w_executions w' \<noteq> []"
  proof (cases rule: trigger_delivery_cases)
    case (accepted d x v)
    have "fresh_ids demo_env (add_delivery d ((opened demo_env (hook_world one_step))\<lparr>w_ticks := Suc (w_ticks (opened demo_env (hook_world one_step)))\<rparr>))"
      using opened_fresh [OF hook_fresh] by (simp add: fresh_ids_later)
    from hook_starts [OF this accepted(3)] have "find_execution v (ex_id x) = Some x" by simp
    then show ?thesis using accepted(4) by (auto simp: find_execution_def)
  next
    case (raised d e v)
    have "fresh_ids demo_env (add_delivery d ((opened demo_env (hook_world one_step))\<lparr>w_ticks := Suc (w_ticks (opened demo_env (hook_world one_step)))\<rparr>))"
      using opened_fresh [OF hook_fresh] by (simp add: fresh_ids_later)
    from hook_starts [OF this raised(3)] show ?thesis by simp
  qed
  then have "w_executions w' \<noteq> w_executions (hook_world one_step)" by (simp add: hook_world_def empty_world_def)
  from webhook_guarded [OF run this] obtain flow where flow:
    "flow \<in> set (w_workflows (hook_world one_step)) \<and> wf_webhook_path flow = Some ''p'' \<or> cached_for 0 ''p'' (new_cache 2 300) flow"
    "wf_tenant_id flow < 2 ^ 128 \<longrightarrow> (\<exists>x. find_execution w' (ex_id x) = Some x \<and> ex_tenant_id x = wf_tenant_id flow \<and>
      ex_workflow_id x = wf_id flow)"
    using hook_fresh by blast
  then have "flow = hook_flow one_step" by (simp add: hook_world_def cached_for_def new_cache_def)
  then have "wf_tenant_id flow = 7" "wf_id flow = 3" by (simp_all add: hook_flow_def demo_flow_def)
  with flow(2) run show ?thesis by fastforce
qed

text \<open>
  C32. A triggered delivery is recorded with its outcome: accepted and linked to the execution
  it started, or in error with the message of what was raised, which is raised again. In that
  case too everything the run had written until then is kept, unlike in the other operations.
\<close>

theorem delivery_recorded:
  assumes "wf_tenant_id flow < 2 ^ 128" "fresh_ids E w" "trigger_delivery E flow rq payload w = (r, w')"
  shows "(\<exists>d\<in>set (w_deliveries w'). \<exists>x. wd_workflow_id d = wf_id flow \<and> wd_tenant_id d = wf_tenant_id flow \<and>
      wd_payload d = payload \<and> wd_status d = ''accepted'' \<and> wd_execution_id d = Some (ex_id x) \<and>
      find_execution w' (ex_id x) = Some x \<and> ex_tenant_id x = wf_tenant_id flow \<and> ex_workflow_id x = wf_id flow \<and>
      ex_trigger_data x = payload_data rq payload \<and>
      r = Inr (json_reply 202 (JObj [(''execution_id'', JStr (uuid_str (ex_id x)))]))) \<or>
    (\<exists>d\<in>set (w_deliveries w'). \<exists>e. wd_workflow_id d = wf_id flow \<and> wd_tenant_id d = wf_tenant_id flow \<and>
      wd_payload d = payload \<and> wd_status d = ''error'' \<and> wd_rejection_reason d = Some (exn_str e) \<and> r = Inl e \<and>
      (\<exists>u v. w_executions u = w_executions w \<and> w_steps u = w_steps w \<and>
        start_execution E flow (payload_data rq payload) (wf_tenant_id flow) None 0 u = (Inl e, v) \<and>
        w_executions w' = w_executions v \<and> w_steps w' = w_steps v))"
  using assms(3)
proof (cases rule: trigger_delivery_cases)
  case (accepted d x v)
  let ?u = "add_delivery d (w\<lparr>w_ticks := Suc (w_ticks w)\<rparr>)"
  have fresh: "fresh_ids E ?u" using assms(2) by (simp add: fresh_ids_later)
  obtain parsed :: workflow_definition where "run_result (produced E (wf_tenant_id flow) 0 (engine_runner E)) E
      (wf_tenant_id flow) flow (payload_data rq payload) None (wfd_steps parsed) ?u x v"
    by (rule start_execution_parsed [OF assms(1) fresh accepted(3)]) blast
  then have x: "find_execution v (ex_id x) = Some x" "ex_tenant_id x = wf_tenant_id flow" "ex_workflow_id x = wf_id flow"
    "ex_trigger_data x = payload_data rq payload" by (simp_all add: run_result_def)
  have "w_deliveries v = w_deliveries ?u"
    using start_execution_evolves [OF assms(1) fresh accepted(3)] evolves_tables by (auto simp: same_tables_def)
  then have "d \<in> set (w_deliveries v)" by simp
  then have "d\<lparr>wd_status := ''accepted'', wd_execution_id := Some (ex_id x)\<rparr> \<in> set (w_deliveries w')"
    unfolding accepted(4) upd_delivery_def by force
  moreover have "find_execution w' (ex_id x) = Some x" using x(1) accepted(4) by simp
  ultimately show ?thesis
    using accepted(1,5) x by (intro disjI1 bexI) (auto simp: delivery_of_def)
next
  case (raised d e v)
  let ?u = "add_delivery d (w\<lparr>w_ticks := Suc (w_ticks w)\<rparr>)"
  have fresh: "fresh_ids E ?u" using assms(2) by (simp add: fresh_ids_later)
  have "w_deliveries v = w_deliveries ?u"
    using start_execution_evolves [OF assms(1) fresh raised(3)] evolves_tables by (auto simp: same_tables_def)
  then have "d \<in> set (w_deliveries v)" by simp
  then have "d\<lparr>wd_status := ''error'', wd_rejection_reason := Some (exn_str e)\<rparr> \<in> set (w_deliveries w')"
    unfolding raised(4) upd_delivery_def by force
  moreover have "\<exists>u v. w_executions u = w_executions w \<and> w_steps u = w_steps w \<and>
      start_execution E flow (payload_data rq payload) (wf_tenant_id flow) None 0 u = (Inl e, v) \<and>
      w_executions w' = w_executions v \<and> w_steps w' = w_steps v"
    using raised(3,4) by (intro exI [of _ ?u] exI [of _ v]) simp
  ultimately show ?thesis using raised(1,5) by (intro disjI2 bexI) (auto simp: delivery_of_def)
qed

theorem delivery_recorded_witness:
  "\<exists>r w'. trigger_delivery demo_env (hook_flow one_step) hook_request (JObj []) (hook_world one_step) = (r, w') \<and>
    (\<exists>d\<in>set (w_deliveries w'). wd_workflow_id d = 3 \<and> wd_status d \<in> {''accepted'', ''error''})"
proof -
  obtain r w' where run: "trigger_delivery demo_env (hook_flow one_step) hook_request (JObj []) (hook_world one_step) = (r, w')"
    by (metis surj_pair)
  have "wf_tenant_id (hook_flow one_step) < 2 ^ 128" "wf_id (hook_flow one_step) = 3"
    by (simp_all add: hook_flow_def demo_flow_def)
  moreover note hook_fresh
  ultimately show ?thesis using delivery_recorded [OF _ _ run] run by auto
qed

text \<open>
  What was flushed can be a run cut short: a branch that lists a list makes the engine raise in
  the middle, and leaves the execution running.
\<close>

definition broken_steps :: "dict list" where
  "broken_steps =
    [demo_step ''ask'' ''condition'' [(''expression'', JStr ''x''), (''false_branch'', JList [JList []])] []]"

lemma raising_run_left_running:
  "case start_execution demo_env (hook_flow broken_steps) [] 7 None 0 (hook_world broken_steps) of
      (Inl e, w) \<Rightarrow> map ex_status (w_executions w) = [Running] \<and> map se_status (w_steps w) = [Completed]
    | _ \<Rightarrow> False"
  by code_simp

end
