(* ===== verification/Jobs.thy ===== *)
theory Jobs
  imports Workflows
begin

text \<open>
  The periodic jobs of \<open>src/queue/jobs.py\<close> and the execution log of \<open>src/engine/logging.py\<close>.
  The cleanup fails every execution that has been running for more than an hour and its open
  steps, in two bulk updates that go past the state machine; the two pruning jobs delete old
  logs and deliveries. All of them work on the rows of every tenant.
\<close>

section \<open>The jobs\<close>

definition HOUR :: time where
  "HOUR = 3600 * 1000000"

definition STALE_THRESHOLD :: time where
  "STALE_THRESHOLD = HOUR"

definition LOG_RETENTION :: time where
  "LOG_RETENTION = 30 * 24 * HOUR"

definition WEBHOOK_RETENTION :: time where
  "WEBHOOK_RETENTION = 7 * 24 * HOUR"

definition STALE_ERROR_MSG :: string where
  "STALE_ERROR_MSG = ''Execution timed out (stale)''"

definition STALE_STEP_ERROR_MSG :: string where
  "STALE_STEP_ERROR_MSG = ''Parent execution timed out (stale)''"

text \<open>A comparison with a missing \<open>started_at\<close> is not true in SQL.\<close>

definition is_stale :: "time \<Rightarrow> execution \<Rightarrow> bool" where
  "is_stale cutoff x \<longleftrightarrow> ex_status x = Running \<and>
    (case ex_started_at x of None \<Rightarrow> False | Some started \<Rightarrow> started < cutoff)"

definition fail_executions :: "uuid list \<Rightarrow> time \<Rightarrow> world \<Rightarrow> world" where
  "fail_executions stale_ids now w = w\<lparr>w_executions := map (\<lambda>x.
     if ex_id x \<in> set stale_ids
     then x\<lparr>ex_status := Failed, ex_error := Some STALE_ERROR_MSG, ex_completed_at := Some now\<rparr> else x) (w_executions w)\<rparr>"

definition fail_steps :: "uuid list \<Rightarrow> time \<Rightarrow> world \<Rightarrow> world" where
  "fail_steps stale_ids now w = w\<lparr>w_steps := map (\<lambda>s.
     if se_execution_id s \<in> set stale_ids \<and> se_status s \<in> {Pending, Running, Queued}
     then s\<lparr>se_status := Failed, se_error := Some STALE_STEP_ERROR_MSG, se_completed_at := Some now\<rparr> else s) (w_steps w)\<rparr>"

definition cleanup_stale_executions :: "env \<Rightarrow> (world, nat) proc" where
  "cleanup_stale_executions E =
    andthen (utc_now E) (\<lambda>t. let cutoff = t - STALE_THRESHOLD in
    andthen (utc_now E) (\<lambda>now.
    in_session E (\<lambda>w.
      let stale_ids = map ex_id (filter (is_stale cutoff) (w_executions w))
      in if stale_ids = [] then ret 0 w
         else andthen (modify (fail_executions stale_ids now)) (\<lambda>_.
              andthen (modify (fail_steps stale_ids now)) (\<lambda>_. ret (length stale_ids))) w)))"

definition prune_execution_logs :: "env \<Rightarrow> (world, nat) proc" where
  "prune_execution_logs E =
    andthen (utc_now E) (\<lambda>t. let cutoff = t - LOG_RETENTION in
    in_session E (\<lambda>w.
      let deleted = length (filter (\<lambda>l. lg_created_at l < cutoff) (w_logs w))
      in andthen (modify (\<lambda>w. w\<lparr>w_logs := filter (\<lambda>l. \<not> lg_created_at l < cutoff) (w_logs w)\<rparr>)) (\<lambda>_. ret deleted) w))"

definition prune_webhook_deliveries :: "env \<Rightarrow> (world, nat) proc" where
  "prune_webhook_deliveries E =
    andthen (utc_now E) (\<lambda>t. let cutoff = t - WEBHOOK_RETENTION in
    in_session E (\<lambda>w.
      let deleted = length (filter (\<lambda>d. wd_created_at d < cutoff) (w_deliveries w))
      in andthen (modify (\<lambda>w. w\<lparr>w_deliveries := filter (\<lambda>d. \<not> wd_created_at d < cutoff) (w_deliveries w)\<rparr>)) (\<lambda>_. ret deleted) w))"

section \<open>The execution log\<close>

text \<open>
  Of the message the list of the valid levels is left out: Python prints a set in no fixed
  order.
\<close>

definition VALID_LEVELS :: "string list" where
  "VALID_LEVELS = [''info'', ''warn'', ''error'', ''debug'']"

definition record_execution_log :: "env \<Rightarrow> uuid \<Rightarrow> uuid \<Rightarrow> string \<Rightarrow> string \<Rightarrow> string option \<Rightarrow> dict \<Rightarrow>
    (world, execution_log) proc" where
  "record_execution_log E tenant_id execution_id level message step_id data =
    (if level \<notin> set VALID_LEVELS then raise (PyError ''ValueError'' (''Invalid log level: '' @ quoted level))
     else
       andthen (generate_uuid E) (\<lambda>i w.
         let entry = \<lparr>lg_id = i, lg_tenant_id = tenant_id, lg_execution_id = execution_id, lg_step_id = step_id,
               lg_level = level, lg_message = message, lg_data = data, lg_created_at = w_txn_now w\<rparr>
         in andthen (modify (\<lambda>w. w\<lparr>w_logs := w_logs w @ [entry]\<rparr>)) (\<lambda>_. ret entry) w))"

section \<open>What the cleanup leaves\<close>

definition stale_ids_at :: "env \<Rightarrow> world \<Rightarrow> uuid set" where
  "stale_ids_at E w = ex_id ` {x \<in> set (w_executions w). is_stale (env_now E (w_ticks w) - STALE_THRESHOLD) x}"

text \<open>The rows after the cleanup: both tables mapped row by row, the rest untouched.\<close>

definition failed_execution :: "time \<Rightarrow> execution \<Rightarrow> execution" where
  "failed_execution now x = x\<lparr>ex_status := Failed, ex_error := Some STALE_ERROR_MSG, ex_completed_at := Some now\<rparr>"

definition failed_stale_step :: "time \<Rightarrow> step_execution \<Rightarrow> step_execution" where
  "failed_stale_step now s = s\<lparr>se_status := Failed, se_error := Some STALE_STEP_ERROR_MSG, se_completed_at := Some now\<rparr>"

lemma cleanup_run:
  obtains w' where
    "cleanup_stale_executions E w =
      (Inr (length (filter (is_stale (env_now E (w_ticks w) - STALE_THRESHOLD)) (w_executions w))), w')"
    "w_executions w' = map (\<lambda>x. if ex_id x \<in> stale_ids_at E w
       then failed_execution (env_now E (Suc (w_ticks w))) x else x) (w_executions w)"
    "w_steps w' = map (\<lambda>s. if se_execution_id s \<in> stale_ids_at E w \<and> active (se_status s)
       then failed_stale_step (env_now E (Suc (w_ticks w))) s else s) (w_steps w)"
    "w_tenants w' = w_tenants w" "w_workflows w' = w_workflows w" "w_logs w' = w_logs w"
    "w_deliveries w' = w_deliveries w" "w_events w' = w_events w"
proof -
  let ?c = "env_now E (w_ticks w) - STALE_THRESHOLD"
  let ?ids = "map ex_id (filter (is_stale ?c) (w_executions w))"
  let ?now = "env_now E (Suc (w_ticks w))"
  let ?v = "w\<lparr>w_txn_now := env_now E (Suc (Suc (w_ticks w))), w_ticks := Suc (Suc (Suc (w_ticks w)))\<rparr>"
  let ?w' = "fail_steps ?ids ?now (fail_executions ?ids ?now ?v)"
  have ids: "set ?ids = stale_ids_at E w" by (auto simp: stale_ids_at_def)
  have none: "fail_steps [] ?now (fail_executions [] ?now ?v) = ?v" by (simp add: fail_steps_def fail_executions_def)
  have "cleanup_stale_executions E w = (Inr (length ?ids), ?w')"
  proof (cases "?ids = []")
    case True
    with none show ?thesis
      by (simp add: cleanup_stale_executions_def andthen_def utc_now_def in_session_def Let_def)
  next
    case False
    then show ?thesis
      by (simp add: cleanup_stale_executions_def andthen_def utc_now_def in_session_def Let_def)
  qed
  moreover have "w_executions ?w' = map (\<lambda>x. if ex_id x \<in> stale_ids_at E w then failed_execution ?now x else x) (w_executions w)"
    unfolding ids [symmetric] by (simp add: fail_steps_def fail_executions_def failed_execution_def)
  moreover have "w_steps ?w' = map (\<lambda>s. if se_execution_id s \<in> stale_ids_at E w \<and> active (se_status s)
       then failed_stale_step ?now s else s) (w_steps w)"
    unfolding ids [symmetric] by (auto simp: fail_steps_def fail_executions_def failed_stale_step_def)
  moreover have "w_tenants ?w' = w_tenants w" "w_workflows ?w' = w_workflows w" "w_logs ?w' = w_logs w"
    "w_deliveries ?w' = w_deliveries w" "w_events ?w' = w_events w"
    by (simp_all add: fail_steps_def fail_executions_def)
  ultimately show ?thesis by (intro that [of ?w']) simp_all
qed

text \<open>After the cleanup nothing is stale at its cutoff, and no step of what it failed is open.\<close>

lemma cleanup_none_left:
  assumes "cleanup_stale_executions E w = (Inr n, w')"
  shows "filter (is_stale (env_now E (w_ticks w) - STALE_THRESHOLD)) (w_executions w') = []"
    "\<forall>s\<in>set (w_steps w'). se_execution_id s \<in> stale_ids_at E w \<longrightarrow> \<not> active (se_status s)"
proof -
  obtain v where "cleanup_stale_executions E w =
      (Inr (length (filter (is_stale (env_now E (w_ticks w) - STALE_THRESHOLD)) (w_executions w))), v)"
    and rows: "w_executions v = map (\<lambda>x. if ex_id x \<in> stale_ids_at E w
       then failed_execution (env_now E (Suc (w_ticks w))) x else x) (w_executions w)"
    "w_steps v = map (\<lambda>s. if se_execution_id s \<in> stale_ids_at E w \<and> active (se_status s)
       then failed_stale_step (env_now E (Suc (w_ticks w))) s else s) (w_steps w)"
    by (rule cleanup_run)
  with assms have "v = w'" by simp
  with rows show "\<forall>s\<in>set (w_steps w'). se_execution_id s \<in> stale_ids_at E w \<longrightarrow> \<not> active (se_status s)"
    by (auto simp: failed_stale_step_def)
  have "\<not> is_stale (env_now E (w_ticks w) - STALE_THRESHOLD) x" if "x \<in> set (w_executions w')" for x
    using that rows(1) \<open>v = w'\<close> by (auto simp: failed_execution_def is_stale_def stale_ids_at_def split: if_splits)
  then show "filter (is_stale (env_now E (w_ticks w) - STALE_THRESHOLD)) (w_executions w') = []"
    by (simp add: filter_empty_conv)
qed

text \<open>The rows by key: a stale execution is failed, and so is every open step of one.\<close>

lemma stale_ids_iff:
  assumes "keys_ok w" "find_execution w i = Some x"
  shows "i \<in> stale_ids_at E w \<longleftrightarrow> is_stale (env_now E (w_ticks w) - STALE_THRESHOLD) x"
proof
  assume "i \<in> stale_ids_at E w"
  then obtain y where y: "y \<in> set (w_executions w)" "ex_id y = i"
    "is_stale (env_now E (w_ticks w) - STALE_THRESHOLD) y" by (auto simp: stale_ids_at_def)
  have "find_execution w (ex_id y) = Some y"
    using assms(1) y(1) by (simp add: keys_ok_def find_execution_def find_distinct)
  with y(2,3) assms(2) show "is_stale (env_now E (w_ticks w) - STALE_THRESHOLD) x" by simp
next
  assume stale: "is_stale (env_now E (w_ticks w) - STALE_THRESHOLD) x"
  have "x \<in> set (w_executions w)" "ex_id x = i"
    using assms(2) by (auto simp: find_execution_def dest: find_SomeD)
  with stale show "i \<in> stale_ids_at E w" by (auto simp: stale_ids_at_def)
qed

lemma stale_id_row:
  assumes "keys_ok w"
  shows "i \<in> stale_ids_at E w \<longleftrightarrow>
    (\<exists>x. find_execution w i = Some x \<and> is_stale (env_now E (w_ticks w) - STALE_THRESHOLD) x)"
proof
  assume "i \<in> stale_ids_at E w"
  then obtain y where y: "y \<in> set (w_executions w)" "ex_id y = i"
    "is_stale (env_now E (w_ticks w) - STALE_THRESHOLD) y" by (auto simp: stale_ids_at_def)
  then show "\<exists>x. find_execution w i = Some x \<and> is_stale (env_now E (w_ticks w) - STALE_THRESHOLD) x"
    using assms by (intro exI [of _ y]) (auto simp: keys_ok_def find_execution_def find_distinct)
next
  assume "\<exists>x. find_execution w i = Some x \<and> is_stale (env_now E (w_ticks w) - STALE_THRESHOLD) x"
  with stale_ids_iff [OF assms] show "i \<in> stale_ids_at E w" by blast
qed

lemma cleanup_rows:
  assumes "keys_ok w" "cleanup_stale_executions E w = (r, w')"
  shows "find_execution w' i = map_option (\<lambda>x. if is_stale (env_now E (w_ticks w) - STALE_THRESHOLD) x
      then failed_execution (env_now E (Suc (w_ticks w))) x else x) (find_execution w i)"
    "find_step w' j = map_option (\<lambda>s. if se_execution_id s \<in> stale_ids_at E w \<and> active (se_status s)
       then failed_stale_step (env_now E (Suc (w_ticks w))) s else s) (find_step w j)"
proof -
  obtain v where v: "cleanup_stale_executions E w =
      (Inr (length (filter (is_stale (env_now E (w_ticks w) - STALE_THRESHOLD)) (w_executions w))), v)"
    and rows: "w_executions v = map (\<lambda>x. if ex_id x \<in> stale_ids_at E w
       then failed_execution (env_now E (Suc (w_ticks w))) x else x) (w_executions w)"
    "w_steps v = map (\<lambda>s. if se_execution_id s \<in> stale_ids_at E w \<and> active (se_status s)
       then failed_stale_step (env_now E (Suc (w_ticks w))) s else s) (w_steps w)"
    by (rule cleanup_run)
  from v assms(2) have "v = w'" by simp
  have "find_execution w' i = map_option (\<lambda>x. if ex_id x \<in> stale_ids_at E w
      then failed_execution (env_now E (Suc (w_ticks w))) x else x) (find_execution w i)"
    using rows(1) \<open>v = w'\<close> unfolding find_execution_def
    by (simp add: find_map_key failed_execution_def)
  then show "find_execution w' i = map_option (\<lambda>x. if is_stale (env_now E (w_ticks w) - STALE_THRESHOLD) x
      then failed_execution (env_now E (Suc (w_ticks w))) x else x) (find_execution w i)"
    using stale_ids_iff [OF assms(1)] ext.find_key [of w i] by (cases "find_execution w i") auto
  show "find_step w' j = map_option (\<lambda>s. if se_execution_id s \<in> stale_ids_at E w \<and> active (se_status s)
       then failed_stale_step (env_now E (Suc (w_ticks w))) s else s) (find_step w j)"
    using rows(2) \<open>v = w'\<close> unfolding find_step_def
    by (simp add: find_map_key failed_stale_step_def)
qed

section \<open>Logs written and logs read\<close>

lemma insort_key_append_max: "f a \<le> f x \<Longrightarrow> insort_key f a (ys @ [x]) = insort_key f a ys @ [x]"
  by (induction ys) auto

lemma sort_key_append_max: "\<forall>y\<in>set ys. f y \<le> f x \<Longrightarrow> sort_key f (ys @ [x]) = sort_key f ys @ [x]"
  by (induction ys) (auto simp: insort_key_append_max)

definition logs_of :: "world \<Rightarrow> uuid \<Rightarrow> uuid \<Rightarrow> string option \<Rightarrow> execution_log list" where
  "logs_of w tenant_id execution_id step_id =
    filter (\<lambda>l. lg_execution_id l = execution_id \<and> lg_tenant_id l = tenant_id \<and>
      (case step_id of None \<Rightarrow> True | Some s \<Rightarrow> lg_step_id l = Some s)) (w_logs w)"

lemma get_execution_logs_run:
  "find_execution w i = Some x \<Longrightarrow> ex_tenant_id x = T \<Longrightarrow>
    get_execution_logs T i s w = (Inr (map execution_log_to_response (sort_key lg_created_at (logs_of w T i s))), w)"
  by (simp add: get_execution_logs_def andthen_def get_tenant_execution_def logs_of_def)

end
