(* ===== verification/Worker.thy ===== *)
theory Worker
  imports Jobs
begin

text \<open>
  The queue worker (\<open>execute_step\<close> of \<open>src/queue/tasks.py\<close>): one stored step is run on its
  own, with the stored \<open>input_data\<close> as its configuration. The task commits on success and in
  its \<open>except\<close> branch before it raises again, so its session ends in one of three ways:
  committed with the output, committed with the exception to raise, or rolled back. The job
  queue only carries the three identifiers as texts.
\<close>

section \<open>The task\<close>

definition STEP_REGISTRY :: "step_type list" where
  "STEP_REGISTRY = [HTTP, TRANSFORM, CONDITION, DELAY, SUB_WORKFLOW]"

text \<open>The constructor \<open>StepType(value)\<close>.\<close>

definition step_type_of :: "string \<Rightarrow> exn + step_type" where
  "step_type_of value =
    (case step_type_of_value value of
       Some t \<Rightarrow> Inr t
     | None \<Rightarrow> Inl (PyError ''ValueError'' (quoted value @ '' is not a valid StepType'')))"

text \<open>The executor gets no session and no tenant: the metadata is not put into its input.\<close>

definition stored_step_def :: "step_type \<Rightarrow> step_execution \<Rightarrow> step_definition" where
  "stored_step_def t r = \<lparr>sd_id = se_step_id r, sd_type = t, sd_config = se_input_data r,
     sd_depends_on = [], sd_retry = None\<rparr>"

definition worker_run :: "env \<Rightarrow> runner" where
  "worker_run E = run_step (nat (max_sub_workflow_depth (env_settings E))) E"

text \<open>The \<open>try\<close> branch up to its commit.\<close>

definition worker_attempt :: "env \<Rightarrow> uuid \<Rightarrow> uuid \<Rightarrow> step_type \<Rightarrow> dict \<Rightarrow> (world, dict) proc" where
  "worker_attempt E se_uuid ex_uuid t context w =
    (case find_step w se_uuid of
       None \<Rightarrow> raise (PyError ''InvalidRequestError'' ''Could not refresh instance'') w
     | Some r \<Rightarrow>
         andthen (worker_run E (stored_step_def t r) (get_step_input context (se_step_id r) [])) (\<lambda>output.
         andthen (transition_step E se_uuid Completed None) (\<lambda>_.
         andthen (modify (upd_step se_uuid (\<lambda>r. r\<lparr>se_output_data := Some output\<rparr>))) (\<lambda>_.
         andthen (merge_step_output ex_uuid (se_step_id r) output) (\<lambda>_.
         ret output)))) w)"

text \<open>\<open>(step_exec.attempt or 1) + 1\<close>.\<close>

definition next_attempt :: "int \<Rightarrow> int" where
  "next_attempt a = (if a = 0 then 1 else a) + 1"

definition worker_failed :: "env \<Rightarrow> uuid \<Rightarrow> exn \<Rightarrow> (world, exn + dict) proc" where
  "worker_failed E se_uuid exc =
    andthen (modify (upd_step se_uuid (\<lambda>r. r\<lparr>se_attempt := next_attempt (se_attempt r)\<rparr>))) (\<lambda>_.
    andthen (transition_step E se_uuid Failed (Some (exn_str exc))) (\<lambda>_. ret (Inl exc)))"

definition unsupported_type :: "string \<Rightarrow> exn" where
  "unsupported_type t = AppError ''UNSUPPORTED_STEP_TYPE'' (''Unsupported step type: '' @ t) 400 []"

text \<open>Inside the session: an outer \<open>Inl\<close> is raised before any commit, an inner one after it.\<close>

definition execute_in_session :: "env \<Rightarrow> string \<Rightarrow> string \<Rightarrow> uuid \<Rightarrow> uuid \<Rightarrow> (world, exn + dict) proc" where
  "execute_in_session E step_execution_id execution_id se_uuid ex_uuid w =
    (case find_step w se_uuid of
       None \<Rightarrow> raise (AppError ''NOT_FOUND'' (''Step execution '' @ step_execution_id @ '' not found.'') 404 []) w
     | Some step_exec \<Rightarrow>
        (case find_execution w ex_uuid of
           None \<Rightarrow> raise (AppError ''NOT_FOUND'' (''Execution '' @ execution_id @ '' not found.'') 404 []) w
         | Some execution \<Rightarrow>
             andthen (transition_step E se_uuid Running None) (\<lambda>_.
             andthen (lift_result (step_type_of (se_step_type step_exec))) (\<lambda>t.
             if t \<notin> set STEP_REGISTRY
             then andthen (transition_step E se_uuid Failed
                    (Some (exn_str (unsupported_type (se_step_type step_exec))))) (\<lambda>_.
                  ret (Inl (unsupported_type (se_step_type step_exec))))
             else on_error
                    (andthen (worker_attempt E se_uuid ex_uuid t (ex_context execution)) (\<lambda>output. ret (Inr output)))
                    (worker_failed E se_uuid))) w))"

definition execute_step :: "env \<Rightarrow> bool \<Rightarrow> string \<Rightarrow> string \<Rightarrow> (world, dict) proc" where
  "execute_step E has_factory step_execution_id execution_id =
    (if \<not> has_factory
     then raise (AppError ''WORKER_ERROR'' ''Database session factory not available in worker context.'' 500 [])
     else
       andthen (lift_result (uuid_parse step_execution_id)) (\<lambda>se_uuid.
       andthen (lift_result (uuid_parse execution_id)) (\<lambda>ex_uuid.
       andthen (in_session E (execute_in_session E step_execution_id execution_id se_uuid ex_uuid)) lift_result)))"

section \<open>Steps without a configuration\<close>

text \<open>Every executor refuses an empty configuration before it does anything.\<close>

lemma worker_run_empty:
  assumes "sd_config s = []"
  shows "\<exists>m. worker_run E s context w = (Inl (config_error m), w)"
  using assms
  by (auto simp: worker_run_def run_step_def run_step_with_def http_execute_def http_prepare_def
      transform_execute_def condition_execute_def delay_execute_def sub_workflow_execute_def
      sub_workflow_target_def andthen_def dict_get_def Let_def split: step_type.split)

lemma registry_all: "t \<in> set STEP_REGISTRY"
  by (cases t) (simp_all add: STEP_REGISTRY_def)

text \<open>A queued step without configuration ends failed, with the complaint of its executor.\<close>

lemma execute_empty:
  assumes "find_step w i = Some r" "find_execution w j = Some x" "se_status r = Queued" "se_input_data r = []"
    and "step_type_of (se_step_type r) = Inr t"
  shows "\<exists>m w' r'. execute_in_session E si sj i j w = (Inr (Inl (config_error m)), w') \<and>
    find_step w' i = Some r' \<and> se_status r' = Failed \<and> se_error r' = Some m \<and>
    se_attempt r' = next_attempt (se_attempt r) \<and> w_executions w' = w_executions w"
proof -
  let ?run = "stamp_step E Running (env_now E (w_ticks w)) None"
  have move: "may_move ALLOWED_STEP_TRANSITIONS (se_status r) Running" "may_move ALLOWED_STEP_TRANSITIONS Running Failed"
    by (simp_all add: may_move_def ALLOWED_STEP_TRANSITIONS_def assms(3))
  obtain w1 where w1: "transition_step E i Running None w = (Inr (?run r), w1)"
    "w1 = (upd_step i ?run (w\<lparr>w_ticks := Suc (w_ticks w)\<rparr>))\<lparr>w_events := w_events w @ [StepTransition i (se_step_id r) Running]\<rparr>"
    using transition_step_ok [OF assms(1) move(1)] by blast
  have found1: "find_step w1 i = Some (?run r)" using assms(1) w1(2) by (simp add: stt.find_upd_same)
  obtain m where m: "worker_run E (stored_step_def t (?run r)) (get_step_input (ex_context x) (se_step_id r) []) w1 =
      (Inl (config_error m), w1)"
    using worker_run_empty [of "stored_step_def t (?run r)" E "get_step_input (ex_context x) (se_step_id r) []" w1] assms(4)
    by (auto simp: stored_step_def_def)
  have attempt: "worker_attempt E i j t (ex_context x) w1 = (Inl (config_error m), w1)"
    using m by (simp add: worker_attempt_def found1 andthen_def)
  let ?w2 = "upd_step i (\<lambda>r. r\<lparr>se_attempt := next_attempt (se_attempt r)\<rparr>) w1"
  let ?r2 = "(?run r)\<lparr>se_attempt := next_attempt (se_attempt r)\<rparr>"
  have found2: "find_step ?w2 i = Some ?r2" using found1 by (simp add: stt.find_upd_same)
  let ?f = "stamp_step E Failed (env_now E (w_ticks ?w2)) (Some m)"
  let ?w3 = "(upd_step i ?f (?w2\<lparr>w_ticks := Suc (w_ticks ?w2)\<rparr>))
    \<lparr>w_events := w_events ?w2 @ [StepTransition i (se_step_id ?r2) Failed]\<rparr>"
  have fail: "transition_step E i Failed (Some m) ?w2 = (Inr (?f ?r2), ?w3)"
    using transition_step_ok [OF found2, of Failed E "Some m"] move(2) by simp
  have err: "exn_str (config_error m) = m" by (simp add: config_error_def app_error_def)
  have "execute_in_session E si sj i j w = (Inr (Inl (config_error m)), ?w3)"
    using assms(1,2,5) w1(1) attempt fail
    by (simp add: execute_in_session_def andthen_def on_error_def worker_failed_def registry_all err)
  moreover have "find_step ?w3 i = Some (?f ?r2)" using found2 by (simp add: stt.find_upd_same)
  moreover have "w_executions ?w3 = w_executions w" by (simp add: w1(2) upd_step_def)
  ultimately show ?thesis
    by (intro exI [of _ m] exI [of _ ?w3] exI [of _ "?f ?r2"]) simp
qed

text \<open>A step that is not queued cannot be started; nothing is written.\<close>

lemma execute_not_queued:
  assumes "find_step w i = Some r" "find_execution w j = Some x" "se_status r \<noteq> Queued"
  shows "\<exists>m. execute_in_session E si sj i j w = (Inl (AppError ''INVALID_TRANSITION'' m 409 []), w)"
proof -
  have "\<not> may_move ALLOWED_STEP_TRANSITIONS (se_status r) Running"
    using assms(3) by (auto simp: may_move_def ALLOWED_STEP_TRANSITIONS_def split: if_splits)
  then show ?thesis
    using transition_step_bad [OF assms(1), of Running E None] assms(1,2)
    by (auto simp: execute_in_session_def andthen_def)
qed

section \<open>The outcome of a queued step\<close>

text \<open>The input of the worker names no tenant, so no nested run starts and only the clock moves.\<close>

lemma worker_run_frame:
  assumes "worker_run E s (get_step_input ctx i c) w = (r, w')"
  shows "\<exists>n\<ge>w_ticks w. w' = w\<lparr>w_ticks := n\<rparr>"
proof -
  let ?in = "get_step_input ctx i c"
  have self: "\<exists>n\<ge>w_ticks w. w = w\<lparr>w_ticks := n\<rparr>" by (rule exI [of _ "w_ticks w"]) simp
  have no_tenant: "map_of ?in ''_tenant_id'' = None" by (simp add: get_step_input_def)
  have "\<exists>e. sub_workflow_target E config ?in = Inl e" for config
  proof (cases "sub_workflow_target E config ?in")
    case (Inr t)
    then show ?thesis by (auto simp: sub_workflow_target_def no_tenant sum_bind_Inr_iff split: option.splits if_splits)
  qed simp
  then obtain e where "sub_workflow_target E (sd_config s) ?in = Inl e" by blast
  then have sub: "sub_workflow_execute E start (sd_config s) ?in w = (Inl e, w)" for start
    by (simp add: sub_workflow_execute_def andthen_def)
  show ?thesis
  proof (cases "sd_type s")
    case HTTP
    then show ?thesis
      using assms http_execute_frame [of E "sd_config s" ?in w r w'] by (simp add: worker_run_def run_step_def run_step_with_def)
  qed (use assms self sub in \<open>auto simp: worker_run_def run_step_def run_step_with_def\<close>)
qed

definition worker_result :: "uuid \<Rightarrow> uuid \<Rightarrow> step_execution \<Rightarrow> world \<Rightarrow> (exn + dict) \<Rightarrow> world \<Rightarrow> bool" where
  "worker_result i j r w res w' \<longleftrightarrow> (\<exists>r'. find_step w' i = Some r' \<and>
    step_history i (w_events w') = step_history i (w_events w) @ [Running, se_status r'] \<and>
    (case res of
       Inr out \<Rightarrow> se_status r' = Completed \<and> se_output_data r' = Some out \<and>
         (\<exists>x'. find_execution w' j = Some x' \<and> outputs (ex_context x') (se_step_id r) = Some out)
     | Inl e \<Rightarrow> se_status r' = Failed \<and> se_error r' = Some (exn_str e) \<and> se_attempt r' = next_attempt (se_attempt r) \<and>
         w_executions w' = w_executions w))"

lemma execute_outcome:
  assumes row: "find_step w i = Some r" and ex: "find_execution w j = Some x" "context_ok (ex_context x)"
    and queued: "se_status r = Queued" and type: "step_type_of (se_step_type r) = Inr t"
  obtains res w' where "execute_in_session E si sj i j w = (Inr res, w')" "worker_result i j r w res w'"
proof -
  have move: "may_move ALLOWED_STEP_TRANSITIONS (se_status r) Running" "may_move ALLOWED_STEP_TRANSITIONS Running Failed"
    "may_move ALLOWED_STEP_TRANSITIONS Running Completed"
    by (simp_all add: may_move_def ALLOWED_STEP_TRANSITIONS_def queued)
  obtain n w1 where w1: "transition_step E i Running None w = (Inr (stamp_step E Running n None r), w1)"
    "find_step w1 i = Some (stamp_step E Running n None r)"
    "step_history i (w_events w1) = step_history i (w_events w) @ [Running]" "w_executions w1 = w_executions w"
  proof (rule that [OF transition_step_ok [OF row move(1), of E None]])
    let ?f = "stamp_step E Running (env_now E (w_ticks w)) None"
    let ?w1 = "(upd_step i ?f (w\<lparr>w_ticks := Suc (w_ticks w)\<rparr>))\<lparr>w_events := w_events w @ [StepTransition i (se_step_id r) Running]\<rparr>"
    show "find_step ?w1 i = Some (?f r)" using row by (simp add: stt.find_upd)
    show "step_history i (w_events ?w1) = step_history i (w_events w) @ [Running]" by (simp add: step_history_append)
    show "w_executions ?w1 = w_executions w" by (simp add: upd_step_def)
  qed
  let ?r1 = "stamp_step E Running n None r"
  let ?in = "get_step_input (ex_context x) (se_step_id r) []"
  obtain res1 w2 where run: "worker_run E (stored_step_def t ?r1) ?in w1 = (res1, w2)" by fastforce
  then obtain k where w2: "w2 = w1\<lparr>w_ticks := k\<rparr>" using worker_run_frame by blast
  have r2: "find_step w2 i = Some ?r1" using w1(2) by (simp add: w2)
  have x2: "find_execution w2 j = Some x" using ex(1) w1(4) by (simp add: w2 find_execution_def)
  show ?thesis
  proof (cases res1)
    case (Inr out)
    note completed = transition_step_ok [OF r2, of Completed E None, simplified, OF move(3)]
    let ?f = "stamp_step E Completed (env_now E (w_ticks w2)) None"
    let ?w3 = "(upd_step i ?f (w2\<lparr>w_ticks := Suc (w_ticks w2)\<rparr>))\<lparr>w_events := w_events w2 @ [StepTransition i (se_step_id r) Completed]\<rparr>"
    let ?g = "\<lambda>r :: step_execution. r\<lparr>se_output_data := Some out\<rparr>"
    let ?w4 = "upd_step i ?g ?w3"
    have x4: "find_execution ?w4 j = Some x" using x2 by simp
    obtain c where c: "merge_context (ex_context x) (se_step_id r) out = Inr c"
      "outputs c = (outputs (ex_context x))(se_step_id r \<mapsto> out)"
      by (rule merge_context_ok [OF ex(2), of "se_step_id r" out])
    let ?w5 = "(upd_execution j (\<lambda>r. r\<lparr>ex_context := c\<rparr>) ?w4)\<lparr>w_events := w_events ?w4 @ [ContextMerge j (se_step_id r)]\<rparr>"
    have merge: "merge_step_output j (se_step_id r) out ?w4 = (Inr (), ?w5)" by (rule merge_step_output_ok [OF x4 c(1)])
    have "worker_attempt E i j t (ex_context x) w1 = (Inr out, ?w5)"
      using run completed merge by (simp add: worker_attempt_def w1(2) Inr andthen_def)
    then have "execute_in_session E si sj i j w = (Inr (Inr out), ?w5)"
      using row ex(1) w1(1) type by (simp add: execute_in_session_def andthen_def on_error_def registry_all)
    moreover have "find_step ?w5 i = Some (?g (?f ?r1))" using r2 by (simp add: stt.find_upd)
    moreover have "find_execution ?w5 j = Some (x\<lparr>ex_context := c\<rparr>)" using x4 by (simp add: ext.find_upd)
    moreover have "step_history i (w_events ?w5) = step_history i (w_events w) @ [Running, Completed]"
      using w1(3) by (simp add: step_history_append w2)
    ultimately show ?thesis
      using c(2) by (intro that [of "Inr out" ?w5]) (auto simp: worker_result_def)
  next
    case (Inl e)
    have "worker_attempt E i j t (ex_context x) w1 = (Inl e, w2)"
      using run by (simp add: worker_attempt_def w1(2) Inl andthen_def)
    let ?h = "\<lambda>r :: step_execution. r\<lparr>se_attempt := next_attempt (se_attempt r)\<rparr>"
    let ?w3 = "upd_step i ?h w2"
    have r3: "find_step ?w3 i = Some (?h ?r1)" using r2 by (simp add: stt.find_upd)
    note failed = transition_step_ok [OF r3, of Failed E "Some (exn_str e)", simplified, OF move(2)]
    let ?f = "stamp_step E Failed (env_now E (w_ticks w2)) (Some (exn_str e))"
    let ?w4 = "(upd_step i ?f (?w3\<lparr>w_ticks := Suc (w_ticks w2)\<rparr>))\<lparr>w_events := w_events w2 @ [StepTransition i (se_step_id r) Failed]\<rparr>"
    have "execute_in_session E si sj i j w = (Inr (Inl e), ?w4)"
      using row ex(1) w1(1) type failed \<open>worker_attempt E i j t (ex_context x) w1 = (Inl e, w2)\<close>
      by (simp add: execute_in_session_def andthen_def on_error_def registry_all worker_failed_def)
    moreover have "find_step ?w4 i = Some (?f (?h ?r1))"
      using stt.find_upd_same [of ?f "?w3\<lparr>w_ticks := Suc (w_ticks w2)\<rparr>" i "?h ?r1"] r3 by simp
    moreover have "w_executions ?w4 = w_executions w" using w1(4) by (simp add: w2 upd_step_def)
    moreover have "step_history i (w_events ?w4) = step_history i (w_events w) @ [Running, Failed]"
      using w1(3) by (simp add: step_history_append w2)
    ultimately show ?thesis
      by (intro that [of "Inl e" ?w4]) (auto simp: worker_result_def)
  qed
qed

lemma task_run:
  assumes "i < 2 ^ 128" "j < 2 ^ 128"
  shows "execute_step E True (uuid_str i) (uuid_str j) w =
    andthen (in_session E (execute_in_session E (uuid_str i) (uuid_str j) i j)) lift_result w"
  by (simp add: execute_step_def andthen_def uuid_parse_str [OF assms(1)] uuid_parse_str [OF assms(2)])

text \<open>A row without a configuration: the task fails it when it is queued, and refuses it otherwise.\<close>

lemma unconfigured_task:
  assumes "i < 2 ^ 128" "j < 2 ^ 128" "find_step w i = Some s" "find_execution w j = Some x"
    and "se_input_data s = []" "step_type_of (se_step_type s) = Inr t"
    and "execute_step E True (uuid_str i) (uuid_str j) w = (r, w')"
  shows "(se_status s = Queued \<longrightarrow> (\<exists>m s'. r = Inl (AppError ''STEP_CONFIG_ERROR'' m 400 []) \<and>
      find_step w' i = Some s' \<and> se_status s' = Failed \<and> se_error s' = Some m \<and> w_executions w' = w_executions w)) \<and>
    (se_status s \<noteq> Queued \<longrightarrow> (\<exists>m. r = Inl (AppError ''INVALID_TRANSITION'' m 409 [])) \<and> same_rows w w')"
proof -
  have rows: "find_step (opened E w) i = Some s" "find_execution (opened E w) j = Some x" using assms(3,4) by simp_all
  have task: "execute_step E True (uuid_str i) (uuid_str j) w =
      andthen (in_session E (execute_in_session E (uuid_str i) (uuid_str j) i j)) lift_result w"
    by (rule task_run [OF assms(1,2)])
  show ?thesis
  proof (cases "se_status s = Queued")
    case True
    obtain m v s' where run: "execute_in_session E (uuid_str i) (uuid_str j) i j (opened E w) = (Inr (Inl (config_error m)), v)"
      "find_step v i = Some s'" "se_status s' = Failed" "se_error s' = Some m" "w_executions v = w_executions (opened E w)"
      using execute_empty [OF rows True assms(5,6), of E "uuid_str i" "uuid_str j"] by blast
    then have "in_session E (execute_in_session E (uuid_str i) (uuid_str j) i j) w = (Inr (Inl (config_error m)), v)"
      by (simp add: in_session_Inr)
    then have "r = Inl (config_error m)" "w' = v" using assms(7) task by (simp_all add: andthen_def)
    with True run show ?thesis by (simp add: config_error_def app_error_def)
  next
    case False
    obtain m where "execute_in_session E (uuid_str i) (uuid_str j) i j (opened E w) =
        (Inl (AppError ''INVALID_TRANSITION'' m 409 []), opened E w)"
      using execute_not_queued [OF rows False, of E "uuid_str i" "uuid_str j"] by blast
    then obtain v where v: "in_session E (execute_in_session E (uuid_str i) (uuid_str j) i j) w =
        (Inl (AppError ''INVALID_TRANSITION'' m 409 []), v)" by (simp add: in_session_Inl)
    then have "r = Inl (AppError ''INVALID_TRANSITION'' m 409 [])" "w' = v" using assms(7) task by (simp_all add: andthen_def)
    with False in_session_error [OF v] show ?thesis by simp
  qed
qed

end
