(* ===== verification/Datetime.thy ===== *)
theory Datetime
  imports World
begin

text \<open>
  Times as the API writes and reads them: \<open>datetime.isoformat()\<close> of an aware UTC time and
  \<open>datetime.fromisoformat\<close> on that form, over the proleptic Gregorian calendar of Python's
  \<open>datetime\<close>. A time is a number of microseconds since 1970; day 1 is the first of January
  of the year 1, and the valid times are those of the years 1 to 9999.
\<close>

section \<open>The calendar\<close>

definition is_leap :: "nat \<Rightarrow> bool" where
  "is_leap y \<longleftrightarrow> y mod 4 = 0 \<and> (y mod 100 \<noteq> 0 \<or> y mod 400 = 0)"

definition days_before_year :: "nat \<Rightarrow> nat" where
  "days_before_year year = (let y = year - 1 in y * 365 + y div 4 - y div 100 + y div 400)"

definition month_lengths :: "nat \<Rightarrow> nat list" where
  "month_lengths y = [31, if is_leap y then 29 else 28, 31, 30, 31, 30, 31, 31, 30, 31, 30, 31]"

text \<open>The month a day of the year falls in, counted from \<open>m\<close>, and the day of that month.\<close>

fun month_day :: "nat list \<Rightarrow> nat \<Rightarrow> nat \<Rightarrow> nat \<times> nat" where
  "month_day [] m n = (m, Suc n)"
| "month_day (k # ks) m n = (if n < k then (m, Suc n) else month_day ks (Suc m) (n - k))"

definition ymd2ord :: "nat \<Rightarrow> nat \<Rightarrow> nat \<Rightarrow> nat" where
  "ymd2ord year month day = days_before_year year + sum_list (take (month - 1) (month_lengths year)) + day"

text \<open>Whole spans of 400, 100, 4 and 1 years; the last of four and of a hundred may be a day longer.\<close>

definition ord2year :: "nat \<Rightarrow> nat \<times> nat" where
  "ord2year n =
    (let n400 = n div 146097; r400 = n mod 146097;
         n100 = min 3 (r400 div 36524); r100 = r400 - n100 * 36524;
         n4 = r100 div 1461; r4 = r100 mod 1461;
         n1 = min 3 (r4 div 365)
     in (n400 * 400 + n100 * 100 + n4 * 4 + n1 + 1, r4 - n1 * 365))"

definition ord2ymd :: "nat \<Rightarrow> nat \<times> nat \<times> nat" where
  "ord2ymd n =
    (case ord2year (n - 1) of (year, day) \<Rightarrow> (year, month_day (month_lengths year) 1 day))"

definition valid_ymd :: "nat \<Rightarrow> nat \<Rightarrow> nat \<Rightarrow> bool" where
  "valid_ymd y m d \<longleftrightarrow> 1 \<le> y \<and> y \<le> 9999 \<and> 1 \<le> m \<and> m \<le> 12 \<and> 1 \<le> d \<and> d \<le> month_lengths y ! (m - 1)"

lemma month_day_sum:
  assumes "n < sum_list ks" "month_day ks a n = (m, d)"
  shows "a \<le> m" "m - a < length ks" "1 \<le> d" "d \<le> ks ! (m - a)" "sum_list (take (m - a) ks) + d = Suc n"
proof -
  have "a \<le> m \<and> m - a < length ks \<and> 1 \<le> d \<and> d \<le> ks ! (m - a) \<and> sum_list (take (m - a) ks) + d = Suc n"
    using assms
  proof (induction ks a n arbitrary: m d rule: month_day.induct)
    case (2 k ks a n)
    show ?case
    proof (cases "n < k")
      case False
      with 2 have "Suc a \<le> m \<and> m - Suc a < length ks \<and> 1 \<le> d \<and> d \<le> ks ! (m - Suc a) \<and>
        sum_list (take (m - Suc a) ks) + d = Suc (n - k)" by simp
      moreover from this have "m - a = Suc (m - Suc a)" by (metis Suc_diff_Suc Suc_le_eq)
      ultimately show ?thesis using False by auto
    qed (use 2 in auto)
  qed simp
  then show "a \<le> m" "m - a < length ks" "1 \<le> d" "d \<le> ks ! (m - a)" "sum_list (take (m - a) ks) + d = Suc n" by simp_all
qed

lemma year_length: "sum_list (month_lengths y) = (if is_leap y then 366 else 365)"
  by (simp add: month_lengths_def)

text \<open>The spans of a day number, with their bounds.\<close>

lemma ord2year_spans:
  obtains a b c d r where "ord2year n = (a * 400 + b * 100 + c * 4 + d + 1, r)"
    "n = a * 146097 + b * 36524 + c * 1461 + d * 365 + r" "b \<le> 3" "c \<le> 24" "d \<le> 3"
    "r < 365 \<or> r = 365 \<and> d = 3 \<and> (c < 24 \<or> b = 3)"
proof -
  define a where "a = n div 146097"
  define r400 where "r400 = n mod 146097"
  define b where "b = min 3 (r400 div 36524)"
  define r100 where "r100 = r400 - b * 36524"
  define c where "c = r100 div 1461"
  define r4 where "r4 = r100 mod 1461"
  define d where "d = min 3 (r4 div 365)"
  have r400: "r400 < 146097" "n = a * 146097 + r400" by (simp_all add: r400_def a_def)
  have b: "b * 36524 \<le> r400" "b \<le> 3" "r400 - b * 36524 < (if b = 3 then 36525 else 36524)"
    using r400(1) by (auto simp: b_def min_def minus_mult_div_eq_mod mult.commute [of _ 36524])
  then have r100: "r400 = b * 36524 + r100" "r100 < (if b = 3 then 36525 else 36524)"
    by (simp_all add: r100_def)
  have c: "r100 = c * 1461 + r4" "r4 < 1461" by (simp_all add: c_def r4_def)
  have d: "d * 365 \<le> r4" "d \<le> 3" "r4 - d * 365 < (if d = 3 then 366 else 365)"
    using c(2) by (auto simp: d_def min_def minus_mult_div_eq_mod mult.commute [of _ 365])
  have "c \<le> 24" using r100(2) c(1) by (auto split: if_splits)
  moreover have "r4 - d * 365 < 365 \<or> r4 - d * 365 = 365 \<and> d = 3 \<and> (c < 24 \<or> b = 3)"
    using d r100(2) c(1) \<open>c \<le> 24\<close> by (auto split: if_splits)
  moreover have "n = a * 146097 + b * 36524 + c * 1461 + d * 365 + (r4 - d * 365)"
    using r400(2) r100(1) c(1) d(1) by simp
  moreover have "ord2year n = (a * 400 + b * 100 + c * 4 + d + 1, r4 - d * 365)"
    by (simp only: ord2year_def Let_def a_def r400_def b_def r100_def c_def r4_def d_def)
  ultimately show ?thesis using b(2) d(2) that by blast
qed

lemma days_before_spans:
  fixes a b c d :: nat
  assumes "b \<le> 3" "c \<le> 24" "d \<le> 3"
  shows "days_before_year (a * 400 + b * 100 + c * 4 + d + 1) = a * 146097 + b * 36524 + c * 1461 + d * 365"
proof -
  let ?y = "a * 400 + b * 100 + c * 4 + d"
  have "?y div 4 = a * 100 + b * 25 + c" using assms by (intro div_nat_eqI) simp_all
  moreover have "?y div 100 = a * 4 + b" using assms by (intro div_nat_eqI) simp_all
  moreover have "?y div 400 = a" using assms by (intro div_nat_eqI) simp_all
  ultimately show ?thesis by (simp add: days_before_year_def Let_def)
qed

lemma leap_spans:
  fixes a b c :: nat
  assumes "b \<le> 3" "c \<le> 24" "c < 24 \<or> b = 3"
  shows "is_leap (a * 400 + b * 100 + c * 4 + 3 + 1)"
proof (cases "c < 24")
  case True
  have "a * 400 + b * 100 + c * 4 + 3 + 1 = (c * 4 + 4) + (a * 4 + b) * 100" by simp
  then have "(a * 400 + b * 100 + c * 4 + 3 + 1) mod 100 = (c * 4 + 4) mod 100" by (simp only: mod_mult_self1)
  moreover have "a * 400 + b * 100 + c * 4 + 3 + 1 = 0 + (a * 100 + b * 25 + c + 1) * 4" by simp
  then have "(a * 400 + b * 100 + c * 4 + 3 + 1) mod 4 = 0 mod 4" by (simp only: mod_mult_self1)
  ultimately show ?thesis using True by (simp add: is_leap_def)
next
  case False
  with assms have "c = 24" "b = 3" by simp_all
  then have "a * 400 + b * 100 + c * 4 + 3 + 1 = (a + 1) * 400" by simp
  then show ?thesis by (simp add: is_leap_def)
qed

lemma ord2year_ok:
  assumes "ord2year n = (y, r)"
  shows "1 \<le> y" "days_before_year y + r = n" "r < sum_list (month_lengths y)"
proof -
  obtain a b c d r' where *: "ord2year n = (a * 400 + b * 100 + c * 4 + d + 1, r')"
    "n = a * 146097 + b * 36524 + c * 1461 + d * 365 + r'" "b \<le> 3" "c \<le> 24" "d \<le> 3"
    "r' < 365 \<or> r' = 365 \<and> d = 3 \<and> (c < 24 \<or> b = 3)" by (rule ord2year_spans)
  with assms have y: "y = a * 400 + b * 100 + c * 4 + d + 1" and r: "r = r'" by simp_all
  show "1 \<le> y" by (simp add: y)
  show "days_before_year y + r = n" using *(2) by (simp add: y r days_before_spans [OF *(3-5), simplified])
  show "r < sum_list (month_lengths y)"
    using *(6) leap_spans [OF *(3,4), of a] by (auto simp: year_length y r)
qed

lemma days_before_mono: "y \<le> z \<Longrightarrow> days_before_year y \<le> days_before_year z"
proof -
  assume "y \<le> z"
  let ?f = "\<lambda>x :: nat. x * 365 + x div 4 - x div 100 + x div 400"
  have "?f x \<le> ?f (Suc x)" for x
  proof -
    have step: "x * 365 + p - r + q \<le> Suc x * 365 + p' - r' + q'" if "p \<le> p'" "q \<le> q'" "r' \<le> Suc r" for p p' q q' r r' :: nat
      using that by simp
    have "x div 4 \<le> Suc x div 4" "x div 400 \<le> Suc x div 400" by (rule div_le_mono, simp)+
    moreover have "Suc x div 100 \<le> Suc (x div 100)" by (simp add: div_Suc)
    ultimately show ?thesis by (rule step)
  qed
  then have "?f x \<le> ?f x'" if "x \<le> x'" for x x' by (rule lift_Suc_mono_le) (use that in auto)
  with \<open>y \<le> z\<close> show ?thesis by (simp add: days_before_year_def Let_def diff_le_mono)
qed

lemma ord2ymd_ok:
  assumes "1 \<le> n" "n \<le> 3652059" "ord2ymd n = (y, m, d)"
  shows "valid_ymd y m d" "ymd2ord y m d = n"
proof -
  obtain r where r: "ord2year (n - 1) = (y, r)" "month_day (month_lengths y) 1 r = (m, d)"
    using assms(3) by (auto simp: ord2ymd_def split: prod.splits)
  note y = ord2year_ok [OF r(1)]
  note md = month_day_sum [OF y(3) r(2)]
  have "y \<le> 9999"
  proof (rule ccontr)
    assume "\<not> y \<le> 9999"
    then have "days_before_year 10000 \<le> days_before_year y" by (intro days_before_mono) simp
    with y(2) assms(1,2) show False by (simp add: days_before_year_def)
  qed
  then show "valid_ymd y m d" using y(1) md(1-4) by (simp add: valid_ymd_def month_lengths_def)
  show "ymd2ord y m d = n" using md(5) y(2) assms(1) by (simp add: ymd2ord_def)
qed

section \<open>Digits and literals\<close>

primrec dec_digits :: "nat \<Rightarrow> nat \<Rightarrow> string" where
  "dec_digits 0 n = []"
| "dec_digits (Suc k) n = dec_digits k (n div 10) @ [char_of (48 + n mod 10)]"

definition digit_value :: "char \<Rightarrow> nat option" where
  "digit_value c = (let n = of_char c :: nat in if 48 \<le> n \<and> n \<le> 57 then Some (n - 48) else None)"

fun dec_num :: "nat \<Rightarrow> string \<Rightarrow> nat option" where
  "dec_num acc [] = Some acc"
| "dec_num acc (c # cs) = (case digit_value c of None \<Rightarrow> None | Some v \<Rightarrow> dec_num (acc * 10 + v) cs)"

text \<open>A field of \<open>k\<close> digits, and a literal, at the start of the text.\<close>

definition field :: "nat \<Rightarrow> string \<Rightarrow> (nat \<times> string) option" where
  "field k s = (if length s < k then None else map_option (\<lambda>n. (n, drop k s)) (dec_num 0 (take k s)))"

definition literal :: "string \<Rightarrow> string \<Rightarrow> string option" where
  "literal p s = (if starts_with s p then Some (drop (length p) s) else None)"

lemma length_dec_digits [simp]: "length (dec_digits k n) = k"
  by (induction k arbitrary: n) auto

lemma digit_value_char: "v < 10 \<Longrightarrow> digit_value (char_of (48 + v)) = Some v"
  by (auto simp: digit_value_def Let_def of_char_of take_bit_eq_mod)

lemma dec_num_append: "dec_num acc (xs @ ys) = Option.bind (dec_num acc xs) (\<lambda>a. dec_num a ys)"
  by (induction acc xs rule: dec_num.induct) (auto split: option.split)

lemma dec_num_digits: "n < 10 ^ k \<Longrightarrow> dec_num acc (dec_digits k n) = Some (acc * 10 ^ k + n)"
proof (induction k arbitrary: n)
  case (Suc k)
  then have "n div 10 < 10 ^ k" by simp
  with Suc.IH show ?case
    by (simp add: dec_num_append digit_value_char algebra_simps)
qed simp

lemma field_digits [simp]: "n < 10 ^ k \<Longrightarrow> field k (dec_digits k n @ s) = Some (n, s)"
  by (simp add: field_def dec_num_digits)

lemma literal_append [simp]: "literal p (p @ s) = Some s"
  by (simp add: literal_def starts_with_iff)

lemma dec_digits_chars: "c \<in> set (dec_digits k n) \<Longrightarrow> 48 \<le> (of_char c :: nat) \<and> of_char c \<le> (57 :: nat)"
proof (induction k arbitrary: n)
  case (Suc k)
  have "48 \<le> (of_char (char_of (48 + m)) :: nat) \<and> of_char (char_of (48 + m) :: char) \<le> (57 :: nat)" if "m < 10" for m :: nat
    using that by (simp add: of_char_of take_bit_eq_mod)
  with Suc show ?case by auto
qed simp

section \<open>Times\<close>

definition DAY :: int where
  "DAY = 86400000000"

text \<open>The day of the first of January 1970.\<close>

definition EPOCH :: int where
  "EPOCH = 719163"

definition valid_time :: "time \<Rightarrow> bool" where
  "valid_time t \<longleftrightarrow> 1 \<le> t div DAY + EPOCH \<and> t div DAY + EPOCH \<le> 3652059"

definition isoformat :: "time \<Rightarrow> string" where
  "isoformat t =
    (case ord2ymd (nat (t div DAY + EPOCH)) of (y, m, d) \<Rightarrow>
      let us = nat (t mod DAY); s = us div 1000000; f = us mod 1000000
      in dec_digits 4 y @ ''-'' @ dec_digits 2 m @ ''-'' @ dec_digits 2 d @ ''T'' @
         dec_digits 2 (s div 3600) @ '':'' @ dec_digits 2 (s div 60 mod 60) @ '':'' @ dec_digits 2 (s mod 60) @
         (if f = 0 then [] else ''.'' @ dec_digits 6 f) @ ''+00:00'')"

definition time_of :: "nat \<Rightarrow> nat \<Rightarrow> nat \<Rightarrow> nat \<Rightarrow> nat \<Rightarrow> nat \<Rightarrow> nat \<Rightarrow> time option" where
  "time_of y m d h mi s f =
    (if valid_ymd y m d \<and> h < 24 \<and> mi < 60 \<and> s < 60
     then Some ((int (ymd2ord y m d) - EPOCH) * DAY + int (((h * 60 + mi) * 60 + s) * 1000000 + f)) else None)"

text \<open>The fraction of a second is absent or has six digits, the zone is UTC.\<close>

definition read_fraction :: "string \<Rightarrow> (nat \<times> string) option" where
  "read_fraction s = (case literal ''.'' s of None \<Rightarrow> Some (0, s) | Some s' \<Rightarrow> field 6 s')"

definition read_date :: "string \<Rightarrow> ((nat \<times> nat \<times> nat) \<times> string) option" where
  "read_date s =
    Option.bind (field 4 s) (\<lambda>(y, s). Option.bind (literal ''-'' s) (\<lambda>s.
    Option.bind (field 2 s) (\<lambda>(m, s). Option.bind (literal ''-'' s) (\<lambda>s.
    Option.bind (field 2 s) (\<lambda>(d, s). Some ((y, m, d), s))))))"

definition read_time :: "string \<Rightarrow> ((nat \<times> nat \<times> nat) \<times> string) option" where
  "read_time s =
    Option.bind (field 2 s) (\<lambda>(h, s). Option.bind (literal '':'' s) (\<lambda>s.
    Option.bind (field 2 s) (\<lambda>(mi, s). Option.bind (literal '':'' s) (\<lambda>s.
    Option.bind (field 2 s) (\<lambda>(sec, s). Some ((h, mi, sec), s))))))"

definition read_isoformat :: "string \<Rightarrow> time option" where
  "read_isoformat s =
    Option.bind (read_date s) (\<lambda>((y, m, d), s). Option.bind (literal ''T'' s) (\<lambda>s.
    Option.bind (read_time s) (\<lambda>((h, mi, sec), s). Option.bind (read_fraction s) (\<lambda>(f, s).
    if s = ''+00:00'' then time_of y m d h mi sec f else None))))"

lemma field_digits_lit [simp]:
  "n < 10 ^ k \<Longrightarrow> field k (dec_digits k n @ c # s) = Some (n, c # s)"
  "literal [c] (c # s) = Some s"
  using field_digits [of n k "c # s"] literal_append [of "[c]" s] by simp_all

lemma read_date_print:
  "y < 10000 \<Longrightarrow> m < 100 \<Longrightarrow> d < 100 \<Longrightarrow>
    read_date (dec_digits 4 y @ CHR ''-'' # dec_digits 2 m @ CHR ''-'' # dec_digits 2 d @ s) = Some ((y, m, d), s)"
  by (simp add: read_date_def del: dec_digits.simps)

lemma read_time_print:
  "h < 100 \<Longrightarrow> mi < 100 \<Longrightarrow> sec < 100 \<Longrightarrow>
    read_time (dec_digits 2 h @ CHR '':'' # dec_digits 2 mi @ CHR '':'' # dec_digits 2 sec @ s) = Some ((h, mi, sec), s)"
  by (simp add: read_time_def del: dec_digits.simps)

lemma read_fraction_print:
  "read_fraction ''+00:00'' = Some (0, ''+00:00'')"
  "f < 1000000 \<Longrightarrow> read_fraction (CHR ''.'' # dec_digits 6 f @ ''+00:00'') = Some (f, ''+00:00'')"
  by (simp_all add: read_fraction_def literal_def del: dec_digits.simps)

lemma read_isoformat_fields:
  assumes "y < 10000" "m < 100" "d < 100" "h < 100" "mi < 100" "sec < 100" "f < 1000000"
  shows "read_isoformat (dec_digits 4 y @ ''-'' @ dec_digits 2 m @ ''-'' @ dec_digits 2 d @ ''T'' @
      dec_digits 2 h @ '':'' @ dec_digits 2 mi @ '':'' @ dec_digits 2 sec @
      (if f = 0 then [] else ''.'' @ dec_digits 6 f) @ ''+00:00'') = time_of y m d h mi sec f"
  using assms
  by (simp add: read_isoformat_def read_date_print read_time_print read_fraction_print del: dec_digits.simps)

lemma read_isoformat_print:
  assumes "valid_time t"
  shows "read_isoformat (isoformat t) = Some t"
proof -
  let ?n = "nat (t div DAY + EPOCH)" let ?us = "nat (t mod DAY)"
  let ?s = "?us div 1000000" let ?f = "?us mod 1000000"
  obtain y m d where ymd: "ord2ymd ?n = (y, m, d)" by (metis prod_cases3)
  have n: "1 \<le> ?n" "?n \<le> 3652059" using assms by (auto simp: valid_time_def)
  note date = ord2ymd_ok [OF n ymd]
  have small: "y < 10000" "m < 100" "d < 100"
  proof -
    have "m - 1 < 12" using date(1) unfolding valid_ymd_def by linarith
    moreover have "month_lengths y ! i \<le> 31" if "i < 12" for i
    proof -
      have "month_lengths y ! i \<in> set (month_lengths y)" using that by (intro nth_mem) (simp add: month_lengths_def)
      then show ?thesis by (auto simp: month_lengths_def split: if_splits)
    qed
    ultimately have "month_lengths y ! (m - 1) \<le> 31" by blast
    with date(1) show "y < 10000" "m < 100" "d < 100" unfolding valid_ymd_def by linarith+
  qed
  have us: "?us < 86400000000" "int ?us = t mod DAY" by (simp_all add: DAY_def nat_less_iff)
  then have s: "?s < 86400" by (intro less_mult_imp_div_less) simp
  then have hms: "?s div 3600 < 24" "?s div 60 mod 60 < 60" "?s mod 60 < 60"
    by (intro less_mult_imp_div_less) simp_all
  have "(?s div 3600 * 60 + ?s div 60 mod 60) * 60 + ?s mod 60 = ?s"
    using div_mult_mod_eq [of "?s div 60" 60] div_mult_mod_eq [of ?s 60] by (simp add: div_mult2_eq [symmetric])
  then have "((?s div 3600 * 60 + ?s div 60 mod 60) * 60 + ?s mod 60) * 1000000 + ?f = ?us" by simp
  then have "time_of y m d (?s div 3600) (?s div 60 mod 60) (?s mod 60) ?f =
      Some ((int ?n - EPOCH) * DAY + int ?us)"
    unfolding time_of_def using date hms by (simp only: if_True simp_thms)
  also have "(int ?n - EPOCH) * DAY + int ?us = t"
    using assms us(2) div_mult_mod_eq [of t DAY] by (simp add: valid_time_def)
  finally have time: "time_of y m d (?s div 3600) (?s div 60 mod 60) (?s mod 60) ?f = Some t" .
  have "read_isoformat (isoformat t) = read_isoformat (dec_digits 4 y @ ''-'' @ dec_digits 2 m @ ''-'' @ dec_digits 2 d @ ''T'' @
      dec_digits 2 (?s div 3600) @ '':'' @ dec_digits 2 (?s div 60 mod 60) @ '':'' @ dec_digits 2 (?s mod 60) @
      (if ?f = 0 then [] else ''.'' @ dec_digits 6 ?f) @ ''+00:00'')"
    by (simp add: isoformat_def ymd Let_def del: dec_digits.simps)
  also have "\<dots> = Some t"
    unfolding time [symmetric] using hms by (intro read_isoformat_fields small) simp_all
  finally show ?thesis .
qed

interpretation iso: text_codec isoformat read_isoformat valid_time
  by unfold_locales (rule read_isoformat_print)

text \<open>The form has no character outside \<open>-:.+T\<close> and the digits.\<close>

lemma isoformat_chars: "c \<in> set (isoformat t) \<Longrightarrow> c \<in> set ''-:.+T'' \<or> 48 \<le> (of_char c :: nat) \<and> of_char c \<le> (57 :: nat)"
proof -
  let ?ok = "\<lambda>c. c \<in> set ''-:.+T'' \<or> 48 \<le> (of_char c :: nat) \<and> of_char c \<le> (57 :: nat)"
  have digits: "\<forall>c\<in>set (dec_digits k n). ?ok c" for k n using dec_digits_chars by blast
  have zone: "\<forall>c\<in>set ''+00:00''. ?ok c" by simp
  obtain y m d where "ord2ymd (nat (t div DAY + EPOCH)) = (y, m, d)" by (metis prod_cases3)
  then have "\<forall>c\<in>set (isoformat t). ?ok c"
    using digits zone by (simp add: isoformat_def Let_def ball_Un del: dec_digits.simps)
  then show "c \<in> set (isoformat t) \<Longrightarrow> ?ok c" by blast
qed

end
