(* ===== verification/Cursors.thy ===== *)
theory Cursors
  imports Workflows Datetime
begin

text \<open>
  Pagination cursors as text (\<open>encode_cursor\<close> and \<open>decode_cursor\<close> of
  \<open>src/api/execution_models.py\<close> and \<open>src/api/workflow_models.py\<close>) and the two list endpoints
  with a cursor in their query: the URL-safe base64 of the time and the identifier of the last
  row shown, separated by a bar. What the client sends may be anything; a text that does not
  decode is answered with \<open>INVALID_CURSOR\<close>.

  Two readings of the standard library are parameters (\<open>text_lib\<close>): the UTF-8 decoding of
  bytes that are not all ASCII, and \<open>datetime.fromisoformat\<close> on forms other than the one
  \<open>isoformat\<close> writes; of a text without an offset the second gives the time the database driver
  takes the naive \<open>datetime\<close> for. No theorem assumes anything of them.
\<close>

section \<open>Encoding and decoding\<close>

record text_lib =
  tl_utf8 :: "string \<Rightarrow> string option"
  tl_fromisoformat :: "string \<Rightarrow> time option"

definition utf8_decode :: "text_lib \<Rightarrow> string \<Rightarrow> string option" where
  "utf8_decode L bytes = (if is_ascii bytes then Some bytes else tl_utf8 L bytes)"

definition fromisoformat :: "text_lib \<Rightarrow> string \<Rightarrow> time option" where
  "fromisoformat L s = (case read_isoformat s of Some t \<Rightarrow> Some t | None \<Rightarrow> tl_fromisoformat L s)"

definition encode_cursor :: "cursor \<Rightarrow> string" where
  "encode_cursor c = base64_encode (isoformat (fst c) @ ''|'' @ uuid_str (snd c))"

definition invalid_cursor :: exn where
  "invalid_cursor = app_error ''INVALID_CURSOR'' ''Invalid pagination cursor.'' []"

text \<open>Whatever goes wrong inside, the one \<open>except\<close> turns it into \<open>INVALID_CURSOR\<close>.\<close>

definition decode_cursor :: "text_lib \<Rightarrow> string \<Rightarrow> exn + cursor" where
  "decode_cursor L cursor =
    (case Option.bind (base64_decode cursor) (utf8_decode L) of
       None \<Rightarrow> Inl invalid_cursor
     | Some raw \<Rightarrow>
         (case split_once CHR ''|'' raw of
            (a, None) \<Rightarrow> Inl invalid_cursor
          | (a, Some b) \<Rightarrow>
              (case (fromisoformat L a, uuid_parse b) of
                 (Some t, Inr i) \<Rightarrow> Inr (t, i) | _ \<Rightarrow> Inl invalid_cursor)))"

definition encode_execution_cursor :: "cursor \<Rightarrow> string" where
  "encode_execution_cursor c = base64_encode (isoformat (fst c) @ ''|'' @ uuid_str (snd c))"

definition decode_execution_cursor :: "text_lib \<Rightarrow> string \<Rightarrow> exn + cursor" where
  "decode_execution_cursor L cursor = decode_cursor L cursor"

section \<open>The list endpoints\<close>

definition read_cursor :: "(string \<Rightarrow> exn + cursor) \<Rightarrow> string option \<Rightarrow> exn + cursor option" where
  "read_cursor decode c =
    (case c of None \<Rightarrow> Inr None
     | Some s \<Rightarrow> if s = '''' then Inr None else sum_bind (decode s) (\<lambda>x. Inr (Some x)))"

definition list_executions_page :: "text_lib \<Rightarrow> uuid \<Rightarrow> execution_filter \<Rightarrow> nat \<Rightarrow> world \<Rightarrow> string option \<Rightarrow>
    exn + execution_response list \<times> string option" where
  "list_executions_page L tenant_id f limit w cursor =
    sum_bind (read_cursor (decode_execution_cursor L) cursor) (\<lambda>c.
      case list_executions tenant_id f limit c w of
        (executions, next_cursor) \<Rightarrow> Inr (executions, map_option encode_execution_cursor next_cursor))"

definition list_workflows_page :: "text_lib \<Rightarrow> uuid \<Rightarrow> workflow_filter \<Rightarrow> nat \<Rightarrow> world \<Rightarrow> string option \<Rightarrow>
    exn + workflow_response list \<times> string option" where
  "list_workflows_page L tenant_id f limit w cursor =
    sum_bind (read_cursor (decode_cursor L) cursor) (\<lambda>c.
      case list_workflows tenant_id f limit c w of
        (workflows, next_cursor) \<Rightarrow> Inr (workflows, map_option encode_cursor next_cursor))"

text \<open>A client that follows the textual cursors for at most \<open>n\<close> pages; it stops at an error.\<close>

primrec crawl_text :: "(string option \<Rightarrow> exn + 'r list \<times> string option) \<Rightarrow> nat \<Rightarrow> string option \<Rightarrow> 'r list" where
  "crawl_text fetch 0 c = []"
| "crawl_text fetch (Suc n) c =
    (case fetch c of Inl e \<Rightarrow> []
     | Inr (rows, next_cursor) \<Rightarrow>
         rows @ (case next_cursor of None \<Rightarrow> [] | Some s \<Rightarrow> crawl_text fetch n (Some s)))"

section \<open>Round trip\<close>

definition valid_cursor :: "cursor \<Rightarrow> bool" where
  "valid_cursor c \<longleftrightarrow> valid_time (fst c) \<and> snd c < 2 ^ 128"

lemma isoformat_ascii: "is_ascii (isoformat t)"
  using isoformat_chars [of _ t] by (fastforce simp: is_ascii_def list_all_iff)

lemma uuid_str_ascii: "is_ascii (uuid_str u)"
  using uuid_str_chars [of _ u] by (fastforce simp: is_ascii_def list_all_iff)

interpretation uuid_text: text_codec uuid_str "\<lambda>s. case uuid_parse s of Inr i \<Rightarrow> Some i | Inl e \<Rightarrow> None" "\<lambda>u. u < 2 ^ 128"
  by unfold_locales (simp add: uuid_parse_str)

interpretation iso_text: text_codec isoformat "fromisoformat L" valid_time for L
  by unfold_locales (simp add: fromisoformat_def iso.parse_print)

interpretation cursor_text: delimited_pair isoformat "fromisoformat L" valid_time
  uuid_str "\<lambda>s. case uuid_parse s of Inr i \<Rightarrow> Some i | Inl e \<Rightarrow> None" "\<lambda>u. u < 2 ^ 128" "CHR ''|''" for L
proof unfold_locales
  show "CHR ''|'' \<notin> set (isoformat t)" for t using isoformat_chars [of "CHR ''|''" t] by auto
qed

lemma decode_encode_cursor: "valid_cursor c \<Longrightarrow> decode_cursor L (encode_cursor c) = Inr c"
proof -
  assume "valid_cursor c"
  then have valid: "valid_time (fst c)" "snd c < 2 ^ 128" by (simp_all add: valid_cursor_def)
  let ?raw = "isoformat (fst c) @ CHR ''|'' # uuid_str (snd c)"
  have "is_ascii ?raw" using isoformat_ascii uuid_str_ascii by (simp add: is_ascii_def)
  then have "Option.bind (base64_decode (encode_cursor c)) (utf8_decode L) = Some ?raw"
    by (simp add: encode_cursor_def base64.parse_print utf8_decode_def)
  moreover have "split_once CHR ''|'' ?raw = (isoformat (fst c), Some (uuid_str (snd c)))"
    using valid(1) by (intro split_once_join cursor_text.sep_absent)
  ultimately show ?thesis
    using valid by (simp add: decode_cursor_def iso_text.parse_print uuid_parse_str)
qed

lemma encode_cursor_nonempty: "encode_cursor c \<noteq> ''''"
  using base64.print_inj [of "isoformat (fst c) @ ''|'' @ uuid_str (snd c)" "[]"] by (simp add: encode_cursor_def)

lemma read_cursor_encode: "valid_cursor c \<Longrightarrow> read_cursor (decode_cursor L) (Some (encode_cursor c)) = Inr (Some c)"
  by (simp add: read_cursor_def encode_cursor_nonempty decode_encode_cursor)

text \<open>Following the textual cursors is following the cursors they stand for.\<close>

lemma crawl_text_crawl:
  assumes page: "\<And>c. fetch_text c = sum_bind (read_cursor (decode_cursor L) c)
      (\<lambda>d. case fetch d of (rows, nxt) \<Rightarrow> Inr (rows, map_option encode_cursor nxt))"
    and valid: "\<And>d rows c. fetch d = (rows, Some c) \<Longrightarrow> valid_cursor c"
    and start: "case d of None \<Rightarrow> True | Some c \<Rightarrow> valid_cursor c"
  shows "crawl_text fetch_text n (map_option encode_cursor d) = crawl fetch n d"
  using start
proof (induction n arbitrary: d)
  case (Suc n)
  obtain rows nxt where f: "fetch d = (rows, nxt)" by fastforce
  have "read_cursor (decode_cursor L) (map_option encode_cursor d) = Inr d"
    using Suc.prems by (cases d) (simp_all add: read_cursor_encode, simp add: read_cursor_def)
  then have "fetch_text (map_option encode_cursor d) = Inr (rows, map_option encode_cursor nxt)"
    by (simp add: page f)
  moreover have "crawl_text fetch_text n (Some (encode_cursor c)) = crawl fetch n (Some c)" if "nxt = Some c" for c
    using Suc.IH [of "Some c"] valid [of d rows c] f that by simp
  ultimately show ?case using f by (cases nxt) simp_all
qed simp

section \<open>Listing by textual cursors\<close>

lemma page_cursor_row:
  "page_of f g limit c rows = (shown, Some d) \<Longrightarrow> \<exists>r\<in>set rows. d = (f r, g r)"
proof -
  assume page: "page_of f g limit c rows = (shown, Some d)"
  then have "shown \<noteq> []" "d = (f (last shown), g (last shown))" by (auto simp: page_of_def Let_def split: if_splits)
  moreover have "set shown \<subseteq> set rows" using page by (auto simp: page_of_def Let_def dest!: in_set_takeD)
  ultimately show ?thesis using last_in_set by blast
qed

context keyed_rows
begin

lemma crawl_text_all:
  assumes "keyed s" "0 < limit" "length (rows s) \<le> n" "\<forall>r\<in>set (rows s). valid_cursor (created_at r, row_id r)"
    and page: "\<And>c. fetch c = sum_bind (read_cursor (decode_cursor L) c) (\<lambda>d.
      case page_of created_at row_id limit d (rows s) of (rs, nxt) \<Rightarrow> Inr (map respond rs, map_option encode_cursor nxt))"
  shows "crawl_text fetch (Suc n) None = map respond (ordered_rows s)"
proof -
  let ?page = "\<lambda>d. page_of created_at row_id limit d (rows s)"
  let ?fetch = "\<lambda>d. (map respond (fst (?page d)), snd (?page d))"
  have "crawl_text fetch (Suc n) (map_option encode_cursor None) = crawl ?fetch (Suc n) None"
  proof (rule crawl_text_crawl [of fetch L ?fetch])
    show "fetch c = sum_bind (read_cursor (decode_cursor L) c) (\<lambda>d. case ?fetch d of (rows, nxt) \<Rightarrow>
        Inr (rows, map_option encode_cursor nxt))" for c
      by (simp add: page case_prod_beta)
    show "valid_cursor c" if "?fetch d = (rs, Some c)" for d rs c
      using page_cursor_row [of created_at row_id limit d "rows s"] that assms(4) by (metis prod.collapse snd_conv)
  qed simp
  moreover have "crawl ?fetch k c = map respond (crawl ?page k c)" for k c
    by (induction k arbitrary: c) (simp_all split: option.split)
  ultimately have "crawl_text fetch (Suc n) None = map respond (crawl ?page (Suc n) None)" by (simp only: option.map)
  then show ?thesis using crawl_all [OF assms(1-3)] by (simp only:)
qed

end

end
