(* ===== verification/Cron.thy ===== *)
theory Cron
  imports Cursors
begin

text \<open>
  Cron triggers (\<open>src/triggers/cron.py\<close>, the start-up of \<open>src/main.py\<close>): the workflows with a
  schedule are loaded once, each valid expression becomes a job of the scheduler, and a tick of
  a job starts a run. APScheduler is third-party code: what its \<open>CronTrigger\<close> accepts and what
  its job store does are the fields of \<open>scheduler_lib\<close>, and \<open>scheduler_laws\<close> says what its
  documentation promises of the store: a job added under an id replaces the one with that id,
  a removed job is gone, a new store is empty.
\<close>

section \<open>The scheduler library\<close>

record cron_fields =
  cf_minute :: string
  cf_hour :: string
  cf_day :: string
  cf_month :: string
  cf_day_of_week :: string

record cron_job =
  cj_fields :: cron_fields
  cj_workflow_id :: string
  cj_tenant_id :: string

record 's scheduler_lib =
  sl_trigger :: "cron_fields \<Rightarrow> string option \<Rightarrow> exn + unit"
  sl_new :: "string \<Rightarrow> exn + 's"
  sl_add_job :: "string \<Rightarrow> cron_job \<Rightarrow> 's \<Rightarrow> 's"
  sl_get_job :: "string \<Rightarrow> 's \<Rightarrow> cron_job option"
  sl_remove_job :: "string \<Rightarrow> 's \<Rightarrow> 's"
  sl_start :: "'s \<Rightarrow> 's"

definition scheduler_laws :: "'s scheduler_lib \<Rightarrow> bool" where
  "scheduler_laws L \<longleftrightarrow>
    (\<forall>tz s i. sl_new L tz = Inr s \<longrightarrow> sl_get_job L i s = None) \<and>
    (\<forall>i j k s. sl_get_job L k (sl_add_job L i j s) = (if k = i then Some j else sl_get_job L k s)) \<and>
    (\<forall>i k s. sl_get_job L k (sl_remove_job L i s) = (if k = i then None else sl_get_job L k s)) \<and>
    (\<forall>k s. sl_get_job L k (sl_start L s) = sl_get_job L k s)"

section \<open>Expressions\<close>

text \<open>\<open>s.split()\<close>.\<close>

function py_split :: "string \<Rightarrow> string list" where
  "py_split s =
    (let t = dropWhile is_space s
     in if t = [] then [] else takeWhile (\<lambda>c. \<not> is_space c) t # py_split (dropWhile (\<lambda>c. \<not> is_space c) t))"
  by pat_completeness auto
termination py_split
proof (relation "measure length", goal_cases)
  case (2 s t)
  then obtain c cs where t: "t = c # cs" by (meson neq_Nil_conv)
  with 2(1) have "\<not> is_space c" by (metis hd_dropWhile list.distinct(1) list.sel(1))
  with t have "length (dropWhile (\<lambda>c. \<not> is_space c) t) \<le> length cs" by (simp add: length_dropWhile_le)
  also have "length cs < length t" by (simp add: t)
  also have "length t \<le> length s" using 2(1) by (simp add: length_dropWhile_le)
  finally show ?case by simp
qed simp

declare py_split.simps [simp del]

definition invalid_expression :: "string \<Rightarrow> string \<Rightarrow> exn" where
  "invalid_expression expression why =
    PyError ''ValueError'' (''Invalid cron expression: '' @ quoted expression @ ''. '' @ why)"

text \<open>Of the exceptions of \<open>CronTrigger\<close> two are turned into a \<open>ValueError\<close> with the text.\<close>

definition parse_cron_expression :: "'s scheduler_lib \<Rightarrow> json \<Rightarrow> exn + cron_fields" where
  "parse_cron_expression L expression =
    (case expression of
       JStr s \<Rightarrow>
         (case py_split (py_strip s) of
            [minute, hour, day, month, day_of_week] \<Rightarrow>
              (let fields = \<lparr>cf_minute = minute, cf_hour = hour, cf_day = day, cf_month = month,
                             cf_day_of_week = day_of_week\<rparr>
               in case sl_trigger L fields None of
                    Inr u \<Rightarrow> Inr fields
                  | Inl (PyError c m) \<Rightarrow> if c \<in> {''ValueError'', ''TypeError''}
                      then Inl (invalid_expression s m) else Inl (PyError c m)
                  | Inl (AppError c m st ds) \<Rightarrow> Inl (AppError c m st ds))
          | _ \<Rightarrow> Inl (invalid_expression s ''Expected 5 fields: minute hour day month day_of_week''))
     | j \<Rightarrow> Inl (attribute_error j ''strip''))"

section \<open>Loading and scheduling\<close>

text \<open>
  The query has no order of its own; the rows come in the order of the table.
\<close>

definition load_cron_workflows :: "env \<Rightarrow> world \<Rightarrow> workflow list" where
  "load_cron_workflows E w =
    take (nat (max_cron_workflows (env_settings E)))
      (filter (\<lambda>f. wf_trigger_type f = ''cron'' \<and> wf_is_active f) (w_workflows w))"

definition cron_expression_of :: "workflow \<Rightarrow> json" where
  "cron_expression_of flow = dict_get (wf_trigger_config flow) ''cron_expression'' (JStr '''')"

definition job_id :: "string \<Rightarrow> string" where
  "job_id workflow_id = ''cron_'' @ workflow_id"

text \<open>The job an expression gives, or the exception.\<close>

definition make_job :: "'s scheduler_lib \<Rightarrow> string \<Rightarrow> workflow \<Rightarrow> exn + cron_job" where
  "make_job L timezone flow =
    sum_bind (parse_cron_expression L (cron_expression_of flow)) (\<lambda>fields.
    sum_bind (sl_trigger L fields (Some timezone)) (\<lambda>_.
    Inr \<lparr>cj_fields = fields, cj_workflow_id = uuid_str (wf_id flow), cj_tenant_id = uuid_str (wf_tenant_id flow)\<rparr>))"

text \<open>One turn of the loop: a missing expression and a \<open>ValueError\<close> are logged and passed over.\<close>

definition schedule_workflow :: "'s scheduler_lib \<Rightarrow> string \<Rightarrow> workflow \<Rightarrow> 's \<Rightarrow> exn + 's" where
  "schedule_workflow L timezone flow s =
    (if \<not> py_truthy (cron_expression_of flow) then Inr s
     else case make_job L timezone flow of
       Inr j \<Rightarrow> Inr (sl_add_job L (job_id (uuid_str (wf_id flow))) j s)
     | Inl (PyError c m) \<Rightarrow> if c = ''ValueError'' then Inr s else Inl (PyError c m)
     | Inl (AppError c m st ds) \<Rightarrow> Inl (AppError c m st ds))"

fun schedule_all :: "'s scheduler_lib \<Rightarrow> string \<Rightarrow> workflow list \<Rightarrow> 's \<Rightarrow> exn + 's" where
  "schedule_all L timezone [] s = Inr s"
| "schedule_all L timezone (f # fs) s = sum_bind (schedule_workflow L timezone f s) (schedule_all L timezone fs)"

text \<open>The state is the module's \<open>_scheduler\<close>; the database is only read.\<close>

definition start_scheduler :: "env \<Rightarrow> 's scheduler_lib \<Rightarrow> world \<Rightarrow> ('s option, 's) proc" where
  "start_scheduler E L w scheduler =
    (case sum_bind (sl_new L (cron_timezone (env_settings E)))
        (schedule_all L (cron_timezone (env_settings E)) (load_cron_workflows E w)) of
       Inl e \<Rightarrow> (Inl e, scheduler)
     | Inr s \<Rightarrow> (Inr (sl_start L s), Some (sl_start L s)))"

text \<open>The scheduler that is shut down is dropped.\<close>

definition stop_scheduler :: "'s option \<Rightarrow> 's option" where
  "stop_scheduler scheduler = (case scheduler of None \<Rightarrow> None | Some s \<Rightarrow> None)"

text \<open>The start-up of the application: any exception leaves the service without a scheduler.\<close>

definition startup :: "env \<Rightarrow> 's scheduler_lib \<Rightarrow> world \<Rightarrow> 's option \<Rightarrow> 's option" where
  "startup E L w scheduler =
    (if is_testing (env_settings E) then scheduler else snd (start_scheduler E L w scheduler))"

definition add_cron_job :: "env \<Rightarrow> 's scheduler_lib \<Rightarrow> workflow \<Rightarrow> ('s option, unit) proc" where
  "add_cron_job E L flow scheduler =
    (case scheduler of
       None \<Rightarrow> ret () scheduler
     | Some s \<Rightarrow>
        (case schedule_workflow L (cron_timezone (env_settings E)) flow s of
           Inl e \<Rightarrow> raise e scheduler
         | Inr s' \<Rightarrow> ret () (Some s')))"

definition remove_cron_job :: "'s scheduler_lib \<Rightarrow> string \<Rightarrow> 's option \<Rightarrow> 's option" where
  "remove_cron_job L workflow_id scheduler =
    (case scheduler of
       None \<Rightarrow> None
     | Some s \<Rightarrow> if sl_get_job L (job_id workflow_id) s = None then Some s
                 else Some (sl_remove_job L (job_id workflow_id) s))"

section \<open>A tick\<close>

definition cron_trigger_data :: "time \<Rightarrow> dict" where
  "cron_trigger_data now = [(''triggered_by'', JStr ''cron''), (''scheduled_time'', JStr (isoformat now))]"

definition cron_session :: "env \<Rightarrow> dict \<Rightarrow> string \<Rightarrow> string \<Rightarrow> (world, unit) proc" where
  "cron_session E trigger_data workflow_id tenant_id =
    andthen (lift_result (uuid_parse workflow_id)) (\<lambda>i w.
      case find_workflow w i of
        None \<Rightarrow> ret () w
      | Some flow \<Rightarrow>
          if \<not> wf_is_active flow then ret () w
          else andthen (lift_result (uuid_parse tenant_id)) (\<lambda>t.
               andthen (start_execution E flow trigger_data t None 0) (\<lambda>_. ret ())) w)"

definition execute_cron_workflow :: "env \<Rightarrow> string \<Rightarrow> string \<Rightarrow> (world, unit) proc" where
  "execute_cron_workflow E workflow_id tenant_id =
    andthen (utc_now E) (\<lambda>now.
      on_error (in_session E (cron_session E (cron_trigger_data now) workflow_id tenant_id)) (\<lambda>e. ret ()))"

section \<open>What the schedule holds\<close>

text \<open>The job of a workflow that can be scheduled.\<close>

definition job_of :: "'s scheduler_lib \<Rightarrow> string \<Rightarrow> workflow \<Rightarrow> cron_job option" where
  "job_of L timezone flow =
    (if \<not> py_truthy (cron_expression_of flow) then None
     else case make_job L timezone flow of Inr j \<Rightarrow> Some j | Inl e \<Rightarrow> None)"

lemma get_add_job: "scheduler_laws L \<Longrightarrow> sl_get_job L k (sl_add_job L i j s) = (if k = i then Some j else sl_get_job L k s)"
  by (simp add: scheduler_laws_def)

lemma schedule_workflow_jobs:
  assumes "scheduler_laws L" "schedule_workflow L tz f s = Inr s'"
  shows "sl_get_job L k s' =
    (if k = job_id (uuid_str (wf_id f)) \<and> job_of L tz f \<noteq> None then job_of L tz f else sl_get_job L k s)"
  using assms
  by (auto simp: schedule_workflow_def job_of_def get_add_job split: if_splits sum.splits exn.splits)

lemma job_id_inj: "u < 2 ^ 128 \<Longrightarrow> v < 2 ^ 128 \<Longrightarrow> job_id (uuid_str u) = job_id (uuid_str v) \<longleftrightarrow> u = v"
  by (simp add: job_id_def uuid_text.print_inj)

text \<open>
  After the loop the store holds exactly the jobs of the loaded workflows, one each, besides
  what it held under other ids.
\<close>

lemma schedule_all_other:
  assumes "scheduler_laws L" "schedule_all L tz fs s = Inr s'" "k \<notin> (\<lambda>f. job_id (uuid_str (wf_id f))) ` set fs"
  shows "sl_get_job L k s' = sl_get_job L k s"
  using assms(2,3)
proof (induction fs arbitrary: s)
  case (Cons g fs)
  then obtain t where t: "schedule_workflow L tz g s = Inr t" "schedule_all L tz fs t = Inr s'"
    by (auto simp: sum_bind_Inr_iff)
  then show ?case
    using Cons.IH [OF t(2)] schedule_workflow_jobs [OF assms(1) t(1), of k] Cons.prems(2) by simp
qed simp

lemma schedule_all_jobs:
  assumes "scheduler_laws L" "distinct (map wf_id fs)" "\<forall>f\<in>set fs. wf_id f < 2 ^ 128"
    and "schedule_all L tz fs s = Inr s'" "f \<in> set fs" "sl_get_job L (job_id (uuid_str (wf_id f))) s = None"
  shows "sl_get_job L (job_id (uuid_str (wf_id f))) s' = job_of L tz f"
  using assms(2-)
proof (induction fs arbitrary: s)
  case (Cons g fs)
  then obtain t where t: "schedule_workflow L tz g s = Inr t" "schedule_all L tz fs t = Inr s'"
    by (auto simp: sum_bind_Inr_iff)
  have other: "job_id (uuid_str (wf_id h)) \<noteq> job_id (uuid_str (wf_id g))" if "h \<in> set fs" for h
    using Cons.prems(1,2) that by (subst job_id_inj) (auto simp: rev_image_eqI)
  show ?case
  proof (cases "f = g")
    case True
    have "job_id (uuid_str (wf_id g)) \<notin> (\<lambda>f. job_id (uuid_str (wf_id f))) ` set fs" using other by force
    with schedule_all_other [OF assms(1) t(2)] schedule_workflow_jobs [OF assms(1) t(1)] True Cons.prems(5)
    show ?thesis by simp
  next
    case False
    then have f: "f \<in> set fs" using Cons.prems(4) by simp
    moreover have "sl_get_job L (job_id (uuid_str (wf_id f))) t = None"
      using schedule_workflow_jobs [OF assms(1) t(1)] other [OF f] Cons.prems(5) by simp
    ultimately show ?thesis using Cons.IH [OF _ _ t(2)] Cons.prems(1,2) by simp
  qed
qed simp

text \<open>An expression that is not a text stops the loop, whatever comes before or after it.\<close>

lemma schedule_all_stops:
  assumes "f \<in> set fs" "py_truthy (cron_expression_of f)" "\<And>s. cron_expression_of f \<noteq> JStr s"
  shows "\<exists>e. schedule_all L tz fs s = Inl e"
  using assms(1)
proof (induction fs arbitrary: s)
  case (Cons g fs)
  have stop: "\<exists>e. schedule_workflow L tz f s = Inl e" for s
    using assms(2,3)
    by (cases "cron_expression_of f")
      (auto simp: schedule_workflow_def make_job_def parse_cron_expression_def attribute_error_def)
  show ?case
  proof (cases "schedule_workflow L tz g s")
    case (Inr t)
    then have "g \<noteq> f" using stop [of s] by auto
    with Cons Inr show ?thesis by simp
  qed simp
qed simp

section \<open>What a tick does\<close>

lemma cron_session_inactive:
  assumes "i < 2 ^ 128" "case find_workflow w i of None \<Rightarrow> True | Some f \<Rightarrow> \<not> wf_is_active f"
  shows "cron_session E d (uuid_str i) t w = (Inr (), w)"
  using assms by (simp add: cron_session_def uuid_parse_str andthen_def split: option.splits)

lemma cron_session_active:
  assumes "i < 2 ^ 128" "T < 2 ^ 128" "find_workflow w i = Some f" "wf_is_active f"
  shows "cron_session E d (uuid_str i) (uuid_str T) w = andthen (start_execution E f d T None 0) (\<lambda>_. ret ()) w"
  using assms by (simp add: cron_session_def uuid_parse_str andthen_def)

end
