(* ===== verification/Operations_Properties.thy ===== *)
theory Operations_Properties
  imports Demo Worker Cron
begin

text \<open>
  The properties of what runs beside the requests: the periodic jobs, the execution log, the
  queue worker, the cron schedule and the textual cursors.
\<close>

section \<open>Periodic jobs\<close>

text \<open>
  C26. The cleanup fails exactly the executions that have been running since before its cutoff,
  and exactly the open steps of those; it counts them, leaves every other row and the log of
  transitions as they were, and nothing is stale at the cutoff afterwards.
\<close>

theorem stale_cleanup:
  assumes "keys_ok w" "cleanup_stale_executions E w = (r, w')"
  defines "stale \<equiv> is_stale (env_now E (w_ticks w) - 3600 * 1000000)" and "now \<equiv> env_now E (Suc (w_ticks w))"
  shows "r = Inr (length (filter stale (w_executions w))) \<and> filter stale (w_executions w') = [] \<and>
    (\<forall>i. find_execution w' i = map_option (\<lambda>x. if stale x
       then x\<lparr>ex_status := Failed, ex_error := Some ''Execution timed out (stale)'', ex_completed_at := Some now\<rparr>
       else x) (find_execution w i)) \<and>
    (\<forall>j. find_step w' j = map_option (\<lambda>s.
       if (\<exists>x. find_execution w (se_execution_id s) = Some x \<and> stale x) \<and> se_status s \<in> {Pending, Queued, Running}
       then s\<lparr>se_status := Failed, se_error := Some ''Parent execution timed out (stale)'', se_completed_at := Some now\<rparr>
       else s) (find_step w j)) \<and>
    w_events w' = w_events w \<and> w_tenants w' = w_tenants w \<and> w_workflows w' = w_workflows w \<and>
    w_logs w' = w_logs w \<and> w_deliveries w' = w_deliveries w"
proof -
  have th: "STALE_THRESHOLD = 3600 * 1000000" by (simp add: STALE_THRESHOLD_def HOUR_def)
  obtain v where v: "cleanup_stale_executions E w = (Inr (length (filter stale (w_executions w))), v)"
    "w_tenants v = w_tenants w" "w_workflows v = w_workflows w" "w_logs v = w_logs w"
    "w_deliveries v = w_deliveries w" "w_events v = w_events w"
    by (rule cleanup_run [of E w]) (simp add: th stale_def)
  then have run: "r = Inr (length (filter stale (w_executions w)))" "w' = v" using assms(2) by simp_all
  note rows = cleanup_rows [OF assms(1,2), unfolded th failed_execution_def failed_stale_step_def
      STALE_ERROR_MSG_def STALE_STEP_ERROR_MSG_def stale_id_row [OF assms(1)], folded stale_def now_def]
  have "filter stale (w_executions w') = []"
    using cleanup_none_left(1) [of E w] assms(2) run(1) by (simp add: th stale_def)
  then show ?thesis
    using v run rows by simp
qed

definition stuck_world :: world where
  "stuck_world = (service_world Running)\<lparr>w_executions := [(stored_execution Running)\<lparr>ex_started_at := Some (- 5000000000)\<rparr>]\<rparr>"

theorem stale_cleanup_witness:
  "\<exists>w'. cleanup_stale_executions demo_env stuck_world = (Inr 1, w') \<and>
    (\<exists>s. find_step w' 6 = Some s \<and> se_status s = Failed) \<and> w_events w' = []"
proof -
  obtain r w' where run: "cleanup_stale_executions demo_env stuck_world = (r, w')" by (metis surj_pair)
  have keys: "keys_ok stuck_world"
    by (simp add: keys_ok_def stuck_world_def service_world_def stored_execution_def new_execution_def)
  have n: "length (filter (is_stale (env_now demo_env (w_ticks stuck_world) - 3600 * 1000000)) (w_executions stuck_world)) = 1"
    by code_simp
  have ex: "find_execution stuck_world 5 = Some ((stored_execution Running)\<lparr>ex_started_at := Some (- 5000000000)\<rparr>)"
    by code_simp
  have stale: "is_stale (env_now demo_env (w_ticks stuck_world) - 3600 * 1000000)
      ((stored_execution Running)\<lparr>ex_started_at := Some (- 5000000000)\<rparr>)" by code_simp
  obtain s where s: "find_step stuck_world 6 = Some s" "se_execution_id s = 5" "se_status s = Pending"
    by (simp add: find_step_def stuck_world_def service_world_def new_step_def)
  have "w_events stuck_world = []" by (simp add: stuck_world_def service_world_def empty_world_def)
  then show ?thesis
    using stale_cleanup [OF keys run] run n ex stale s by (intro exI [of _ w']) auto
qed

definition stored_log :: "time \<Rightarrow> execution_log" where
  "stored_log t = \<lparr>lg_id = 8, lg_tenant_id = 7, lg_execution_id = 5, lg_step_id = None, lg_level = ''info'',
     lg_message = ''m'', lg_data = [], lg_created_at = t\<rparr>"

definition logged_world :: "time \<Rightarrow> world" where
  "logged_world t = (service_world Running)\<lparr>w_logs := [stored_log t], w_ticks := 3000000000000\<rparr>"

lemma logged_row: "find_execution (logged_world t) 5 = Some (stored_execution Running)"
  using service_row [of Running] by (simp add: logged_world_def find_execution_def)

lemma logged_read:
  "get_execution_logs 7 5 None (logged_world t) = (Inr [execution_log_to_response (stored_log t)], logged_world t)"
  by (subst get_execution_logs_run [OF logged_row])
    (simp_all add: logs_of_def service_simps, simp add: logged_world_def stored_log_def)

text \<open>
  Pruning removes what is older than the retention and nothing else: what a tenant reads
  of a log afterwards is what it read before, less the entries of more than 30 days ago, and
  the count is the number of rows that are gone. The same holds of deliveries after 7 days.
\<close>

theorem pruning_exact:
  assumes "prune_execution_logs E w = (r, w')" "prune_webhook_deliveries E w = (q, v)"
  shows "r = Inr (length (w_logs w) - length (w_logs w')) \<and>
    (\<forall>T i s old. get_execution_logs T i s w = (Inr old, w) \<longrightarrow>
      get_execution_logs T i s w' =
        (Inr (filter (\<lambda>l. env_now E (w_ticks w) - 30 * 24 * 3600 * 1000000 \<le> lr_created_at l) old), w')) \<and>
    q = Inr (length (w_deliveries w) - length (w_deliveries v)) \<and>
    w_deliveries v = filter (\<lambda>d. env_now E (w_ticks w) - 7 * 24 * 3600 * 1000000 \<le> wd_created_at d) (w_deliveries w) \<and>
    w_executions w' = w_executions w \<and> w_deliveries w' = w_deliveries w \<and> w_logs v = w_logs w"
proof -
  let ?cut = "env_now E (w_ticks w) - 30 * 24 * 3600 * 1000000"
  have count: "length (filter P xs) = length xs - length (filter (\<lambda>x. \<not> P x) xs)" for P :: "'a \<Rightarrow> bool" and xs
    using sum_length_filter_compl [of P xs] by simp
  have logs: "w_logs w' = filter (\<lambda>l. ?cut \<le> lg_created_at l) (w_logs w)"
    "r = Inr (length (w_logs w) - length (w_logs w'))" "w_executions w' = w_executions w" "w_deliveries w' = w_deliveries w"
    using assms(1) count [of "\<lambda>l. lg_created_at l < ?cut" "w_logs w"]
    by (auto simp: prune_execution_logs_def andthen_def utc_now_def in_session_def LOG_RETENTION_def HOUR_def not_less Let_def)
  have dels: "w_deliveries v = filter (\<lambda>d. env_now E (w_ticks w) - 7 * 24 * 3600 * 1000000 \<le> wd_created_at d) (w_deliveries w)"
    "q = Inr (length (w_deliveries w) - length (w_deliveries v))" "w_logs v = w_logs w"
    using assms(2) count [of "\<lambda>d. wd_created_at d < env_now E (w_ticks w) - 7 * 24 * 3600 * 1000000" "w_deliveries w"]
    by (auto simp: prune_webhook_deliveries_def andthen_def utc_now_def in_session_def WEBHOOK_RETENTION_def HOUR_def not_less Let_def)
  have "get_execution_logs T i s w' = (Inr (filter (\<lambda>l. ?cut \<le> lr_created_at l) old), w')"
    if old: "get_execution_logs T i s w = (Inr old, w)" for T i s old
  proof -
    obtain x where x: "find_execution w i = Some x" "ex_tenant_id x = T"
      using old by (auto simp: get_execution_logs_def andthen_def lookup_simps get_tenant_execution_def split: option.splits if_splits)
    then have old': "old = map execution_log_to_response (sort_key lg_created_at (logs_of w T i s))"
      using old by (simp add: get_execution_logs_run)
    have "logs_of w' T i s = filter (\<lambda>l. ?cut \<le> lg_created_at l) (logs_of w T i s)"
      by (auto simp: logs_of_def logs(1) intro: filter_cong)
    moreover have "find_execution w' i = Some x" using x(1) by (simp add: find_execution_def logs(3))
    ultimately show ?thesis
      using x(2) by (simp add: get_execution_logs_run old' filter_sort [symmetric] filter_map o_def execution_log_to_response_def)
  qed
  then show ?thesis using logs dels by blast
qed

theorem pruning_exact_witness:
  "\<exists>w'. snd (prune_execution_logs demo_env (logged_world 0)) = w' \<and>
    get_execution_logs 7 5 None w' = (Inr [], w') \<and> w_executions w' = w_executions (logged_world 0)"
proof -
  obtain r w' q v where run: "prune_execution_logs demo_env (logged_world 0) = (r, w')"
    "prune_webhook_deliveries demo_env (logged_world 0) = (q, v)" by (metis surj_pair)
  show ?thesis
    using pruning_exact [OF run] logged_read [of 0] run(1)
    by (intro exI [of _ w']) (simp add: execution_log_to_response_def stored_log_def demo_env_def logged_world_def)
qed

section \<open>The execution log\<close>

text \<open>
  What is recorded is read back: when no entry of the execution is later than the current
  transaction, the tenant that reads the log sees the entry with all its fields after those it
  saw before; another tenant sees no change, and an unknown level writes nothing.
\<close>

theorem log_read_back:
  assumes "record_execution_log E T i level message step data w = (r, w')"
    and "find_execution w i = Some x" "ex_tenant_id x = T" "\<forall>l\<in>set (w_logs w). lg_created_at l \<le> w_txn_now w"
    and "get_execution_logs T i None w = (Inr old, w)"
  shows "(level \<in> {''info'', ''warn'', ''error'', ''debug''} \<longrightarrow> (\<exists>entry. r = Inr entry \<and>
      get_execution_logs T i None w' = (Inr (old @ [\<lparr>lr_id = lg_id entry, lr_step_id = step, lr_level = level,
        lr_message = message, lr_data = data, lr_created_at = w_txn_now w\<rparr>]), w'))) \<and>
    (level \<notin> {''info'', ''warn'', ''error'', ''debug''} \<longrightarrow> (\<exists>m. r = Inl (PyError ''ValueError'' m)) \<and> w' = w) \<and>
    (\<forall>U j s. U \<noteq> T \<longrightarrow> fst (get_execution_logs U j s w') = fst (get_execution_logs U j s w))"
proof (cases "level \<in> {''info'', ''warn'', ''error'', ''debug''}")
  case False
  then have "r = Inl (PyError ''ValueError'' (''Invalid log level: '' @ quoted level))" "w' = w"
    using assms(1) by (auto simp: record_execution_log_def VALID_LEVELS_def)
  with False show ?thesis by simp
next
  case True
  let ?e = "\<lparr>lg_id = env_uuid E (w_ticks w), lg_tenant_id = T, lg_execution_id = i, lg_step_id = step,
    lg_level = level, lg_message = message, lg_data = data, lg_created_at = w_txn_now w\<rparr>"
  have run: "r = Inr ?e" "w' = w\<lparr>w_ticks := Suc (w_ticks w), w_logs := w_logs w @ [?e]\<rparr>"
    using assms(1) True by (auto simp: record_execution_log_def VALID_LEVELS_def andthen_def generate_uuid_def Let_def)
  have found: "find_execution w' j = find_execution w j" for j by (simp add: run(2) find_execution_def)
  have logs: "logs_of w' U j s = logs_of w U j s @ (if j = i \<and> U = T \<and> (case s of None \<Rightarrow> True | Some k \<Rightarrow> step = Some k) then [?e] else [])"
    for U j s by (auto simp: logs_of_def run(2) split: option.split)
  have "\<forall>l\<in>set (logs_of w T i None). lg_created_at l \<le> lg_created_at ?e" using assms(4) by (simp add: logs_of_def)
  then have "sort_key lg_created_at (logs_of w' T i None) = sort_key lg_created_at (logs_of w T i None) @ [?e]"
    by (simp add: logs sort_key_append_max)
  then have "get_execution_logs T i None w' = (Inr (old @ [execution_log_to_response ?e]), w')"
    using assms(2,3,5) found by (simp add: get_execution_logs_run)
  moreover have "fst (get_execution_logs U j s w') = fst (get_execution_logs U j s w)" if "U \<noteq> T" for U j s
  proof -
    have "logs_of w' U j s = logs_of w U j s" using that by (simp add: logs)
    then show ?thesis
      by (auto simp: get_execution_logs_def andthen_def get_tenant_execution_def found logs_of_def split: option.split)
  qed
  ultimately show ?thesis using True run(1) by (simp add: execution_log_to_response_def)
qed

theorem log_read_back_witness:
  "\<exists>r w'. record_execution_log demo_env 7 5 ''info'' ''hello'' None [] (logged_world 0) = (r, w') \<and>
    (\<exists>new. fst (get_execution_logs 7 5 None w') = Inr [execution_log_to_response (stored_log 0), new] \<and>
      lr_message new = ''hello'')"
proof -
  obtain r w' where run: "record_execution_log demo_env 7 5 ''info'' ''hello'' None [] (logged_world 0) = (r, w')"
    by (metis surj_pair)
  have "\<forall>l\<in>set (w_logs (logged_world 0)). lg_created_at l \<le> w_txn_now (logged_world 0)"
    by (simp add: logged_world_def stored_log_def service_world_def empty_world_def)
  from log_read_back [OF run logged_row service_simps(1) this logged_read] run show ?thesis by (intro exI [of _ r] exI [of _ w']) auto
qed

section \<open>The queue worker\<close>

text \<open>
  C23. A queued step that the worker takes up goes through running to completed or failed, and
  what the task raises or returns says which. A returned output is in the row and in the context
  of the execution; a raised exception leaves the row failed, with the message and one attempt
  more, and no execution changed: here the rows are committed although the task raises.
\<close>

theorem worker_outcome:
  assumes "i < 2 ^ 128" "j < 2 ^ 128" "find_step w i = Some s" "find_execution w j = Some x" "context_ok (ex_context x)"
    and "se_status s = Queued" "step_type_of (se_step_type s) = Inr t"
    and "execute_step E True (uuid_str i) (uuid_str j) w = (r, w')"
  shows "\<exists>s'. find_step w' i = Some s' \<and>
    step_history i (w_events w') = step_history i (w_events w) @ [Running, se_status s'] \<and>
    (\<forall>out. r = Inr out \<longrightarrow> se_status s' = Completed \<and> se_output_data s' = Some out \<and>
      (\<exists>x'. find_execution w' j = Some x' \<and> outputs (ex_context x') (se_step_id s) = Some out)) \<and>
    (\<forall>e. r = Inl e \<longrightarrow> se_status s' = Failed \<and> se_error s' = Some (exn_str e) \<and>
      se_attempt s' = (if se_attempt s = 0 then 2 else se_attempt s + 1) \<and> w_executions w' = w_executions w)"
proof -
  have rows: "find_step (opened E w) i = Some s" "find_execution (opened E w) j = Some x" using assms(3,4) by simp_all
  obtain res v where run: "execute_in_session E (uuid_str i) (uuid_str j) i j (opened E w) = (Inr res, v)"
    "worker_result i j s (opened E w) res v"
    by (rule execute_outcome [OF rows assms(5-7)])
  then have "in_session E (execute_in_session E (uuid_str i) (uuid_str j) i j) w = (Inr res, v)"
    by (simp add: in_session_Inr)
  then have "r = res" "w' = v"
    using assms(8) by (simp_all add: task_run [OF assms(1,2)] andthen_def)
  with run(2) show ?thesis by (cases r) (auto simp: worker_result_def next_attempt_def)
qed

definition queued_world :: world where
  "queued_world = (service_world Running)\<lparr>w_steps :=
     [(new_step 6 7 5 \<lparr>sd_id = ''a'', sd_type = DELAY, sd_config = [], sd_depends_on = [], sd_retry = None\<rparr> 0)\<lparr>
        se_status := Queued, se_input_data := [(''seconds'', JInt 1)]\<rparr>]\<rparr>"

theorem worker_outcome_witness:
  "\<exists>s r w'. execute_step demo_env True (uuid_str 6) (uuid_str 5) queued_world = (r, w') \<and>
    find_step w' 6 = Some s \<and> se_status s \<in> {Completed, Failed}"
proof -
  obtain r w' where run: "execute_step demo_env True (uuid_str 6) (uuid_str 5) queued_world = (r, w')" by (metis surj_pair)
  obtain s where s: "find_step queued_world 6 = Some s" "se_status s = Queued" "se_step_type s = ''delay''"
    by (simp add: find_step_def queued_world_def new_step_def)
  have "step_type_of (se_step_type s) = Inr DELAY" unfolding s(3) by code_simp
  moreover have "find_execution queued_world 5 = Some (stored_execution Running)"
    using service_row [of Running] by (simp add: queued_world_def find_execution_def)
  moreover have "context_ok (ex_context (stored_execution Running))"
    by (simp add: stored_execution_def new_execution_def context_ok_def)
  ultimately show ?thesis
    using worker_outcome [OF _ _ s(1) _ _ s(2) _ run] run by (cases r) auto
qed

section \<open>Cron\<close>

lemma cron_tick_cases:
  assumes "i < 2 ^ 128" "T < 2 ^ 128" "execute_cron_workflow E (uuid_str i) (uuid_str T) w = (r, w')"
  obtains (none) "r = Inr ()" "same_rows w w'"
    | (run) f x d where "r = Inr ()" "find_workflow w i = Some f" "wf_is_active f"
      "d = cron_trigger_data (env_now E (w_ticks w))"
      "start_execution E f d T None 0 (opened E (w\<lparr>w_ticks := Suc (w_ticks w)\<rparr>)) = (Inr x, w')"
proof -
  let ?v = "w\<lparr>w_ticks := Suc (w_ticks w)\<rparr>" let ?d = "cron_trigger_data (env_now E (w_ticks w))"
  obtain q u where q: "in_session E (cron_session E ?d (uuid_str i) (uuid_str T)) ?v = (q, u)" by (metis surj_pair)
  have r: "r = Inr ()" "w' = u"
    using assms(3) q by (cases q; simp add: execute_cron_workflow_def andthen_def utc_now_def on_error_def)+
  have same: "same_rows ?v u \<Longrightarrow> same_rows w w'" by (simp add: same_rows_def r(2))
  show ?thesis
  proof (cases q)
    case (Inl e)
    with q have "same_rows ?v u" by (auto dest: in_session_error)
    with r(1) same none show ?thesis by blast
  next
    case (Inr y)
    with q have s: "cron_session E ?d (uuid_str i) (uuid_str T) (opened E ?v) = (Inr y, u)" by (simp add: in_session_Inr)
    show ?thesis
    proof (cases "case find_workflow (opened E ?v) i of None \<Rightarrow> True | Some f \<Rightarrow> \<not> wf_is_active f")
      case True
      from cron_session_inactive [OF assms(1) this, of E ?d "uuid_str T"] s
      have "same_rows w w'" by (auto simp: r(2) same_rows_def opened_def)
      with r(1) none show ?thesis by blast
    next
      case False
      then obtain f where f: "find_workflow (opened E ?v) i = Some f" "wf_is_active f" by (auto split: option.splits)
      from cron_session_active [OF assms(1,2) f, of E ?d] s
      obtain x where "start_execution E f ?d T None 0 (opened E ?v) = (Inr x, u)"
        by (cases y) (auto simp: andthen_def split: prod.splits sum.splits)
      with run [of f ?d x] r f show ?thesis by simp
    qed
  qed
qed

lemma finished_status: "finished P E defs N view ctx st err hist \<Longrightarrow> st = Completed \<or> st = Failed"
  by (auto simp: finished_def neq_Nil_conv split: list.split_asm)

text \<open>
  C24. A tick of the schedule raises nothing and touches no row that existed: no execution, step,
  tenant, workflow, log or delivery. It writes nothing when the workflow is gone or inactive or
  its run raises; otherwise it leaves a run of that workflow for the tenant, completed or failed,
  that says what triggered it, and every new execution and step belongs to the tenant.
\<close>

theorem cron_tick:
  assumes "i < 2 ^ 128" "T < 2 ^ 128" "fresh_ids E w"
    and "execute_cron_workflow E (uuid_str i) (uuid_str T) w = (r, w')"
  shows "r = Inr () \<and>
    (\<forall>j y. find_execution w j = Some y \<longrightarrow> find_execution w' j = Some y) \<and>
    (\<forall>j s. find_step w j = Some s \<longrightarrow> find_step w' j = Some s) \<and>
    w_tenants w' = w_tenants w \<and> w_workflows w' = w_workflows w \<and> w_logs w' = w_logs w \<and> w_deliveries w' = w_deliveries w \<and>
    (\<forall>j y. find_execution w j = None \<longrightarrow> find_execution w' j = Some y \<longrightarrow> ex_tenant_id y = T) \<and>
    (\<forall>j s. find_step w j = None \<longrightarrow> find_step w' j = Some s \<longrightarrow> se_tenant_id s = T) \<and>
    (same_rows w w' \<or> (\<exists>f x. find_workflow w i = Some f \<and> wf_is_active f \<and>
      find_execution w (ex_id x) = None \<and> find_execution w' (ex_id x) = Some x \<and>
      ex_tenant_id x = T \<and> ex_workflow_id x = i \<and> ex_status x \<in> {Completed, Failed} \<and>
      ex_trigger_data x = [(''triggered_by'', JStr ''cron''), (''scheduled_time'', JStr (isoformat (env_now E (w_ticks w))))]))"
  using assms(1,2,4)
proof (cases rule: cron_tick_cases)
  case none
  then have "find_execution w' j = find_execution w j" "find_step w' j = find_step w j" for j
    by (simp_all add: same_rows_def find_execution_def find_step_def)
  with none show ?thesis by (simp add: same_rows_def)
next
  case (run f x d)
  let ?v = "opened E (w\<lparr>w_ticks := Suc (w_ticks w)\<rparr>)"
  have fresh: "fresh_ids E ?v" using assms(3) by (intro opened_fresh) (simp add: fresh_ids_later)
  have ev: "evolves E T {} {} ?v w'" by (rule start_execution_evolves [OF assms(2) fresh run(5)])
  obtain parsed :: workflow_definition where
    "run_result (produced E T 0 (engine_runner E)) E T f d None (wfd_steps parsed) ?v x w'"
    by (rule start_execution_parsed [OF assms(2) fresh run(5)]) blast
  then have x: "find_execution w (ex_id x) = None" "find_execution w' (ex_id x) = Some x" "ex_tenant_id x = T"
    "ex_workflow_id x = wf_id f" "ex_trigger_data x = d" "ex_status x \<in> {Completed, Failed}"
    by (auto simp: run_result_def dest: finished_status)
  moreover have "wf_id f = i" by (rule wft.find_key [OF run(2)])
  moreover have "find_execution w j = Some y \<Longrightarrow> find_execution w' j = Some y" for j y
    using evolves_execution [OF ev] by simp
  moreover have "find_step w j = Some s \<Longrightarrow> find_step w' j = Some s" for j s
    using evolves_step [OF ev] by simp
  moreover have "find_execution w j = None \<Longrightarrow> find_execution w' j = Some y \<Longrightarrow> ex_tenant_id y = T" for j y
    using evolves_new_execution [OF ev] by simp
  moreover have "find_step w j = None \<Longrightarrow> find_step w' j = Some s \<Longrightarrow> se_tenant_id s = T" for j s
    using evolves_new_step [OF ev] by simp
  moreover have "w_tenants w' = w_tenants w" "w_workflows w' = w_workflows w" "w_logs w' = w_logs w" "w_deliveries w' = w_deliveries w"
    using evolves_tables [OF ev] by (simp_all add: same_tables_def)
  ultimately show ?thesis using run(1-4) by (auto simp: cron_trigger_data_def)
qed

definition cron_world :: world where
  "cron_world = (service_world Running)\<lparr>w_workflows := [demo_flow one_step]\<rparr>"

lemma one_step_parses:
  "case parse_workflow_definition demo_env (raw_definition (demo_flow one_step)) of
      Some (Inr d) \<Rightarrow> list_all (\<lambda>s. sd_type s \<noteq> CONDITION) (wfd_steps d) | _ \<Rightarrow> False"
  by code_simp

theorem cron_tick_witness:
  "\<exists>w' x. execute_cron_workflow demo_env (uuid_str 3) (uuid_str 7) cron_world = (Inr (), w') \<and>
    find_execution w' 5 = Some (stored_execution Running) \<and>
    find_execution w' (ex_id x) = Some x \<and> ex_workflow_id x = 3 \<and> ex_status x \<in> {Completed, Failed}"
proof -
  obtain r w' where run: "execute_cron_workflow demo_env (uuid_str 3) (uuid_str 7) cron_world = (r, w')"
    by (metis surj_pair)
  let ?d = "cron_trigger_data (env_now demo_env (w_ticks cron_world))"
  let ?v = "opened demo_env (cron_world\<lparr>w_ticks := Suc (w_ticks cron_world)\<rparr>)"
  have fresh: "fresh_ids demo_env cron_world"
    using service_fresh [of Running] by (simp add: fresh_ids_def cron_world_def find_execution_def find_step_def)
  then have fresh': "fresh_ids demo_env ?v" by (intro opened_fresh) (simp add: fresh_ids_later)
  have flow: "find_workflow cron_world 3 = Some (demo_flow one_step)" "wf_is_active (demo_flow one_step)"
    by (simp_all add: cron_world_def find_workflow_def demo_flow_def)
  obtain q u where q: "start_execution demo_env (demo_flow one_step) ?d 7 None 0 ?v = (q, u)" by (metis surj_pair)
  obtain x where x: "q = Inr x"
    using demo_starts [OF fresh' _ q] one_step_parses by blast
  have "cron_session demo_env ?d (uuid_str 3) (uuid_str 7) ?v = (Inr (), u)"
    using q x flow by (subst cron_session_active [of 3 7 _ "demo_flow one_step"]) (simp_all add: andthen_def)
  then have "w' = u"
    using run by (simp add: execute_cron_workflow_def andthen_def utc_now_def on_error_def in_session_Inr [THEN iffD2])
  moreover obtain parsed :: workflow_definition where
    "run_result (produced demo_env 7 0 (engine_runner demo_env)) demo_env 7 (demo_flow one_step) ?d None (wfd_steps parsed) ?v x u"
    by (rule start_execution_parsed [OF _ fresh' q [unfolded x]]) (simp, blast)
  ultimately have "w_executions w' \<noteq> w_executions cron_world"
    by (auto simp: run_result_def find_execution_def)
  then have "\<not> same_rows cron_world w'" by (simp add: same_rows_def)
  moreover have "find_execution cron_world 5 = Some (stored_execution Running)"
    using service_row [of Running] by (simp add: cron_world_def find_execution_def)
  ultimately show ?thesis using cron_tick [OF _ _ fresh run] run by auto
qed

lemma job_of_parsed:
  "job_of L tz f = (case parse_cron_expression L (cron_expression_of f) of
     Inr cf \<Rightarrow> if sl_trigger L cf (Some tz) = Inr ()
       then Some \<lparr>cj_fields = cf, cj_workflow_id = uuid_str (wf_id f), cj_tenant_id = uuid_str (wf_tenant_id f)\<rparr>
       else None
   | Inl e \<Rightarrow> None)"
proof (cases "py_truthy (cron_expression_of f)")
  case False
  then have "\<exists>e. parse_cron_expression L (cron_expression_of f) = Inl e"
    by (cases "cron_expression_of f")
      (auto simp: parse_cron_expression_def attribute_error_def py_strip_def py_split.simps invalid_expression_def)
  with False show ?thesis by (auto simp: job_of_def)
next
  case True
  then show ?thesis
    by (cases "parse_cron_expression L (cron_expression_of f)")
      (auto simp: job_of_def make_job_def sum_bind_Inr_iff sum_bind_Inl_iff split: sum.split)
qed

text \<open>
  C25. A scheduler that starts holds exactly the jobs of the workflows it loaded: one for each
  active cron workflow within the limit whose expression has five fields that the trigger
  accepts, with and without the time zone, naming the workflow and its tenant; none for any
  other workflow, and no job under any other name. A start that raises changes nothing.
\<close>

theorem schedule_exact:
  assumes "scheduler_laws L" "workflow_keys_ok w" "\<forall>f\<in>set (w_workflows w). wf_id f < 2 ^ 128"
    and "start_scheduler E L w old = (r, new)"
  shows "(\<forall>s. r = Inr s \<longrightarrow> new = Some s \<and>
      (\<forall>f\<in>set (w_workflows w). sl_get_job L (''cron_'' @ uuid_str (wf_id f)) s =
        (if f \<in> set (load_cron_workflows E w)
         then (case parse_cron_expression L (cron_expression_of f) of
             Inr cf \<Rightarrow> if sl_trigger L cf (Some (cron_timezone (env_settings E))) = Inr ()
               then Some \<lparr>cj_fields = cf, cj_workflow_id = uuid_str (wf_id f), cj_tenant_id = uuid_str (wf_tenant_id f)\<rparr>
               else None
           | Inl e \<Rightarrow> None)
         else None)) \<and>
      (\<forall>k j. sl_get_job L k s = Some j \<longrightarrow> (\<exists>f\<in>set (w_workflows w). k = ''cron_'' @ uuid_str (wf_id f)))) \<and>
    (\<forall>e. r = Inl e \<longrightarrow> new = old)"
proof -
  let ?tz = "cron_timezone (env_settings E)" let ?fs = "load_cron_workflows E w"
  have sub: "set ?fs \<subseteq> set (w_workflows w)" by (auto simp: load_cron_workflows_def dest: in_set_takeD)
  have ids: "distinct (map wf_id (w_workflows w))" using assms(2) by (simp add: workflow_keys_ok_def)
  then have loaded_ids: "distinct (map wf_id ?fs)"
    by (simp add: load_cron_workflows_def distinct_map_filter distinct_take take_map [symmetric])
  show ?thesis
  proof (cases "sum_bind (sl_new L ?tz) (schedule_all L ?tz ?fs)")
    case (Inl e)
    then show ?thesis using assms(4) by (auto simp: start_scheduler_def)
  next
    case (Inr t)
    then obtain s0 where s0: "sl_new L ?tz = Inr s0" "schedule_all L ?tz ?fs s0 = Inr t" by (auto simp: sum_bind_Inr_iff)
    have r: "r = Inr (sl_start L t)" "new = Some (sl_start L t)" using assms(4) Inr by (simp_all add: start_scheduler_def)
    have law: "sl_get_job L k s0 = None" "sl_get_job L k (sl_start L t) = sl_get_job L k t" for k
      using assms(1) s0(1) unfolding scheduler_laws_def by blast+
    have loaded: "sl_get_job L (job_id (uuid_str (wf_id f))) t = job_of L ?tz f" if "f \<in> set ?fs" for f
      using schedule_all_jobs [OF assms(1) loaded_ids _ s0(2) that law(1)] assms(3) sub by blast
    have other: "sl_get_job L k t = None" if "k \<notin> (\<lambda>f. job_id (uuid_str (wf_id f))) ` set ?fs" for k
      using schedule_all_other [OF assms(1) s0(2) that] law(1) by simp
    have none: "sl_get_job L (job_id (uuid_str (wf_id f))) t = None" if f: "f \<in> set (w_workflows w)" "f \<notin> set ?fs" for f
    proof (rule other, rule notI)
      assume "job_id (uuid_str (wf_id f)) \<in> (\<lambda>f. job_id (uuid_str (wf_id f))) ` set ?fs"
      then obtain g where "g \<in> set ?fs" "job_id (uuid_str (wf_id f)) = job_id (uuid_str (wf_id g))" by blast
      then have g: "g \<in> set ?fs" "wf_id f = wf_id g" using assms(3) f(1) sub by (auto simp: job_id_inj)
      with ids f(1) sub have "f = g" by (auto simp: distinct_map dest: inj_onD)
      with g(1) f(2) show False by simp
    qed
    have exact: "sl_get_job L (''cron_'' @ uuid_str (wf_id f)) (sl_start L t) =
        (if f \<in> set ?fs then job_of L ?tz f else None)" if "f \<in> set (w_workflows w)" for f
      using loaded [of f] none [OF that] law(2) unfolding job_id_def by simp
    have "\<exists>f\<in>set (w_workflows w). k = ''cron_'' @ uuid_str (wf_id f)" if "sl_get_job L k (sl_start L t) = Some j" for k j
    proof (rule ccontr)
      assume "\<not> ?thesis"
      then have "k \<notin> (\<lambda>f. job_id (uuid_str (wf_id f))) ` set ?fs" using sub by (auto simp: job_id_def)
      from other [OF this] that law(2) show False by simp
    qed
    with r exact show ?thesis by (simp add: job_of_parsed)
  qed
qed

definition list_scheduler :: "(string \<times> cron_job) list scheduler_lib" where
  "list_scheduler = \<lparr>sl_trigger = (\<lambda>cf tz. Inr ()), sl_new = (\<lambda>tz. Inr []), sl_add_job = dict_set,
     sl_get_job = (\<lambda>i s. map_of s i), sl_remove_job = (\<lambda>i s. filter (\<lambda>p. fst p \<noteq> i) s), sl_start = id\<rparr>"

lemma list_scheduler_laws: "scheduler_laws list_scheduler"
proof -
  have "map_of (filter (\<lambda>p. fst p \<noteq> i) s) k = (if k = i then None else map_of s k)" for s :: "(string \<times> cron_job) list" and i k
    by (induction s) auto
  then show ?thesis by (simp add: scheduler_laws_def list_scheduler_def)
qed

definition cron_flow :: "uuid \<Rightarrow> json \<Rightarrow> workflow" where
  "cron_flow i expression = (demo_flow one_step)\<lparr>wf_id := i, wf_trigger_type := ''cron'',
     wf_trigger_config := [(''cron_expression'', expression)]\<rparr>"

definition schedule_world :: "json \<Rightarrow> world" where
  "schedule_world expression = empty_world\<lparr>w_workflows := [cron_flow 3 (JStr ''0 2 * * *''), cron_flow 4 expression]\<rparr>"

lemma schedule_world_ok:
  "workflow_keys_ok (schedule_world x)" "\<forall>f\<in>set (w_workflows (schedule_world x)). wf_id f < 2 ^ 128"
  "load_cron_workflows demo_env (schedule_world x) = w_workflows (schedule_world x)"
  by (simp_all add: workflow_keys_ok_def schedule_world_def cron_flow_def load_cron_workflows_def demo_env_def
      default_settings_def demo_flow_def)

theorem schedule_exact_witness:
  "\<exists>s. start_scheduler demo_env list_scheduler (schedule_world (JStr ''daily'')) None = (Inr s, Some s) \<and>
    map_of s (''cron_'' @ uuid_str 4) = None"
proof -
  let ?w = "schedule_world (JStr ''daily'')"
  obtain r new where run: "start_scheduler demo_env list_scheduler ?w None = (r, new)" by (metis surj_pair)
  have "parse_cron_expression list_scheduler (JStr ''daily'') =
      Inl (invalid_expression ''daily'' ''Expected 5 fields: minute hour day month day_of_week'')" by code_simp
  moreover have "cron_expression_of (cron_flow 4 (JStr ''daily'')) = JStr ''daily''" by code_simp
  moreover have "cron_flow 4 (JStr ''daily'') \<in> set (w_workflows ?w)" "wf_id (cron_flow 4 (JStr ''daily'')) = 4"
    by (simp_all add: schedule_world_def cron_flow_def)
  moreover have "case start_scheduler demo_env list_scheduler ?w None of (Inr s, _) \<Rightarrow> True | _ \<Rightarrow> False" by code_simp
  then obtain s where "r = Inr s" using run by (cases r) auto
  ultimately show ?thesis
    using schedule_exact [OF list_scheduler_laws schedule_world_ok(1,2) run] run schedule_world_ok(3)
    by (force simp: list_scheduler_def)
qed

text \<open>
  C39. One active cron workflow, of any tenant, whose expression is a truthy value that is not
  a text keeps the whole service without a schedule: the start-up ends with the scheduler it
  had, however many workflows with good expressions there are.
\<close>

theorem one_bad_expression_stops_all:
  assumes "f \<in> set (load_cron_workflows E w)" "py_truthy (cron_expression_of f)" "\<And>s. cron_expression_of f \<noteq> JStr s"
  shows "startup E L w old = old \<and> (\<exists>e. fst (start_scheduler E L w old) = Inl e)"
proof -
  have "\<exists>e. sum_bind (sl_new L (cron_timezone (env_settings E)))
      (schedule_all L (cron_timezone (env_settings E)) (load_cron_workflows E w)) = Inl e"
    using schedule_all_stops [OF assms] by (cases "sl_new L (cron_timezone (env_settings E))") auto
  then show ?thesis by (auto simp: startup_def start_scheduler_def)
qed

theorem one_bad_expression_stops_all_witness:
  "startup demo_env list_scheduler (schedule_world (JInt 5)) None = None"
proof -
  have "cron_flow 4 (JInt 5) \<in> set (load_cron_workflows demo_env (schedule_world (JInt 5)))"
    by (simp add: schedule_world_ok(3)) (simp add: schedule_world_def)
  moreover have "cron_expression_of (cron_flow 4 (JInt 5)) = JInt 5" by code_simp
  ultimately show ?thesis using one_bad_expression_stops_all by fastforce
qed

section \<open>Cursors\<close>

text \<open>
  C27. A cursor survives its way through the client: the text made of a time in the calendar's
  range and an identifier of 128 bits decodes to the two, for executions and for workflows, so
  no two rows share a text; and every text there is either decodes or is answered
  \<open>INVALID_CURSOR\<close>.
\<close>

theorem cursor_round_trip:
  assumes "valid_time t" "i < 2 ^ 128"
  shows "decode_cursor L (encode_cursor (t, i)) = Inr (t, i) \<and>
    decode_execution_cursor L (encode_execution_cursor (t, i)) = Inr (t, i) \<and>
    (\<forall>t' i'. valid_time t' \<and> i' < 2 ^ 128 \<and> encode_cursor (t', i') = encode_cursor (t, i) \<longrightarrow> t' = t \<and> i' = i) \<and>
    (\<forall>s. (\<exists>c. decode_cursor L s = Inr c) \<or>
      decode_cursor L s = Inl (AppError ''INVALID_CURSOR'' ''Invalid pagination cursor.'' 400 []))"
proof -
  have round: "decode_cursor L (encode_cursor (t', i')) = Inr (t', i')" if "valid_time t'" "i' < 2 ^ 128" for t' i'
    using that by (intro decode_encode_cursor) (simp add: valid_cursor_def)
  moreover have "decode_execution_cursor L (encode_execution_cursor (t, i)) = Inr (t, i)"
    using round [OF assms] by (simp add: decode_execution_cursor_def encode_execution_cursor_def encode_cursor_def)
  moreover have "t' = t \<and> i' = i" if "valid_time t'" "i' < 2 ^ 128" "encode_cursor (t', i') = encode_cursor (t, i)" for t' i'
    using round [OF that(1,2), unfolded that(3)] unfolding round [OF assms] by simp
  moreover have "(\<exists>c. decode_cursor L s = Inr c) \<or>
      decode_cursor L s = Inl (AppError ''INVALID_CURSOR'' ''Invalid pagination cursor.'' 400 [])" for s
    by (auto simp: decode_cursor_def invalid_cursor_def app_error_def split: option.split prod.split sum.split)
  ultimately show ?thesis using assms by blast
qed

theorem cursor_round_trip_witness:
  "decode_cursor \<lparr>tl_utf8 = (\<lambda>s. None), tl_fromisoformat = (\<lambda>s. None)\<rparr> (encode_cursor (1700000000000000, 5)) =
    Inr (1700000000000000, 5)"
proof -
  have valid: "valid_time 1700000000000000" by code_simp
  have "(5 :: uuid) < 2 ^ 128" by simp
  from cursor_round_trip [OF valid this] show ?thesis by (rule conjunct1)
qed

text \<open>
  C28. A client that follows the textual cursors of the execution list, or of the workflow list,
  sees every matching row of its tenant exactly once, in the order of time and id, whatever the
  page size.
\<close>

theorem listing_complete:
  assumes "0 < limit" "keys_ok w" "workflow_keys_ok w"
    and "length (matching_executions T f w) \<le> n" "length (matching_workflows T g w) \<le> n"
    and "\<forall>x\<in>set (w_executions w). valid_time (ex_created_at x) \<and> ex_id x < 2 ^ 128"
    and "\<forall>h\<in>set (w_workflows w). valid_time (wf_created_at h) \<and> wf_id h < 2 ^ 128"
  shows "crawl_text (list_executions_page L T f limit w) (Suc n) None =
      map execution_to_response (sort_key (\<lambda>x. (ex_created_at x, ex_id x)) (matching_executions T f w)) \<and>
    crawl_text (list_workflows_page L T g limit w) (Suc n) None =
      map workflow_to_response (sort_key (\<lambda>h. (wf_created_at h, wf_id h)) (matching_workflows T g w))"
proof
  have valid: "\<forall>x\<in>set (matching_executions T f w). valid_cursor (ex_created_at x, ex_id x)"
    using assms(6) by (simp add: matching_executions_def valid_cursor_def)
  have page: "list_executions_page L T f limit w c = sum_bind (read_cursor (decode_cursor L) c) (\<lambda>d.
      case page_of ex_created_at ex_id limit d (matching_executions T f w) of
        (rs, nxt) \<Rightarrow> Inr (map execution_to_response rs, map_option encode_cursor nxt))" for c
    by (simp add: list_executions_page_def list_executions_def decode_execution_cursor_def [abs_def]
        encode_execution_cursor_def [abs_def] encode_cursor_def [abs_def] case_prod_beta)
  show "crawl_text (list_executions_page L T f limit w) (Suc n) None =
      map execution_to_response (sort_key (\<lambda>x. (ex_created_at x, ex_id x)) (matching_executions T f w))"
    using exr.crawl_text_all [OF assms(2,1,4) valid page] by (simp only: exr.ordered_rows_def exr.key_def [abs_def])
next
  have valid: "\<forall>h\<in>set (matching_workflows T g w). valid_cursor (wf_created_at h, wf_id h)"
    using assms(7) by (simp add: matching_workflows_def valid_cursor_def)
  have page: "list_workflows_page L T g limit w c = sum_bind (read_cursor (decode_cursor L) c) (\<lambda>d.
      case page_of wf_created_at wf_id limit d (matching_workflows T g w) of
        (rs, nxt) \<Rightarrow> Inr (map workflow_to_response rs, map_option encode_cursor nxt))" for c
    by (simp add: list_workflows_page_def list_workflows_def case_prod_beta)
  show "crawl_text (list_workflows_page L T g limit w) (Suc n) None =
      map workflow_to_response (sort_key (\<lambda>h. (wf_created_at h, wf_id h)) (matching_workflows T g w))"
    using wfr.crawl_text_all [OF assms(3,1,5) valid page] by (simp only: wfr.ordered_rows_def wfr.key_def [abs_def])
qed

definition any_execution :: execution_filter where
  "any_execution = \<lparr>ef_status = None, ef_workflow_id = None, ef_created_after = None, ef_created_before = None\<rparr>"

definition any_workflow :: workflow_filter where
  "any_workflow = \<lparr>wl_trigger_type = None, wl_is_active = None\<rparr>"

theorem listing_complete_witness:
  "crawl_text (list_executions_page \<lparr>tl_utf8 = (\<lambda>s. None), tl_fromisoformat = (\<lambda>s. None)\<rparr> 7 any_execution 1
      (service_world Running)) 2 None = [execution_to_response (stored_execution Running)]"
proof -
  let ?w = "service_world Running"
  have rows: "matching_executions 7 any_execution ?w = [stored_execution Running]"
    "w_executions ?w = [stored_execution Running]" "w_workflows ?w = [demo_flow demo_steps]"
    by (simp_all add: matching_executions_def any_execution_def service_world_def stored_execution_def new_execution_def)
  have valid: "valid_time 0" by code_simp
  have times: "\<forall>x\<in>set (w_executions ?w). valid_time (ex_created_at x) \<and> ex_id x < 2 ^ 128"
    "\<forall>h\<in>set (w_workflows ?w). valid_time (wf_created_at h) \<and> wf_id h < 2 ^ 128"
    using valid by (simp_all add: rows stored_execution_def new_execution_def demo_flow_def)
  have "workflow_keys_ok ?w" "length (matching_workflows 7 any_workflow ?w) \<le> 1" "length (matching_executions 7 any_execution ?w) \<le> 1"
    by (simp_all add: workflow_keys_ok_def rows matching_workflows_def)
  from listing_complete [OF _ service_simps(5) this(1,3,2) times, of 1] show ?thesis
    by (simp add: rows numeral_2_eq_2)
qed

end
