(* ===== verification/App.thy ===== *)
theory App
  imports Webhooks
begin

text \<open>
  The application (\<open>src/main.py\<close>): the middleware around a request handler, in the order the
  framework applies it. The middleware added last is the outermost: authentication, then the
  rate limit, then CORS, then the framework's own exception handling around the route. What
  \<open>CORSMiddleware\<close> does is a parameter. The state of the application is that of the Redis
  server with the database.
\<close>

section \<open>The stack\<close>

text \<open>
  An \<open>AppError\<close> of a route is answered inside the stack; any other exception passes through
  the middleware and is answered outside of it.
\<close>

definition handle_app_errors :: "('w, reply) proc \<Rightarrow> ('w, reply) proc" where
  "handle_app_errors handler = on_error handler (\<lambda>e.
    case e of AppError c m st ds \<Rightarrow> ret (app_error_handler c m st ds) | PyError c m \<Rightarrow> raise (PyError c m))"

definition handle_any_error :: "('w, reply) proc \<Rightarrow> 'w \<Rightarrow> reply \<times> 'w" where
  "handle_any_error app w =
    (case app w of (Inr response, w') \<Rightarrow> (response, w') | (Inl e, w') \<Rightarrow> (unhandled_exception_handler e, w'))"

record app_request =
  ar_method :: string
  ar_path :: string
  ar_api_key :: string
  ar_client :: "string option"

definition app_dispatch :: "env \<Rightarrow> 'r redis_ops \<Rightarrow> ((world, reply) proc \<Rightarrow> (world, reply) proc) \<Rightarrow>
    (tenant_context option \<Rightarrow> (world, reply) proc) \<Rightarrow> int \<Rightarrow> app_request \<Rightarrow> 'r \<times> world \<Rightarrow> reply \<times> 'r \<times> world" where
  "app_dispatch E R cors handler now rq =
    handle_any_error
      (auth_dispatch E snd (ar_path rq) (ar_api_key rq) (\<lambda>tenant.
        rate_limit_dispatch R (ar_client rq) (ar_method rq) (ar_path rq) now
          (cors (handle_app_errors (handler tenant)))))"

section \<open>What reaches a handler\<close>

lemma with_headers_fields [simp]:
  "rp_status (with_headers hs r) = rp_status r" "rp_content (with_headers hs r) = rp_content r"
  by (simp_all add: with_headers_def)

lemma app_refused:
  assumes "\<not> is_public_path (ar_path rq)" "\<And>c. validate_api_key E (ar_api_key rq) w \<noteq> Inr c"
  shows "\<exists>st body. app_dispatch E R cors handler now rq (r, w) = (json_reply st body, (r, w)) \<and> st \<in> {401, 403, 500}"
proof -
  let ?next = "\<lambda>tenant. rate_limit_dispatch R (ar_client rq) (ar_method rq) (ar_path rq) now
    (cors (handle_app_errors (handler tenant)))"
  obtain st body where "auth_dispatch E snd (ar_path rq) (ar_api_key rq) ?next (r, w) = (Inr (json_reply st body), (r, w))"
    "st \<in> {401, 403, 500}"
    by (rule auth_dispatch_refused [of "ar_path rq" E "ar_api_key rq" snd "(r, w)" ?next]) (use assms in auto)
  then show ?thesis by (auto simp: app_dispatch_def handle_any_error_def)
qed

lemma app_accepted:
  assumes "\<not> is_public_path (ar_path rq)" "validate_api_key E (ar_api_key rq) w = Inr c"
  shows "app_dispatch E R cors handler now rq (r, w) =
    handle_any_error (rate_limit_dispatch R (ar_client rq) (ar_method rq) (ar_path rq) now
      (cors (handle_app_errors (handler (Some c))))) (r, w)"
  using auth_dispatch_accepted [where db = snd and s = "(r, w)", of E "ar_api_key rq" c "ar_path rq"] assms
  by (simp add: app_dispatch_def handle_any_error_def)

text \<open>
  Behind the limit what CORS answers comes back, an error that passes through as the service's
  own form of it. CORS answers a preflight itself; to any other request it adds headers.
\<close>

definition outcome_reply :: "exn + reply \<Rightarrow> reply" where
  "outcome_reply res = (case res of Inr response \<Rightarrow> response | Inl e \<Rightarrow> error_reply e)"

definition cors_passes :: "((world, reply) proc \<Rightarrow> (world, reply) proc) \<Rightarrow> (world, reply) proc \<Rightarrow> world \<Rightarrow> bool" where
  "cors_passes cors app w \<longleftrightarrow> (\<exists>hs. cors app w = (map_sum id (with_headers hs) (fst (app w)), snd (app w)))"

lemma handled_errors:
  "snd (handle_app_errors handler w) = snd (handler w)"
  "fst (handle_app_errors handler w) = Inr a \<Longrightarrow> a = outcome_reply (fst (handler w))"
  "fst (handle_app_errors handler w) = Inl e \<Longrightarrow> unhandled_exception_handler e = outcome_reply (fst (handler w))"
  by (auto simp: handle_app_errors_def on_error_def outcome_reply_def unhandled_exception_handler_def
      split: prod.splits sum.splits exn.splits)

lemma passed_reply:
  assumes "cors_passes cors (handle_app_errors handler) w"
  shows "snd (cors (handle_app_errors handler) w) = snd (handler w)"
    "case fst (cors (handle_app_errors handler) w) of
       Inr a \<Rightarrow> rp_status a = rp_status (outcome_reply (fst (handler w))) \<and>
         rp_content a = rp_content (outcome_reply (fst (handler w)))
     | Inl e \<Rightarrow> unhandled_exception_handler e = outcome_reply (fst (handler w))"
  using assms handled_errors [of handler w]
  by (cases "fst (handle_app_errors handler w)"; auto simp: cors_passes_def)+

lemma app_served:
  assumes "\<not> is_public_path (ar_path rq)" "validate_api_key E (ar_api_key rq) w = Inr c"
    and "\<And>current ttl r'. count_request R (redis_key (get_client_key (ar_client rq)) (ar_method rq) (ar_path rq)) r =
        (Inr (current, ttl), r') \<Longrightarrow> current \<le> get_rate_limit (ar_method rq) (ar_path rq)"
    and "cors (handle_app_errors (handler (Some c))) w = (res, w')"
  shows "\<exists>reply r'. app_dispatch E R cors handler now rq (r, w) = (reply, (r', w')) \<and>
    (case res of
       Inr a \<Rightarrow> rp_status reply = rp_status a \<and> rp_content reply = rp_content a
     | Inl e \<Rightarrow> reply = unhandled_exception_handler e)"
proof -
  obtain hs r' where run: "\<And>(call_next :: (world, reply) proc) w. rate_limit_dispatch R (ar_client rq) (ar_method rq) (ar_path rq) now call_next (r, w) =
    (case call_next w of (response, w') \<Rightarrow> (map_sum id (with_headers hs) response, (r', w')))"
    by (rule rate_limit_allowed [where R = R and client = "ar_client rq" and m = "ar_method rq" and p = "ar_path rq"
        and r = r and now = now]) (use assms(3) in auto)
  then show ?thesis
    using assms(4) by (cases res) (simp_all add: app_accepted [OF assms(1,2)] handle_any_error_def)
qed

lemma app_limited:
  assumes "\<not> is_public_path (ar_path rq)" "validate_api_key E (ar_api_key rq) w = Inr c"
    and "count_request R (redis_key (get_client_key (ar_client rq)) (ar_method rq) (ar_path rq)) r = (Inr (current, ttl), r')"
    and "get_rate_limit (ar_method rq) (ar_path rq) < current"
  shows "\<exists>reply. app_dispatch E R cors handler now rq (r, w) = (reply, (r', w)) \<and> rp_status reply = 429"
proof -
  obtain reply where "rate_limit_dispatch R (ar_client rq) (ar_method rq) (ar_path rq) now
      (cors (handle_app_errors (handler (Some c)))) (r, w) = (Inr reply, (r', w))" "rp_status reply = 429"
    using rate_limit_exceeded [OF assms(3,4), where now = now and w = w and call_next = "cors (handle_app_errors (handler (Some c)))"] by auto
  then show ?thesis by (simp add: app_accepted [OF assms(1,2)] handle_any_error_def)
qed

end
