(* ===== verification/Seed.thy ===== *)
theory Seed
  imports Workflows Tenants
begin

text \<open>
  The first-run seed (\<open>src/tenants/seed.py\<close>): a default tenant with its one-time key when
  there is none, and a sample workflow for it. The tenant is committed before the workflow is
  written, so the two happen in two transactions of one session. The name of the sample holds
  three arrows, here as their UTF-8 bytes.
\<close>

section \<open>The default tenant\<close>

text \<open>The arguments override the settings when they are given.\<close>

definition seed_default_tenant :: "env \<Rightarrow> string option \<Rightarrow> bool option \<Rightarrow> (world, tenant_with_key option) proc" where
  "seed_default_tenant E tenant_name registration_enabled w =
    (let enabled = (case registration_enabled of None \<Rightarrow> self_registration_enabled (env_settings E) | Some b \<Rightarrow> b);
         name = (case tenant_name of None \<Rightarrow> default_tenant_name (env_settings E) | Some n \<Rightarrow> n)
     in if \<not> enabled then ret None w
        else if check_tenants_exist w then ret None w
        else andthen (register_tenant E name) (\<lambda>result. ret (Some result)) w)"

section \<open>The sample workflow\<close>

definition arrow :: string where
  "arrow = [CHR 0xE2, CHR 0x86, CHR 0x92]"

definition sample_webhook_workflow :: workflow_create_request where
  "sample_webhook_workflow = \<lparr>
     wc_name = ''Sample: Webhook '' @ arrow @ '' HTTP '' @ arrow @ '' Transform '' @ arrow @ '' Condition'',
     wc_description = Some (''Demo workflow: receives a webhook, calls an external API, '' @
       ''transforms the response, and branches based on status.''),
     wc_trigger_type = ''webhook'',
     wc_trigger_config = [],
     wc_steps =
       [[(''id'', JStr ''fetch_data''), (''type'', JStr ''http''),
         (''config'', JObj [(''url'', JStr ''https://httpbin.org/post''), (''method'', JStr ''POST''),
            (''headers'', JObj [(''Content-Type'', JStr ''application/json'')]),
            (''body'', JStr ''{\"source\": \"webhook\"}''), (''timeout_seconds'', JInt 10)]),
         (''depends_on'', JList [])],
        [(''id'', JStr ''transform_response''), (''type'', JStr ''transform''),
         (''config'', JObj [(''expression'', JStr ''{{ steps.fetch_data.output.status_code }}'')]),
         (''depends_on'', JList [JStr ''fetch_data''])],
        [(''id'', JStr ''check_status''), (''type'', JStr ''condition''),
         (''config'', JObj [(''expression'', JStr ''{{ steps.fetch_data.output.status_code == 200 }}''),
            (''true_branch'', JList []), (''false_branch'', JList [])]),
         (''depends_on'', JList [JStr ''transform_response''])]],
     wc_is_active = True,
     wc_webhook_secret = None\<rparr>"

fun seed_definitions :: "env \<Rightarrow> uuid \<Rightarrow> workflow_create_request list \<Rightarrow> nat \<Rightarrow> (world, nat) proc" where
  "seed_definitions E tenant_id [] created = ret created"
| "seed_definitions E tenant_id (defn # defns) created =
    andthen (if wc_trigger_type defn = ''webhook''
             then andthen (generate_webhook_path E) (\<lambda>p. ret (Some p)) else ret None) (\<lambda>webhook_path.
    andthen (insert_workflow E tenant_id defn webhook_path) (\<lambda>_.
    seed_definitions E tenant_id defns (created + 1)))"

definition seed_sample_workflows :: "env \<Rightarrow> uuid \<Rightarrow> (world, nat) proc" where
  "seed_sample_workflows E tenant_id w =
    (if 0 < length (filter (\<lambda>f. wf_tenant_id f = tenant_id) (w_workflows w)) then ret 0 w
     else seed_definitions E tenant_id [sample_webhook_workflow] 0 w)"

section \<open>The script\<close>

text \<open>What it reports: the tenant it created and the number of workflows, or nothing.\<close>

definition seed_main :: "env \<Rightarrow> (world, (tenant_with_key \<times> nat) option) proc" where
  "seed_main E =
    andthen (in_session E (seed_default_tenant E None None)) (\<lambda>result.
      case result of
        None \<Rightarrow> ret None
      | Some r \<Rightarrow>
          andthen (in_session E (seed_sample_workflows E (tk_id r))) (\<lambda>wf_count.
          ret (Some (r, wf_count))))"

section \<open>The sample is a definition the parser accepts\<close>

definition sample_templates :: "string list" where
  "sample_templates = [''{{ steps.fetch_data.output.status_code }}'', ''{{ steps.fetch_data.output.status_code == 200 }}'']"

text \<open>Without a retry section the parser asks the environment about templates and size only.\<close>

lemma validate_step_definition_env:
  "map_of d ''retry'' = None \<Longrightarrow> validate_step_definition E d = validate_step_definition E' d"
  by (simp add: validate_step_definition_def retry_field_def)

section \<open>What the two parts do\<close>

lemma seed_default_run:
  assumes "in_session E (seed_default_tenant E None None) w = (r, w')"
  obtains (skipped) "r = Inr None" "same_rows w w'" "\<not> self_registration_enabled (env_settings E) \<or> w_tenants w \<noteq> []"
    | (created) k t where "r = Inr (Some k)" "self_registration_enabled (env_settings E)" "w_tenants w = []"
      "w_tenants w' = [t]" "tn_id t = tk_id k" "tn_name t = default_tenant_name (env_settings E)" "tn_is_active t"
      "w_workflows w' = w_workflows w" "w_ticks w \<le> w_ticks w'"
proof (cases "self_registration_enabled (env_settings E) \<and> w_tenants w = []")
  case True
  then show ?thesis
    using assms created
    by (auto simp: in_session_def seed_default_tenant_def check_tenants_exist_def register_tenant_def andthen_def
        generate_api_key_def hash_key_def generate_uuid_run insert_tenant_def new_tenant_def Let_def)
next
  case False
  then have "seed_default_tenant E None None (opened E w) = (Inr None, opened E w)"
    by (auto simp: seed_default_tenant_def check_tenants_exist_def opened_def Let_def)
  then have "in_session E (seed_default_tenant E None None) w = (Inr None, opened E w)" by (simp add: in_session_Inr)
  then have "r = Inr None" "same_rows w w'" using assms by (auto simp: same_rows_def opened_def)
  with False skipped show ?thesis by blast
qed

lemma seed_sample_run:
  assumes "in_session E (seed_sample_workflows E T) w = (Inr n, w')"
  obtains (skipped) "n = 0" "same_rows w w'" "\<exists>f\<in>set (w_workflows w). wf_tenant_id f = T"
    | (created) f m p t where "n = 1" "f = new_workflow (env_uuid E m) T sample_webhook_workflow (Some (''wh_'' @ p)) t" "w_ticks w \<le> m"
      "w_workflows w' = w_workflows w @ [f]" "other_tables w w'" "\<not> path_taken (wf_id f) (wf_webhook_path f) w"
      "\<not> (\<exists>f\<in>set (w_workflows w). wf_tenant_id f = T)"
proof (cases "filter (\<lambda>f. wf_tenant_id f = T) (w_workflows w) = []")
  case False
  then have "n = 0" "w' = opened E w"
    using assms by (simp_all add: in_session_Inr seed_sample_workflows_def)
  moreover have "\<exists>f\<in>set (w_workflows w). wf_tenant_id f = T" using False by (auto simp: filter_empty_conv)
  ultimately show ?thesis using skipped by (simp add: same_rows_def opened_def)
next
  case True
  let ?v = "opened E w" let ?p = "take 24 (hex_digits 32 (env_uuid E (w_ticks ?v)))"
  let ?f = "new_workflow (env_uuid E (Suc (w_ticks ?v))) T sample_webhook_workflow (Some (''wh_'' @ ?p)) (w_txn_now ?v)"
  have "seed_sample_workflows E T ?v = (if path_taken (wf_id ?f) (wf_webhook_path ?f) w
      then (Inl integrity_error, ?v\<lparr>w_ticks := Suc (Suc (w_ticks ?v))\<rparr>)
      else (Inr 1, add_workflow ?f (?v\<lparr>w_ticks := Suc (Suc (w_ticks ?v))\<rparr>)))"
    using True by (simp add: seed_sample_workflows_def sample_webhook_workflow_def andthen_def generate_webhook_path_run
        insert_workflow_def generate_uuid_run commit_workflow_def Let_def path_taken_def)
  then have "n = 1" "w' = add_workflow ?f (?v\<lparr>w_ticks := Suc (Suc (w_ticks ?v))\<rparr>)"
    "\<not> path_taken (wf_id ?f) (wf_webhook_path ?f) w"
    using assms by (simp_all add: in_session_Inr split: if_splits)
  moreover have "\<not> (\<exists>f\<in>set (w_workflows w). wf_tenant_id f = T)" using True by (auto simp: filter_empty_conv)
  ultimately show ?thesis
    by (intro created [of ?f "Suc (w_ticks ?v)" ?p "w_txn_now ?v"]) (simp_all add: add_workflow_def other_tables_def opened_def)
qed

text \<open>On a service without workflows no path is taken and nothing is raised.\<close>

lemma seed_sample_first: "w_workflows w = [] \<Longrightarrow> \<exists>n w'. in_session E (seed_sample_workflows E T) w = (Inr n, w')"
  by (simp add: in_session_Inr seed_sample_workflows_def sample_webhook_workflow_def andthen_def generate_webhook_path_run
      insert_workflow_def generate_uuid_run commit_workflow_def Let_def path_taken_def)

lemma seed_main_first:
  assumes "self_registration_enabled (env_settings E)" "w_tenants w = []" "w_workflows w = []"
  shows "\<exists>k n w'. seed_main E w = (Inr (Some (k, n)), w')"
proof -
  obtain r v where run: "in_session E (seed_default_tenant E None None) w = (r, v)" by (metis surj_pair)
  then show ?thesis
  proof (cases rule: seed_default_run)
    case (created k t)
    with assms(3) seed_sample_first [of v E "tk_id k"] run show ?thesis by (auto simp: seed_main_def andthen_def)
  qed (use assms in simp)
qed

end
