(* ===== verification/Metrics.thy ===== *)
theory Metrics
  imports Workflows
begin

text \<open>
  Analytics and health: the aggregate statistics of a tenant (\<open>src/api/metrics.py\<close>) and the
  health report (\<open>src/api/health.py\<close>). Each SQL aggregate is a function of the rows; the groups
  of a \<open>GROUP BY\<close> come in no particular order. The average of the database is a parameter,
  the float arithmetic of the failure rate is written out.
\<close>

section \<open>Aggregates\<close>

definition group_by :: "('r \<Rightarrow> 'k) \<Rightarrow> 'r list \<Rightarrow> ('k \<times> 'r list) list" where
  "group_by key rows = map (\<lambda>k. (k, filter (\<lambda>r. key r = k) rows)) (remdups (map key rows))"

definition group_counts :: "('r \<Rightarrow> 'k) \<Rightarrow> 'r list \<Rightarrow> ('k \<times> nat) list" where
  "group_counts key rows = map (\<lambda>(k, rs). (k, length rs)) (group_by key rows)"

text \<open>\<open>AVG\<close> leaves out NULL and is NULL on no value; \<open>int\<close> of a number drops the fraction.\<close>

definition truncate_rat :: "rat \<Rightarrow> int" where
  "truncate_rat q = (if 0 \<le> q then floor q else - floor (- q))"

definition average_ms :: "(int list \<Rightarrow> rat) \<Rightarrow> int option list \<Rightarrow> int" where
  "average_ms avg durations =
    (let known = List.map_filter id durations
     in if known = [] \<or> avg known = 0 then 0 else truncate_rat (avg known))"

section \<open>The failure rate\<close>

text \<open>
  \<open>round(failed / total, 3)\<close>: the quotient is the nearest double, a tie going to the even
  mantissa, and rounding to three digits takes the nearest decimal of that double. The result
  stands for the double Python prints with these digits.
\<close>

definition round_half_even :: "rat \<Rightarrow> int" where
  "round_half_even x =
    (let f = floor x; d = x - of_int f
     in if d < 1 / 2 then f else if 1 / 2 < d then f + 1 else if even f then f else f + 1)"

function mantissa_shift :: "nat \<Rightarrow> nat \<Rightarrow> nat \<Rightarrow> nat" where
  "mantissa_shift p q e = (if p = 0 \<or> q * 2 ^ 52 \<le> p * 2 ^ e then e else mantissa_shift p q (Suc e))"
  by pat_completeness auto
termination
proof (relation "measure (\<lambda>(p, q, e). q * 2 ^ 52 - p * 2 ^ e)", goal_cases)
  case (2 p q e)
  then have "p * 2 ^ e < q * 2 ^ 52" "p * 2 ^ e < p * 2 ^ Suc e" by auto
  then show ?case by (simp only: in_measure case_prod_conv diff_less_mono2)
qed simp

declare mantissa_shift.simps [simp del]

definition float_div :: "nat \<Rightarrow> nat \<Rightarrow> rat" where
  "float_div p q =
    (let e = mantissa_shift p q 52
     in of_int (round_half_even (of_nat p / of_nat q * 2 ^ e)) / 2 ^ e)"

definition round_3 :: "rat \<Rightarrow> rat" where
  "round_3 x = of_int (round_half_even (x * 1000)) / 1000"

section \<open>The statistics of a tenant\<close>

record workflow_stats =
  ws_workflow_id :: uuid
  ws_workflow_name :: string
  ws_count :: nat
  ws_avg_duration_ms :: int

record failure_rate =
  fr_step_type :: string
  fr_total :: nat
  fr_failed :: nat
  fr_rate :: rat

record webhook_stats =
  wh_total :: nat
  wh_accepted :: nat
  wh_rejected :: nat
  wh_error :: nat

record execution_metrics =
  em_total :: nat
  em_by_status :: "(string \<times> nat) list"
  em_avg_duration_ms :: int
  em_by_workflow :: "workflow_stats list"
  em_step_failure_rates :: "failure_rate list"
  em_webhook_delivery_stats :: webhook_stats

definition join_workflows :: "execution list \<Rightarrow> workflow list \<Rightarrow> (execution \<times> workflow) list" where
  "join_workflows xs fs = concat (map (\<lambda>x. map (Pair x) (filter (\<lambda>f. wf_id f = ex_workflow_id x) fs)) xs)"

definition workflow_breakdown :: "(int list \<Rightarrow> rat) \<Rightarrow> uuid \<Rightarrow> world \<Rightarrow> workflow_stats list" where
  "workflow_breakdown avg tenant_id w =
    map (\<lambda>((i, name), rows). \<lparr>ws_workflow_id = i, ws_workflow_name = name, ws_count = length rows,
         ws_avg_duration_ms = average_ms avg (map (ex_duration_ms \<circ> fst) rows)\<rparr>)
      (group_by (\<lambda>(x, f). (ex_workflow_id x, wf_name f))
        (join_workflows (filter (\<lambda>x. ex_tenant_id x = tenant_id) (w_executions w)) (w_workflows w)))"

definition step_failure_rates :: "uuid \<Rightarrow> world \<Rightarrow> failure_rate list" where
  "step_failure_rates tenant_id w =
    map (\<lambda>(t, rows).
        let total = length rows; failed = length (filter (\<lambda>s. status_str (se_status s) = ''failed'') rows)
        in \<lparr>fr_step_type = t, fr_total = total, fr_failed = failed,
            fr_rate = (if total = 0 then 0 else round_3 (float_div failed total))\<rparr>)
      (group_by se_step_type (filter (\<lambda>s. se_tenant_id s = tenant_id) (w_steps w)))"

definition webhook_delivery_stats :: "uuid \<Rightarrow> world \<Rightarrow> webhook_stats" where
  "webhook_delivery_stats tenant_id w =
    (let wh_rows = group_counts wd_status (filter (\<lambda>d. wd_tenant_id d = tenant_id) (w_deliveries w));
         wh_by_status = (\<lambda>s. dict_get wh_rows s 0)
     in \<lparr>wh_total = sum_list (map snd wh_rows), wh_accepted = wh_by_status ''accepted'',
         wh_rejected = wh_by_status ''rejected'', wh_error = wh_by_status ''error''\<rparr>)"

definition get_execution_metrics :: "(int list \<Rightarrow> rat) \<Rightarrow> uuid \<Rightarrow> world \<Rightarrow> execution_metrics" where
  "get_execution_metrics avg tenant_id w =
    (let executions = filter (\<lambda>x. ex_tenant_id x = tenant_id) (w_executions w);
         status_rows = group_counts (\<lambda>x. status_str (ex_status x)) executions
     in \<lparr>em_total = sum_list (map snd status_rows), em_by_status = status_rows,
         em_avg_duration_ms = average_ms avg (map ex_duration_ms executions),
         em_by_workflow = workflow_breakdown avg tenant_id w,
         em_step_failure_rates = step_failure_rates tenant_id w,
         em_webhook_delivery_stats = webhook_delivery_stats tenant_id w\<rparr>)"

section \<open>Health\<close>

text \<open>What the three probes answer or raise is given.\<close>

definition check_service :: "exn + 'a \<Rightarrow> bool" where
  "check_service answer = (case answer of Inr x \<Rightarrow> True | Inl e \<Rightarrow> False)"

definition count_workers :: "exn + string list \<Rightarrow> nat" where
  "count_workers keys = (case keys of Inr ks \<Rightarrow> length ks | Inl e \<Rightarrow> 0)"

definition compute_status :: "bool \<Rightarrow> bool \<Rightarrow> string" where
  "compute_status pg redis = (if pg \<and> redis then ''ok'' else if pg \<or> redis then ''degraded'' else ''error'')"

record health_report =
  hr_status :: string
  hr_pg :: bool
  hr_redis :: bool
  hr_workers :: nat

definition health_check :: "exn + 'a \<Rightarrow> exn + 'b \<Rightarrow> exn + string list \<Rightarrow> health_report" where
  "health_check select_1 ping keys =
    (let pg = check_service select_1; redis_ok = check_service ping
     in \<lparr>hr_status = compute_status pg redis_ok, hr_pg = pg, hr_redis = redis_ok, hr_workers = count_workers keys\<rparr>)"

section \<open>Counting by groups\<close>

lemma sum_indicator:
  "distinct ks \<Longrightarrow> k \<in> set ks \<Longrightarrow> sum_list (map (\<lambda>j. if k = j then 1 else 0 :: nat) ks) = 1"
  by (induction ks) (auto intro!: sum_list_0 simp: sum_list_eq_0_iff)

lemma sum_group_lengths:
  assumes "distinct ks"
  shows "key ` set rows \<subseteq> set ks \<Longrightarrow> sum_list (map (\<lambda>k. length (filter (\<lambda>r. key r = k) rows)) ks) = length rows"
proof (induction rows)
  case (Cons r rows)
  have "length (filter (\<lambda>x. key x = k) (r # rows)) = (if key r = k then 1 else 0) + length (filter (\<lambda>x. key x = k) rows)" for k
    by simp
  then have "sum_list (map (\<lambda>k. length (filter (\<lambda>x. key x = k) (r # rows))) ks) =
      sum_list (map (\<lambda>k. if key r = k then 1 else 0) ks) + length rows"
    using Cons by (simp only: sum_list_addf) simp
  then show ?case using sum_indicator [OF assms, of "key r"] Cons.prems by simp
qed simp

lemma group_total: "sum_list (map (\<lambda>p. length (snd p)) (group_by key rows)) = length rows"
  using sum_group_lengths [of "remdups (map key rows)" key rows] by (simp add: group_by_def o_def)

lemma group_counts_total: "sum_list (map snd (group_counts key rows)) = length rows"
  using group_total [of key rows] by (simp add: group_counts_def o_def case_prod_beta)

lemma group_by_keys: "map fst (group_by key rows) = remdups (map key rows)"
  by (simp add: group_by_def o_def)

lemma group_by_member:
  "(k, rs) \<in> set (group_by key rows) \<longleftrightarrow> k \<in> key ` set rows \<and> rs = filter (\<lambda>r. key r = k) rows"
  by (auto simp: group_by_def)

lemma group_counts_get: "dict_get (group_counts key rows) k 0 = length (filter (\<lambda>r. key r = k) rows)"
proof -
  have "map_of (group_counts key rows) k = (if k \<in> key ` set rows then Some (length (filter (\<lambda>r. key r = k) rows)) else None)"
    by (simp add: group_counts_def group_by_def o_def map_of_map_restrict restrict_map_def)
  moreover have "k \<notin> key ` set rows \<Longrightarrow> filter (\<lambda>r. key r = k) rows = []" by (auto simp: filter_empty_conv)
  ultimately show ?thesis by (simp add: dict_get_def)
qed

text \<open>With foreign keys that hold and unique keys the join loses and repeats nothing.\<close>

lemma length_join:
  assumes "distinct (map wf_id fs)" "\<forall>x\<in>set xs. ex_workflow_id x \<in> wf_id ` set fs"
  shows "length (join_workflows xs fs) = length xs"
proof -
  have one: "length (filter (\<lambda>f. wf_id f = i) fs) = 1" if "i \<in> wf_id ` set fs" for i
  proof -
    have "length (filter (\<lambda>f. wf_id f = i) fs) = length (filter ((=) i) (map wf_id fs))"
      by (simp add: filter_map comp_def eq_commute)
    also have "\<dots> = card ({j. i = j} \<inter> set (map wf_id fs))" by (rule distinct_length_filter [OF assms(1)])
    also have "{j. i = j} \<inter> set (map wf_id fs) = {i}" using that by auto
    also have "card {i} = 1" by simp
    finally show ?thesis .
  qed
  from assms(2) show ?thesis
    by (induction xs) (simp_all add: join_workflows_def one)
qed

section \<open>How good the rate is\<close>

lemma round_half_even_error: "\<bar>of_int (round_half_even x) - x\<bar> \<le> 1 / 2"
proof -
  define f where "f = floor x"
  have f: "of_int f \<le> x" "x < of_int f + 1" unfolding f_def by linarith+
  have "round_half_even x = (if x - of_int f < 1 / 2 then f else if 1 / 2 < x - of_int f then f + 1 else if even f then f else f + 1)"
    by (simp add: round_half_even_def Let_def f_def)
  then consider "round_half_even x = f" "x - of_int f \<le> 1 / 2" | "round_half_even x = f + 1" "1 / 2 \<le> x - of_int f"
    by (auto split: if_splits)
  then show ?thesis using f by cases (simp_all add: abs_le_iff)
qed

lemma round_half_even_le: "x \<le> of_int n \<Longrightarrow> round_half_even x \<le> n"
proof -
  assume "x \<le> of_int n"
  moreover have "of_int (floor x) \<le> x" by linarith
  moreover have "floor x \<le> n" using \<open>x \<le> of_int n\<close> by linarith
  ultimately show ?thesis
    by (cases "floor x = n") (auto simp: round_half_even_def Let_def)
qed

lemma round_half_even_nonneg: "0 \<le> x \<Longrightarrow> 0 \<le> round_half_even x"
  by (auto simp: round_half_even_def Let_def)

lemma mantissa_shift_le: "e \<le> mantissa_shift p q e"
  by (induction p q e rule: mantissa_shift.induct) (subst mantissa_shift.simps, auto)

lemma float_div_error: "\<bar>float_div p q - of_nat p / of_nat q\<bar> \<le> 1 / 2 ^ 53"
proof -
  let ?e = "mantissa_shift p q 52" let ?x = "of_nat p / of_nat q :: rat"
  have "float_div p q - ?x = (of_int (round_half_even (?x * 2 ^ ?e)) - ?x * 2 ^ ?e) / 2 ^ ?e"
    by (simp add: float_div_def Let_def diff_divide_distrib)
  then have "\<bar>float_div p q - ?x\<bar> = \<bar>of_int (round_half_even (?x * 2 ^ ?e)) - ?x * 2 ^ ?e\<bar> / 2 ^ ?e"
    by (simp only: abs_divide) simp
  also have "\<dots> \<le> (1 / 2) / 2 ^ ?e"
    by (intro divide_right_mono round_half_even_error) simp
  also have "(1 / 2) / 2 ^ ?e \<le> (1 / 2) / (2 :: rat) ^ 52"
    by (intro divide_left_mono power_increasing) (simp_all add: mantissa_shift_le)
  finally show ?thesis by simp
qed

lemma float_div_range: "p \<le> q \<Longrightarrow> 0 \<le> float_div p q \<and> float_div p q \<le> 1"
proof -
  assume "p \<le> q"
  let ?e = "mantissa_shift p q 52"
  have "of_nat p / of_nat q \<le> (1 :: rat)" using \<open>p \<le> q\<close> by (cases "q = 0") (simp_all add: divide_le_eq_1)
  then have "of_nat p / of_nat q * 2 ^ ?e \<le> (of_int (2 ^ ?e) :: rat)"
    using mult_right_mono [of "of_nat p / of_nat q :: rat" 1 "2 ^ ?e"] by (simp only: of_int_power of_int_numeral) simp
  from round_half_even_le [OF this]
  have "(of_int (round_half_even (of_nat p / of_nat q * 2 ^ ?e)) :: rat) \<le> of_int (2 ^ ?e)"
    by (simp only: of_int_le_iff)
  moreover have "0 \<le> round_half_even (of_nat p / of_nat q * 2 ^ ?e)" by (rule round_half_even_nonneg) simp
  ultimately show ?thesis by (simp add: float_div_def Let_def)
qed

lemma rate_range: "p \<le> q \<Longrightarrow> 0 \<le> round_3 (float_div p q) \<and> round_3 (float_div p q) \<le> 1"
proof -
  assume "p \<le> q"
  from float_div_range [OF this] have "0 \<le> float_div p q * 1000" "float_div p q * 1000 \<le> of_int 1000" by simp_all
  from round_half_even_nonneg [OF this(1)] round_half_even_le [OF this(2)] show ?thesis by (simp add: round_3_def)
qed

lemma rate_error: "\<bar>round_3 (float_div p q) - of_nat p / of_nat q\<bar> \<le> 1 / 2000 + 1 / 2 ^ 53"
proof -
  have "\<bar>round_3 (float_div p q) - float_div p q\<bar> \<le> 1 / 2000"
    using round_half_even_error [of "float_div p q * 1000"] by (simp add: round_3_def abs_le_iff field_simps)
  with float_div_error [of p q] show ?thesis by linarith
qed

end
