(* ===== verification/Invariants.thy ===== *)
theory Invariants
  imports Webhooks Cron Jobs Worker
begin

text \<open>
  Invariants of the whole service. \<open>keeps\<close> says that a procedure preserves an invariant on success
  and on failure, never sets the counter of readings back, and what its result satisfies; one rule
  per construct of the service's functions walks through their code. The locale
  \<open>run_invariant\<close> is the contract of an invariant: what it must allow an operation to draw,
  to insert and to change on behalf of a tenant. Inside it every operation that acts for a tenant
  is shown to keep the invariant, once, for all invariants with that contract.
\<close>

section \<open>Procedures that keep an invariant\<close>

definition keeps :: "(world \<Rightarrow> bool) \<Rightarrow> nat \<Rightarrow> (world, 'a) proc \<Rightarrow> ('a \<Rightarrow> nat \<Rightarrow> bool) \<Rightarrow> bool" where
  "keeps J N m Q \<longleftrightarrow> (\<forall>w. J w \<longrightarrow> N \<le> w_ticks w \<longrightarrow>
     J (snd (m w)) \<and> w_ticks w \<le> w_ticks (snd (m w)) \<and> (\<forall>x. fst (m w) = Inr x \<longrightarrow> Q x (w_ticks (snd (m w)))))"

abbreviation anything :: "'a \<Rightarrow> nat \<Rightarrow> bool" where
  "anything \<equiv> \<lambda>x M. True"

named_theorems keeps_intros

lemma keeps_ret [keeps_intros]: "(\<And>M. N \<le> M \<Longrightarrow> Q x M) \<Longrightarrow> keeps J N (ret x) Q"
  by (simp add: keeps_def)

lemma keeps_raise [keeps_intros]: "keeps J N (raise e) Q"
  by (simp add: keeps_def)

lemma keeps_Pair [keeps_intros]:
  "keeps J N (Pair (Inl e)) Q" "(\<And>M. N \<le> M \<Longrightarrow> Q x M) \<Longrightarrow> keeps J N (Pair (Inr x)) Q"
  by (simp_all add: keeps_def)

lemma keeps_lift [keeps_intros]: "(\<And>x M. r = Inr x \<Longrightarrow> N \<le> M \<Longrightarrow> Q x M) \<Longrightarrow> keeps J N (lift_result r) Q"
  by (simp add: keeps_def)

lemma keeps_modify [keeps_intros]:
  "(\<And>w. J w \<Longrightarrow> N \<le> w_ticks w \<Longrightarrow> J (f w)) \<Longrightarrow> (\<And>w. w_ticks (f w) = w_ticks w) \<Longrightarrow>
    (\<And>M. N \<le> M \<Longrightarrow> Q () M) \<Longrightarrow> keeps J N (modify f) Q"
  by (simp add: keeps_def)

lemma keeps_later: "keeps J N m Q \<Longrightarrow> N \<le> M \<Longrightarrow> keeps J M m Q"
  by (simp add: keeps_def)

lemma keeps_post: "keeps J N m R \<Longrightarrow> (\<And>x M. N \<le> M \<Longrightarrow> R x M \<Longrightarrow> Q x M) \<Longrightarrow> keeps J N m Q"
  unfolding keeps_def by (meson le_trans)

lemma keeps_andthen:
  assumes "keeps J N m R" "\<And>x M. N \<le> M \<Longrightarrow> R x M \<Longrightarrow> keeps J M (k x) Q"
  shows "keeps J N (andthen m k) Q"
  unfolding keeps_def
proof (intro allI impI)
  fix w assume w: "J w" "N \<le> w_ticks w"
  obtain r v where m: "m w = (r, v)" by (cases "m w")
  with assms(1) w have v: "J v" "w_ticks w \<le> w_ticks v" "\<forall>x. r = Inr x \<longrightarrow> R x (w_ticks v)"
    by (auto simp: keeps_def dest!: spec [of _ w])
  show "J (snd (andthen m k w)) \<and> w_ticks w \<le> w_ticks (snd (andthen m k w)) \<and>
    (\<forall>x. fst (andthen m k w) = Inr x \<longrightarrow> Q x (w_ticks (snd (andthen m k w))))"
  proof (cases r)
    case (Inl e)
    with m v show ?thesis by (simp add: andthen_def)
  next
    case (Inr x)
    with v w have "keeps J (w_ticks v) (k x) Q" by (intro assms(2)) simp_all
    with v have "J (snd (k x v)) \<and> w_ticks v \<le> w_ticks (snd (k x v)) \<and> (\<forall>y. fst (k x v) = Inr y \<longrightarrow> Q y (w_ticks (snd (k x v))))"
      by (simp add: keeps_def)
    with m v Inr show ?thesis by (auto simp: andthen_def)
  qed
qed

lemma keeps_then: "keeps J N m anything \<Longrightarrow> (\<And>x. keeps J N (k x) Q) \<Longrightarrow> keeps J N (andthen m k) Q"
  by (rule keeps_andthen, assumption) (rule keeps_later)

lemma keeps_on_error:
  assumes "keeps J N m Q" "\<And>e. keeps J N (h e) Q"
  shows "keeps J N (on_error m h) Q"
  unfolding keeps_def
proof (intro allI impI)
  fix w assume w: "J w" "N \<le> w_ticks w"
  obtain r v where m: "m w = (r, v)" by (cases "m w")
  with assms(1) w have v: "J v" "w_ticks w \<le> w_ticks v" "\<forall>x. r = Inr x \<longrightarrow> Q x (w_ticks v)"
    by (auto simp: keeps_def dest!: spec [of _ w])
  show "J (snd (on_error m h w)) \<and> w_ticks w \<le> w_ticks (snd (on_error m h w)) \<and>
    (\<forall>x. fst (on_error m h w) = Inr x \<longrightarrow> Q x (w_ticks (snd (on_error m h w))))"
  proof (cases r)
    case (Inl e)
    have "J (snd (h e v)) \<and> w_ticks v \<le> w_ticks (snd (h e v)) \<and> (\<forall>y. fst (h e v) = Inr y \<longrightarrow> Q y (w_ticks (snd (h e v))))"
      using assms(2) [of e] v w by (simp add: keeps_def)
    with m v Inl show ?thesis by (auto simp: on_error_def)
  next
    case (Inr x)
    with m v show ?thesis by (simp add: on_error_def)
  qed
qed

text \<open>A procedure that looks at the state first is one procedure for each state it may see.\<close>

lemma keeps_look:
  "(\<And>v. J v \<Longrightarrow> N \<le> w_ticks v \<Longrightarrow> keeps J (w_ticks v) (m v) Q) \<Longrightarrow> keeps J N (\<lambda>w. m w w) Q"
  by (simp add: keeps_def)

lemma keeps_option:
  assumes "\<And>w. m w = (case f w of None \<Rightarrow> n w | Some x \<Rightarrow> s x w)"
    and "keeps J N n Q"
    and "\<And>v x. J v \<Longrightarrow> N \<le> w_ticks v \<Longrightarrow> f v = Some x \<Longrightarrow> keeps J (w_ticks v) (s x) Q"
  shows "keeps J N m Q"
  unfolding keeps_def
proof (intro allI impI)
  fix w assume w: "J w" "N \<le> w_ticks w"
  show "J (snd (m w)) \<and> w_ticks w \<le> w_ticks (snd (m w)) \<and> (\<forall>x. fst (m w) = Inr x \<longrightarrow> Q x (w_ticks (snd (m w))))"
  proof (cases "f w")
    case None
    with assms(1,2) w show ?thesis by (simp add: keeps_def)
  next
    case (Some x)
    from assms(3) [OF w Some] assms(1) Some w show ?thesis by (simp add: keeps_def)
  qed
qed

lemma keeps_if:
  "(c \<Longrightarrow> keeps J N a Q) \<Longrightarrow> (\<not> c \<Longrightarrow> keeps J N b Q) \<Longrightarrow> keeps J N (\<lambda>w. if c then a w else b w) Q"
  by (cases c) simp_all

lemma keeps_run: "keeps J 0 m Q \<Longrightarrow> m w = (r, w') \<Longrightarrow> J w \<Longrightarrow> J w' \<and> w_ticks w \<le> w_ticks w'"
  by (metis keeps_def le0 snd_conv)

section \<open>The contract of an invariant\<close>

text \<open>A context that names only tenants that may act.\<close>

definition names :: "(uuid \<Rightarrow> bool) \<Rightarrow> dict \<Rightarrow> bool" where
  "names may ctx \<longleftrightarrow> (\<forall>j t. map_of ctx ''_tenant_id'' = Some j \<longrightarrow> json_uuid j = Inr t \<longrightarrow> may t)"

fun event_in :: "uuid set \<Rightarrow> event \<Rightarrow> bool" where
  "event_in S (ExecutionTransition i st) = (i \<in> S)"
| "event_in S (StepTransition j s st) = (j \<in> S)"
| "event_in S _ = True"

text \<open>A step row as the engine creates it: of a known type, and without a configuration.\<close>

definition plain_step :: "step_execution \<Rightarrow> bool" where
  "plain_step s \<longleftrightarrow> se_input_data s = [] \<and> (\<exists>t. step_type_of (se_step_type s) = Inr t)"

lemma plain_new_step: "plain_step (new_step i T e d now)"
proof -
  have "step_type_of (step_type_value t) = Inr t" for t by (simp add: step_type_of_def)
  then show ?thesis by (auto simp: plain_step_def new_step_def)
qed

lemma plain_same: "se_base s' = se_base s \<Longrightarrow> se_input_data s' = se_input_data s \<Longrightarrow> plain_step s' = plain_step s"
  by (simp add: plain_step_def se_base_eq)

text \<open>
  \<open>may\<close> says which tenants act. \<open>own n\<close> are the identifiers whose rows they may change when the
  counter is at \<open>n\<close>, \<open>ref n\<close> the ones their rows may refer to.
\<close>

locale run_invariant =
  fixes E :: env and J :: "world \<Rightarrow> bool" and own :: "nat \<Rightarrow> uuid set" and ref :: "nat \<Rightarrow> uuid set"
    and may :: "uuid \<Rightarrow> bool"
  assumes own_mono: "M \<le> N \<Longrightarrow> own M \<subseteq> own N" and ref_mono: "M \<le> N \<Longrightarrow> ref M \<subseteq> ref N"
    and own_ref: "own N \<subseteq> ref N"
    and clock: "J w \<Longrightarrow> w_ticks w \<le> n \<Longrightarrow> J (w\<lparr>w_ticks := n\<rparr>)"
    and transaction: "J w \<Longrightarrow> J (w\<lparr>w_txn_now := t\<rparr>)"
    and rollback: "J w \<Longrightarrow> J w' \<Longrightarrow> w_ticks w \<le> w_ticks w' \<Longrightarrow>
      J (w\<lparr>w_ticks := w_ticks w', w_events := w_events w'\<rparr>)"
    and logged: "J w \<Longrightarrow> event_in (own (w_ticks w)) e \<Longrightarrow> J (w\<lparr>w_events := w_events w @ [e]\<rparr>)"
    and drawn: "J w \<Longrightarrow> env_uuid E (w_ticks w) \<in> own (Suc (w_ticks w))"
    and adds_execution: "J w \<Longrightarrow> ex_id r = env_uuid E (w_ticks w) \<Longrightarrow> may (ex_tenant_id r) \<Longrightarrow>
      names may (ex_context r) \<Longrightarrow> ex_workflow_id r \<in> ref (w_ticks w) \<Longrightarrow>
      (\<And>i. ex_replayed_from r = Some i \<Longrightarrow> i \<in> ref (w_ticks w)) \<Longrightarrow>
      J (add_execution r (w\<lparr>w_ticks := Suc (w_ticks w)\<rparr>))"
    and adds_step: "J w \<Longrightarrow> se_id s = env_uuid E (w_ticks w) \<Longrightarrow> may (se_tenant_id s) \<Longrightarrow>
      se_execution_id s \<in> own (w_ticks w) \<Longrightarrow> plain_step s \<Longrightarrow> J (add_step s (w\<lparr>w_ticks := Suc (w_ticks w)\<rparr>))"
    and adds_delivery: "J w \<Longrightarrow> wd_id d = env_uuid E (w_ticks w) \<Longrightarrow> may (wd_tenant_id d) \<Longrightarrow>
      wd_workflow_id d \<in> ref (w_ticks w) \<Longrightarrow> wd_execution_id d = None \<Longrightarrow>
      J (add_delivery d (w\<lparr>w_ticks := Suc (w_ticks w)\<rparr>))"
    and adds_log: "J w \<Longrightarrow> lg_id l = env_uuid E (w_ticks w) \<Longrightarrow> may (lg_tenant_id l) \<Longrightarrow>
      lg_execution_id l \<in> ref (w_ticks w) \<Longrightarrow> J (w\<lparr>w_ticks := Suc (w_ticks w), w_logs := w_logs w @ [l]\<rparr>)"
    and changed_execution: "J w \<Longrightarrow> i \<in> own (w_ticks w) \<Longrightarrow> (\<And>x. ex_base (f x) = ex_base x) \<Longrightarrow>
      (\<And>x. names may (ex_context x) \<Longrightarrow> names may (ex_context (f x))) \<Longrightarrow> J (upd_execution i f w)"
    and changed_step: "J w \<Longrightarrow> j \<in> own (w_ticks w) \<Longrightarrow> (\<And>s. se_base (g s) = se_base s) \<Longrightarrow>
      (\<And>s. se_input_data (g s) = se_input_data s) \<Longrightarrow> J (upd_step j g w)"
    and changed_delivery: "J w \<Longrightarrow> i \<in> own (w_ticks w) \<Longrightarrow> (\<And>d. wd_id (h d) = wd_id d) \<Longrightarrow>
      (\<And>d. wd_tenant_id (h d) = wd_tenant_id d) \<Longrightarrow> (\<And>d. wd_workflow_id (h d) = wd_workflow_id d) \<Longrightarrow>
      (\<And>d k. wd_execution_id (h d) = Some k \<Longrightarrow> wd_execution_id d = Some k \<or> k \<in> ref (w_ticks w)) \<Longrightarrow>
      J (upd_delivery i h w)"
    and found_names: "J w \<Longrightarrow> find_execution w i = Some x \<Longrightarrow> i \<in> own (w_ticks w) \<Longrightarrow> names may (ex_context x)"
    and own_execution: "J w \<Longrightarrow> find_execution w i = Some x \<Longrightarrow> may (ex_tenant_id x) \<Longrightarrow> i \<in> own (w_ticks w)"
    and own_workflow: "J w \<Longrightarrow> find_workflow w i = Some flow \<Longrightarrow> may (wf_tenant_id flow) \<Longrightarrow> i \<in> own (w_ticks w)"
    and own_step: "J w \<Longrightarrow> s \<in> set (w_steps w) \<Longrightarrow> se_execution_id s \<in> own (w_ticks w) \<Longrightarrow> se_id s \<in> own (w_ticks w)"

text \<open>An invariant that allows a tenant to change its workflows as well.\<close>

locale service_invariant = run_invariant +
  assumes adds_workflow: "J w \<Longrightarrow> wf_id flow = env_uuid E (w_ticks w) \<Longrightarrow> may (wf_tenant_id flow) \<Longrightarrow>
      J (add_workflow flow (w\<lparr>w_ticks := Suc (w_ticks w)\<rparr>))"
    and changed_workflow: "J w \<Longrightarrow> i \<in> own (w_ticks w) \<Longrightarrow> wf_id flow = i \<Longrightarrow> may (wf_tenant_id flow) \<Longrightarrow>
      J (upd_workflow i (\<lambda>_. flow) w)"
    and deleted: "J w \<Longrightarrow> i \<in> own (w_ticks w) \<Longrightarrow> J (cascade_delete i w)"

section \<open>The engine\<close>

lemma names_merge: "merge_context ctx s out = Inr ctx' \<Longrightarrow> names may ctx \<Longrightarrow> names may ctx'"
  by (auto simp: merge_context_def sum_bind_Inr_iff names_def split: option.splits)

lemma names_input: "names may ctx \<Longrightarrow> names may (step_input_of ctx s)"
proof -
  have "uuid_parse '''' = Inl (PyError ''ValueError'' ''badly formed hexadecimal UUID string'')"
    by (simp add: uuid_parse_def Let_def strip_braces_def)
  then show "names may ctx \<Longrightarrow> ?thesis"
    by (auto simp: names_def step_input_of_def get_step_input_def dict_get_def split: option.splits)
qed

lemma names_get_input: "names may (get_step_input ctx st config)"
  by (simp add: names_def get_step_input_def)

lemma json_uuid_bound: "json_uuid j = Inr t \<Longrightarrow> t < 2 ^ 128"
proof -
  assume "json_uuid j = Inr t"
  then obtain s where "uuid_parse s = Inr t" by (cases j) auto
  then show ?thesis by (auto simp: uuid_parse_def Let_def nat_less_iff split: if_splits option.splits)
qed

lemma sub_workflow_may:
  assumes "sub_workflow_target E config ctx = Inr (wid, t, d)" "names may ctx"
  shows "may t" "t < 2 ^ 128"
  using assms json_uuid_bound
  by (auto simp: sub_workflow_target_def sum_bind_Inr_iff names_def split: option.splits if_splits)

text \<open>The identifiers in a map of steps.\<close>

definition ids_in :: "uuid set \<Rightarrow> (string \<times> uuid) list \<Rightarrow> bool" where
  "ids_in S sm \<longleftrightarrow> (\<forall>s j. map_of sm s = Some j \<longrightarrow> j \<in> S)"

lemma http_ticks: "\<exists>n\<ge>w_ticks w. snd (http_execute E config ctx w) = w\<lparr>w_ticks := n\<rparr>"
  using http_execute_frame [OF prod.collapse [symmetric]] by blast

context run_invariant
begin

lemma own_later: "i \<in> own N \<Longrightarrow> N \<le> M \<Longrightarrow> i \<in> own M"
  using own_mono by blast

lemma ref_later: "i \<in> ref N \<Longrightarrow> N \<le> M \<Longrightarrow> i \<in> ref M"
  using ref_mono by blast

lemma own_is_ref: "i \<in> own N \<Longrightarrow> i \<in> ref N"
  using own_ref by blast

lemma ticked: "J w \<Longrightarrow> J (w\<lparr>w_ticks := Suc (w_ticks w)\<rparr>)"
  by (rule clock) simp_all

lemma keeps_now: "keeps J N (utc_now E) anything"
  by (simp add: keeps_def utc_now_def ticked)

lemma keeps_uuid: "keeps J N (generate_uuid E) (\<lambda>i M. i \<in> own M)"
  by (simp add: keeps_def generate_uuid_def ticked drawn)

lemma keeps_event: "event_in (own N) e \<Longrightarrow> keeps J N (log_event e) anything"
proof -
  assume "event_in (own N) e"
  then have "event_in (own M) e" if "N \<le> M" for M using own_later [OF _ that] by (cases e) simp_all
  then show ?thesis by (simp add: keeps_def log_event_def logged)
qed

text \<open>Drawing an identifier and inserting the row that has it.\<close>

lemma keeps_insert:
  assumes "\<And>w. J w \<Longrightarrow> N \<le> w_ticks w \<Longrightarrow> J (ins (env_uuid E (w_ticks w)) (w\<lparr>w_ticks := Suc (w_ticks w)\<rparr>))"
    and "\<And>i w. w_ticks (ins i w) = w_ticks w"
    and "\<And>i M. N \<le> M \<Longrightarrow> i \<in> own M \<Longrightarrow> keeps J M (k i) Q"
  shows "keeps J N (andthen (generate_uuid E) (\<lambda>i. andthen (modify (ins i)) (\<lambda>_. k i))) Q"
  unfolding keeps_def
proof (intro allI impI)
  fix w assume w: "J w" "N \<le> w_ticks w"
  let ?i = "env_uuid E (w_ticks w)" let ?v = "ins ?i (w\<lparr>w_ticks := Suc (w_ticks w)\<rparr>)"
  have run: "andthen (generate_uuid E) (\<lambda>i. andthen (modify (ins i)) (\<lambda>_. k i)) w = k ?i ?v"
    by (simp add: andthen_def generate_uuid_def)
  have "keeps J (Suc (w_ticks w)) (k ?i) Q" using w drawn by (intro assms(3)) simp_all
  moreover have "J ?v" "w_ticks ?v = Suc (w_ticks w)" using assms(1) [OF w] assms(2) by simp_all
  ultimately show "J (snd (andthen (generate_uuid E) (\<lambda>i. andthen (modify (ins i)) (\<lambda>_. k i)) w)) \<and>
      w_ticks w \<le> w_ticks (snd (andthen (generate_uuid E) (\<lambda>i. andthen (modify (ins i)) (\<lambda>_. k i)) w)) \<and>
      (\<forall>x. fst (andthen (generate_uuid E) (\<lambda>i. andthen (modify (ins i)) (\<lambda>_. k i)) w) = Inr x \<longrightarrow>
        Q x (w_ticks (snd (andthen (generate_uuid E) (\<lambda>i. andthen (modify (ins i)) (\<lambda>_. k i)) w))))"
    unfolding run keeps_def by (metis Suc_leD order_refl)
qed

lemma keeps_change_step:
  "j \<in> own N \<Longrightarrow> (\<And>s. se_base (g s) = se_base s) \<Longrightarrow> (\<And>s. se_input_data (g s) = se_input_data s) \<Longrightarrow>
    keeps J N (modify (upd_step j g)) anything"
  by (rule keeps_modify) (auto intro: changed_step own_later)

lemma keeps_change_execution:
  "i \<in> own N \<Longrightarrow> (\<And>x. ex_base (f x) = ex_base x) \<Longrightarrow> (\<And>x. names may (ex_context x) \<Longrightarrow> names may (ex_context (f x))) \<Longrightarrow>
    keeps J N (modify (upd_execution i f)) anything"
  by (rule keeps_modify) (auto intro: changed_execution own_later)

lemma keeps_transition_step: "j \<in> own N \<Longrightarrow> keeps J N (transition_step E j st err) anything"
  by (rule keeps_option, rule transition_step_def)
    (auto intro!: keeps_raise keeps_lift keeps_then keeps_now keeps_event keeps_change_step keeps_ret
      simp del: raise_run lift_result_run ret_run modify_run dest: own_later)

lemma keeps_transition_execution: "i \<in> own N \<Longrightarrow> keeps J N (transition_execution E i st) anything"
  by (rule keeps_option, rule transition_execution_def)
    (auto intro!: keeps_raise keeps_lift keeps_then keeps_now keeps_event keeps_change_execution keeps_ret
      simp del: raise_run lift_result_run ret_run modify_run dest: own_later)

lemma keeps_refreshed: "i \<in> own N \<Longrightarrow> keeps J N (refreshed i) (\<lambda>x M. names may (ex_context x))"
proof (rule keeps_option, rule refreshed_def, rule keeps_raise)
  fix v x assume "i \<in> own N" "J v" "N \<le> w_ticks v" "find_execution v i = Some x"
  then show "keeps J (w_ticks v) (ret x) (\<lambda>x M. names may (ex_context x))"
    by (intro keeps_ret) (auto intro: found_names own_later)
qed

lemma keeps_merge: "i \<in> own N \<Longrightarrow> keeps J N (merge_step_output i s out) anything"
proof (rule keeps_option, rule merge_step_output_cases, rule keeps_raise)
  fix v x assume i: "i \<in> own N" "J v" "N \<le> w_ticks v" "find_execution v i = Some x"
  then have own: "i \<in> own (w_ticks v)" by (blast intro: own_later)
  with i have "names may (ex_context x)" by (blast intro: found_names)
  then have ctx: "keeps J (w_ticks v) (lift_result (merge_context (ex_context x) s out)) (\<lambda>c M. names may c)"
    by (auto intro!: keeps_lift dest: names_merge simp del: lift_result_run)
  show "keeps J (w_ticks v) (write_output i s out x) anything"
    unfolding write_output_def
    by (rule keeps_andthen [OF ctx])
      (auto intro!: keeps_then keeps_change_execution keeps_event own_later [OF own] simp del: modify_run)
qed

lemma keeps_begin_attempt: "j \<in> own N \<Longrightarrow> keeps J N (begin_attempt E j a) anything"
  unfolding begin_attempt_def
  by (intro keeps_then keeps_change_step keeps_transition_step keeps_ret TrueI)
    (auto intro!: keeps_option [OF refl] keeps_if keeps_then keeps_ret keeps_transition_step
      simp del: ret_run modify_run dest: own_later)

lemma keeps_create_steps:
  "may T \<Longrightarrow> i \<in> own N \<Longrightarrow> ids_in (own N) sm \<Longrightarrow>
    keeps J N (create_steps E T i ss sm) (\<lambda>sm M. ids_in (own M) sm)"
proof (induction ss arbitrary: sm N)
  case Nil
  then show ?case by (auto intro!: keeps_ret simp: ids_in_def simp del: ret_run dest: own_later)
next
  case (Cons s ss)
  show ?case
    unfolding create_steps.simps
  proof (rule keeps_insert)
    fix w assume "J w" "N \<le> w_ticks w"
    with Cons.prems show "J (add_step (new_step (env_uuid E (w_ticks w)) T i s (w_txn_now (w\<lparr>w_ticks := Suc (w_ticks w)\<rparr>)))
        (w\<lparr>w_ticks := Suc (w_ticks w)\<rparr>))"
      by (intro adds_step plain_new_step) (auto simp: new_step_def dest: own_later)
  next
    fix j M assume "N \<le> M" "j \<in> own M"
    then show "keeps J M (create_steps E T i ss (dict_set (sd_id s) j sm)) (\<lambda>sm M. ids_in (own M) sm)"
      using Cons.prems by (intro Cons.IH) (auto simp: ids_in_def intro: own_later)
  qed simp
qed

lemma keeps_metadata:
  assumes "may T" "T < 2 ^ 128" "i \<in> own N"
  shows "keeps J N (store_metadata E i depth T) anything"
proof -
  have "J (upd_execution i (\<lambda>r. r\<lparr>ex_context := dict_set ''_tenant_id'' (JStr (uuid_str T))
      (dict_set ''_depth'' (JInt depth) (ex_context r))\<rparr>) w)" if "J w" "N \<le> w_ticks w" for w
    using that assms by (intro changed_execution) (auto simp: names_def uuid_parse_str intro: own_later)
  then show ?thesis unfolding store_metadata_def by (intro keeps_modify) auto
qed

end


text \<open>What a step runner must do for a run to keep the invariant.\<close>

locale invariant_runner = run_invariant +
  fixes run :: runner
  assumes run_keeps: "names may ctx \<Longrightarrow> keeps J N (run s ctx) anything"
begin

lemma keeps_attempt:
  assumes "i \<in> own N" "j \<in> own N"
  shows "keeps J N (attempt_step E run i s j) anything"
  unfolding attempt_step_def
proof (rule keeps_andthen [OF keeps_refreshed [OF assms(1)]])
  fix x M assume M: "N \<le> M" and "names may (ex_context x)"
  then have "keeps J M (run s (step_input_of (ex_context x) s)) anything"
    by (intro run_keeps names_input)
  then show "keeps J M (andthen (run s (step_input_of (ex_context x) s)) (\<lambda>output.
      andthen (transition_step E j Completed None) (\<lambda>_.
      andthen (modify (upd_step j (\<lambda>r. r\<lparr>se_output_data := Some output\<rparr>))) (\<lambda>_.
      andthen (merge_step_output i (sd_id s) output) (\<lambda>_. ret True))))) anything"
    using assms M by (intro keeps_then keeps_change_step keeps_transition_step keeps_merge keeps_ret TrueI) (auto intro: own_later)
qed

lemma keeps_retry:
  assumes "i \<in> own N" "j \<in> own N"
  shows "keeps J N (retry_loop E run i s j mx left a) anything"
proof (induction left arbitrary: a)
  case 0
  then show ?case by (simp add: keeps_intros del: ret_run)
next
  case (Suc left)
  have "keeps J N (if c then andthen (log_event (StepRetriesExhausted i x y)) (\<lambda>_. ret False)
      else andthen (log_event (StepRetry i x y)) (\<lambda>_. retry_loop E run i s j mx left a')) anything" for c x y a'
    by (cases c) (auto intro!: keeps_then keeps_event keeps_ret Suc simp del: ret_run)
  then show ?case
    unfolding retry_loop.simps Let_def
    by (intro keeps_then keeps_on_error keeps_begin_attempt keeps_attempt keeps_transition_step assms)
qed

lemma keeps_step:
  assumes "i \<in> own N" "j \<in> own N"
  shows "keeps J N (execute_step_with_retry E run i s j) anything"
  by (rule keeps_option, rule execute_step_with_retry_def)
    (auto intro!: keeps_raise keeps_later [OF keeps_retry] assms simp del: raise_run)

lemma keeps_dag:
  assumes "i \<in> own N" "ids_in (own N) sm"
  shows "keeps J N (dag_loop E run i defs sm order skipped) anything"
proof (induction order arbitrary: skipped)
  case Nil
  have "dag_loop E run i defs sm [] skipped = andthen (transition_execution E i Completed) (\<lambda>_. ret ())"
    by (simp add: fun_eq_iff)
  then show ?case by (auto intro!: keeps_then keeps_transition_execution keeps_ret assms simp del: ret_run)
next
  case (Cons s order)
  show ?case
  proof (cases "map_of defs s = None \<or> map_of sm s = None")
    case True
    then have "dag_loop E run i defs sm (s # order) skipped = raise (PyError ''KeyError'' (quoted s))"
      by (auto simp: fun_eq_iff split: option.split)
    then show ?thesis by (simp add: keeps_intros del: raise_run)
  next
    case False
    then obtain d j where dj: "map_of defs s = Some d" "map_of sm s = Some j" by auto
    with assms(2) have j: "j \<in> own N" by (simp add: ids_in_def)
    have failed: "keeps J N (mark_failed i s) anything"
      unfolding mark_failed_def by (intro keeps_change_execution assms) simp_all
    have branch: "keeps J N (\<lambda>w. andthen (lift_result (f w)) (\<lambda>ns. dag_loop E run i defs sm order (skipped @ ns)) w) anything" for f
      by (rule keeps_look [where m = "\<lambda>v. andthen (lift_result (f v)) (\<lambda>ns. dag_loop E run i defs sm order (skipped @ ns))"])
        (intro keeps_then keeps_lift keeps_later [OF Cons] TrueI)
    have "dag_loop E run i defs sm (s # order) skipped =
      (if s \<in> set skipped then andthen (transition_step E j Skipped None) (\<lambda>_. dag_loop E run i defs sm order skipped)
       else andthen (execute_step_with_retry E run i d j) (\<lambda>success.
         if \<not> success then mark_failed i s
         else if sd_type d = CONDITION then
           (\<lambda>w. andthen (lift_result (resolve_condition_branches E d (Option.bind (find_step w j) se_output_data)))
             (\<lambda>ns. dag_loop E run i defs sm order (skipped @ ns)) w)
         else dag_loop E run i defs sm order skipped))"
      using dj by (simp add: fun_eq_iff)
    then show ?thesis
      by (auto intro!: keeps_then keeps_transition_step keeps_step failed branch Cons assms(1) j)
  qed
qed

lemma keeps_start:
  assumes T: "may T" "T < 2 ^ 128" and flow: "wf_id flow \<in> ref N" and replay: "\<And>i. replayed = Some i \<Longrightarrow> i \<in> ref N"
  shows "keeps J N (start_execution_with E run flow trigger T replayed depth) (\<lambda>x M. ex_id x \<in> own M)"
proof -
  have rows: "keeps J N (andthen (generate_uuid E) (\<lambda>i.
         andthen (modify (\<lambda>w. add_execution (new_execution i T (wf_id flow) trigger replayed (w_txn_now w)) w)) (\<lambda>_.
         andthen (transition_execution E i Running) (\<lambda>_.
         andthen (create_steps E T i steps []) (\<lambda>step_map.
         andthen (store_metadata E i depth T) (\<lambda>_.
         andthen (execute_dag E run i steps step_map) (\<lambda>_.
         refreshed i))))))) (\<lambda>x M. ex_id x \<in> own M)" for steps
  proof (rule keeps_insert)
    fix w assume "J w" "N \<le> w_ticks w"
    then show "J (add_execution (new_execution (env_uuid E (w_ticks w)) T (wf_id flow) trigger replayed
        (w_txn_now (w\<lparr>w_ticks := Suc (w_ticks w)\<rparr>))) (w\<lparr>w_ticks := Suc (w_ticks w)\<rparr>))"
      using assms by (intro adds_execution) (auto simp: new_execution_def names_def intro: ref_later)
  next
    fix i M assume i: "N \<le> M" "i \<in> own M"
    have last: "keeps J K (refreshed i) (\<lambda>x M. ex_id x \<in> own M)" if "M \<le> K" for K
    proof (rule keeps_option, rule refreshed_def, rule keeps_raise)
      fix v x assume "K \<le> w_ticks v" "find_execution v i = Some x"
      then show "keeps J (w_ticks v) (ret x) (\<lambda>x M. ex_id x \<in> own M)"
        using i(2) that ext.find_key by (intro keeps_ret) (metis le_trans own_later)
    qed
    have walk: "keeps J K (andthen (store_metadata E i depth T) (\<lambda>_. andthen (execute_dag E run i steps sm) (\<lambda>_. refreshed i)))
        (\<lambda>x M. ex_id x \<in> own M)" if "M \<le> K" "ids_in (own K) sm" for K sm
      unfolding execute_dag_def
      using that i T by (intro keeps_then keeps_metadata keeps_dag last) (auto intro: own_later)
    show "keeps J M (andthen (transition_execution E i Running) (\<lambda>_. andthen (create_steps E T i steps []) (\<lambda>step_map.
         andthen (store_metadata E i depth T) (\<lambda>_. andthen (execute_dag E run i steps step_map) (\<lambda>_. refreshed i)))))
         (\<lambda>x M. ex_id x \<in> own M)"
      by (rule keeps_then [OF keeps_transition_execution [OF i(2)]], rule keeps_andthen [OF keeps_create_steps])
        (use T i walk in \<open>auto simp: ids_in_def\<close>)
  qed (simp add: add_execution_def)
  show ?thesis
    unfolding start_execution_with_def
    by (auto intro!: keeps_raise rows split: option.split sum.split simp del: raise_run)
qed

end


context run_invariant
begin

lemma keeps_sub_workflow:
  assumes "names may ctx"
    and start: "\<And>flow trigger t d M. may t \<Longrightarrow> t < 2 ^ 128 \<Longrightarrow> wf_id flow \<in> ref M \<Longrightarrow> keeps J M (start flow trigger t d) anything"
  shows "keeps J N (sub_workflow_execute E start config ctx) anything"
  unfolding sub_workflow_execute_def
proof (rule keeps_andthen [where R = "\<lambda>(wid, t, d) M. may t \<and> t < 2 ^ 128"], goal_cases)
  case 1
  show ?case
    by (rule keeps_lift) (use sub_workflow_may [OF _ assms(1), where E = E and config = config] in auto)
next
  case (2 x M)
  obtain wid t d where x: "x = (wid, t, d)" by (cases x)
  with 2 have t: "may t" "t < 2 ^ 128" by simp_all
  show ?case
    unfolding x prod.case
  proof (rule keeps_option, rule refl, rule keeps_raise)
    fix v sub assume v: "J v" "find_workflow v wid = Some sub"
    show "keeps J (w_ticks v) (\<lambda>w. if wf_tenant_id sub \<noteq> t
          then raise (not_found (''Sub-workflow '' @ uuid_str wid)) w
          else if \<not> wf_is_active sub
          then raise (app_error ''WORKFLOW_INACTIVE'' ''Sub-workflow is not active.'' []) w
          else andthen (lift_result (build_trigger_data E config ctx)) (\<lambda>trigger_data.
            andthen (start sub trigger_data t (d + 1)) (\<lambda>execution.
            ret [(''status'', JStr (status_str (ex_status execution))),
                 (''context'', JObj (ex_context execution))])) w) anything"
    proof (rule keeps_if, rule keeps_raise, rule keeps_if, rule keeps_raise)
      assume "\<not> wf_tenant_id sub \<noteq> t"
      then have "wf_id sub \<in> ref (w_ticks v)"
        using own_workflow [OF v] t(1) wft.find_key [OF v(2)] own_is_ref by auto
      from start [OF t this]
      show "keeps J (w_ticks v) (andthen (lift_result (build_trigger_data E config ctx)) (\<lambda>trigger_data.
          andthen (start sub trigger_data t (d + 1)) (\<lambda>execution.
          ret [(''status'', JStr (status_str (ex_status execution))),
               (''context'', JObj (ex_context execution))]))) anything"
        by (intro keeps_then keeps_lift keeps_ret TrueI)
    qed
  qed
qed

lemma keeps_http: "keeps J N (http_execute E config ctx) anything"
  unfolding keeps_def
proof (intro allI impI)
  fix w assume "J w"
  moreover obtain n where "w_ticks w \<le> n" "snd (http_execute E config ctx w) = w\<lparr>w_ticks := n\<rparr>"
    using http_ticks by blast
  ultimately show "J (snd (http_execute E config ctx w)) \<and> w_ticks w \<le> w_ticks (snd (http_execute E config ctx w)) \<and>
      (\<forall>x. fst (http_execute E config ctx w) = Inr x \<longrightarrow> True)"
    by (simp add: clock)
qed

lemma run_step_with_keeps:
  assumes "\<And>flow trigger t d M. may t \<Longrightarrow> t < 2 ^ 128 \<Longrightarrow> wf_id flow \<in> ref M \<Longrightarrow> keeps J M (start flow trigger t d) anything"
  shows "invariant_runner E J own ref may (run_step_with E start)"
proof
  fix ctx N and s :: step_definition assume "names may ctx"
  then have sub: "keeps J N (sub_workflow_execute E start (sd_config s) ctx) anything"
    by (rule keeps_sub_workflow [OF _ assms])
  show "keeps J N (run_step_with E start s ctx) anything"
    unfolding run_step_with_def
    by (cases "sd_type s") (simp_all add: keeps_http keeps_lift sub)
qed

lemma run_step_keeps: "invariant_runner E J own ref may (run_step n E)"
proof (induction n)
  case 0
  show ?case unfolding run_step_def
    by (rule run_step_with_keeps) (simp add: keeps_raise del: raise_run)
next
  case (Suc n)
  show ?case unfolding run_step_def
  proof (rule run_step_with_keeps)
    fix flow :: workflow and trigger t d M assume "may t" "t < 2 ^ 128" "wf_id flow \<in> ref M"
    then have "keeps J M (start_execution_with E (run_step n E) flow trigger t None d) (\<lambda>x M. ex_id x \<in> own M)"
      by (intro invariant_runner.keeps_start [OF Suc]) simp_all
    then show "keeps J M (sub_start (Suc n) E flow trigger t d) anything"
      by (auto simp: run_step_def intro: keeps_post)
  qed
qed

end

sublocale run_invariant \<subseteq> engine_steps: invariant_runner E J own ref may "run_step n E" for n
  by (rule run_step_keeps)

section \<open>The operations of a tenant\<close>

context run_invariant
begin

lemma keeps_start_execution:
  assumes "may T" "T < 2 ^ 128" "wf_id flow \<in> ref N" "\<And>i. replayed = Some i \<Longrightarrow> i \<in> ref N"
  shows "keeps J N (start_execution E flow trigger T replayed depth) (\<lambda>x M. ex_id x \<in> own M)"
  unfolding start_execution_def by (rule engine_steps.keeps_start [OF assms])

lemma keeps_start_plain:
  assumes "may T" "T < 2 ^ 128" "wf_id flow \<in> ref N"
  shows "keeps J N (start_execution E flow trigger T None depth) anything"
  by (rule keeps_post [OF keeps_start_execution [OF assms]]) simp_all

lemma opened_keeps: "J w \<Longrightarrow> J (opened E' w)"
  unfolding opened_def by (rule clock [OF transaction]) simp_all

lemma keeps_in_session:
  assumes "keeps J N m Q"
  shows "keeps J N (in_session E' m) Q"
  unfolding keeps_def
proof (intro allI impI)
  fix w assume w: "J w" "N \<le> w_ticks w"
  obtain r v where m: "m (opened E' w) = (r, v)" by (cases "m (opened E' w)")
  have ticks: "w_ticks (opened E' w) = Suc (w_ticks w)" by (simp add: opened_def)
  then have v: "J v" "Suc (w_ticks w) \<le> w_ticks v" "\<forall>x. r = Inr x \<longrightarrow> Q x (w_ticks v)"
    using assms [unfolded keeps_def, rule_format, OF opened_keeps [OF w(1)], of E'] m w(2) by auto
  show "J (snd (in_session E' m w)) \<and> w_ticks w \<le> w_ticks (snd (in_session E' m w)) \<and>
    (\<forall>x. fst (in_session E' m w) = Inr x \<longrightarrow> Q x (w_ticks (snd (in_session E' m w))))"
  proof (cases r)
    case (Inl e)
    with m have "in_session E' m w = (Inl e, w\<lparr>w_ticks := w_ticks v, w_events := w_events v\<rparr>)"
      by (simp add: in_session_Inl)
    then show ?thesis using rollback [OF w(1) v(1)] v(2) by simp
  next
    case (Inr x)
    with m have "in_session E' m w = (Inr x, v)" by (simp add: in_session_Inr)
    then show ?thesis using v Inr by simp
  qed
qed

lemma keeps_get_workflow:
  assumes "may T"
  shows "keeps J N (get_tenant_workflow i T) (\<lambda>f M. wf_tenant_id f = T \<and> wf_id f = i \<and> i \<in> own M)"
proof (rule keeps_option, rule get_tenant_workflow_def, rule keeps_raise)
  fix v f assume v: "J v" "find_workflow v i = Some f"
  then have "wf_id f = i" "wf_tenant_id f = T \<Longrightarrow> i \<in> own (w_ticks v)"
    using assms own_workflow by (auto dest: wft.find_key)
  then show "keeps J (w_ticks v) (\<lambda>w. if wf_tenant_id f = T then ret f w else raise (not_found ''Workflow'') w)
      (\<lambda>f M. wf_tenant_id f = T \<and> wf_id f = i \<and> i \<in> own M)"
    by (intro keeps_if keeps_ret keeps_raise) (auto intro: own_later)
qed

lemma keeps_get_execution:
  assumes "may T"
  shows "keeps J N (get_tenant_execution T i) (\<lambda>x M. ex_id x = i \<and> i \<in> own M)"
proof (rule keeps_option, rule get_tenant_execution_def, rule keeps_raise)
  fix v x assume v: "J v" "find_execution v i = Some x"
  then have "ex_id x = i" "ex_tenant_id x = T \<Longrightarrow> i \<in> own (w_ticks v)"
    using assms own_execution by (auto dest: ext.find_key)
  then show "keeps J (w_ticks v) (\<lambda>w. if ex_tenant_id x = T then ret x w else raise (not_found ''Execution'') w)
      (\<lambda>x M. ex_id x = i \<and> i \<in> own M)"
    by (intro keeps_if keeps_ret keeps_raise) (auto intro: own_later)
qed

lemma keeps_manual:
  assumes "may T" "T < 2 ^ 128"
  shows "keeps J N (manual_execute E T i body) anything"
  unfolding manual_execute_def
proof (rule keeps_in_session, rule keeps_andthen [OF keeps_get_workflow [OF assms(1)]])
  fix f :: workflow and M assume "wf_tenant_id f = T \<and> wf_id f = i \<and> i \<in> own M"
  then have "wf_id f \<in> ref M" using own_is_ref by blast
  then show "keeps J M (andthen (lift_result (validate_workflow_active f)) (\<lambda>_.
      andthen (start_execution E f [(''source'', JStr ''manual''), (''data'', JObj body)] T None 0)
        (\<lambda>execution. ret (ex_id execution)))) anything"
    by (intro keeps_then keeps_lift keeps_start_plain keeps_ret assms TrueI)
qed

lemma keeps_skip_steps:
  "\<forall>s\<in>set ss. se_id s \<in> own N \<Longrightarrow> keeps J N (skip_steps E ss) anything"
  by (induction ss) (auto intro!: keeps_then keeps_transition_step keeps_ret simp del: ret_run)

lemma keeps_cancel:
  assumes "may T"
  shows "keeps J N (cancel_execution E T i) anything"
  unfolding cancel_execution_def
proof (rule keeps_in_session, rule keeps_andthen [OF keeps_get_execution [OF assms]])
  fix x :: execution and M assume x: "ex_id x = i \<and> i \<in> own M"
  show "keeps J M (\<lambda>w. let steps = step_executions w (ex_id x)
      in andthen (transition_execution E (ex_id x) Cancelled) (\<lambda>_. andthen (skip_steps E steps) (\<lambda>_. ret True)) w) anything"
    unfolding Let_def
  proof (rule keeps_look [where m = "\<lambda>v. andthen (transition_execution E (ex_id x) Cancelled)
      (\<lambda>_. andthen (skip_steps E (step_executions v (ex_id x))) (\<lambda>_. ret True))"])
    fix v assume v: "J v" "M \<le> w_ticks v"
    then have i: "ex_id x \<in> own (w_ticks v)" using x own_later by blast
    then have "\<forall>s\<in>set (step_executions v (ex_id x)). se_id s \<in> own (w_ticks v)"
      using own_step [OF v(1)] by (auto simp: step_executions_def)
    then show "keeps J (w_ticks v) (andthen (transition_execution E (ex_id x) Cancelled)
        (\<lambda>_. andthen (skip_steps E (step_executions v (ex_id x))) (\<lambda>_. ret True))) anything"
      using i by (intro keeps_then keeps_transition_execution keeps_skip_steps keeps_ret TrueI)
  qed
qed

lemma keeps_replay:
  assumes "may T" "T < 2 ^ 128"
  shows "keeps J N (replay_execution_endpoint E T i d) anything"
proof -
  have "keeps J N (replay_execution E i T d) anything"
    unfolding replay_execution_def
  proof (rule keeps_andthen [OF keeps_get_execution [OF assms(1)]], rule keeps_andthen [OF keeps_get_workflow [OF assms(1)]])
    fix x :: execution and f :: workflow and M K assume "ex_id x = i \<and> i \<in> own M" "M \<le> K" "wf_tenant_id f = T \<and> wf_id f = ex_workflow_id x \<and> ex_workflow_id x \<in> own K"
    then have "wf_id f \<in> ref K" "i \<in> ref K" using own_is_ref own_later by auto
    then have start: "keeps J K (start_execution E f t T (Some i) 0) (\<lambda>x M. ex_id x \<in> own M)" for t
      by (intro keeps_start_execution assms) auto
    show "keeps J K (andthen (lift_result (validate_workflow_active f)) (\<lambda>_.
        andthen (lift_result (merge_override (ex_trigger_data x) d)) (\<lambda>trigger_data.
        start_execution E f trigger_data T (Some i) 0))) anything"
      by (intro keeps_then keeps_lift keeps_post [OF start] TrueI)
  qed
  then show ?thesis
    unfolding replay_execution_endpoint_def
    by (auto intro!: keeps_raise keeps_in_session keeps_then keeps_ret simp del: raise_run ret_run)
qed

end


context run_invariant
begin

lemma keeps_path: "keeps J N (generate_webhook_path E) anything"
  unfolding generate_webhook_path_def by (intro keeps_then keeps_post [OF keeps_uuid] keeps_ret TrueI)

lemma keeps_record_log:
  assumes "may T" "i \<in> ref N"
  shows "keeps J N (record_execution_log E T i level m st d) anything"
proof -
  have "keeps J N (andthen (generate_uuid E) (\<lambda>k w.
         let entry = \<lparr>lg_id = k, lg_tenant_id = T, lg_execution_id = i, lg_step_id = st,
               lg_level = level, lg_message = m, lg_data = d, lg_created_at = w_txn_now w\<rparr>
         in andthen (modify (\<lambda>w. w\<lparr>w_logs := w_logs w @ [entry]\<rparr>)) (\<lambda>_. ret entry) w)) anything"
    unfolding keeps_def
  proof (intro allI impI)
    fix w assume w: "J w" "N \<le> w_ticks w"
    let ?entry = "\<lparr>lg_id = env_uuid E (w_ticks w), lg_tenant_id = T, lg_execution_id = i, lg_step_id = st,
      lg_level = level, lg_message = m, lg_data = d, lg_created_at = w_txn_now w\<rparr>"
    have "J (w\<lparr>w_ticks := Suc (w_ticks w), w_logs := w_logs w @ [?entry]\<rparr>)"
      using w assms by (intro adds_log) (auto intro: ref_later)
    then show "J (snd (andthen (generate_uuid E) (\<lambda>k w.
         let entry = \<lparr>lg_id = k, lg_tenant_id = T, lg_execution_id = i, lg_step_id = st,
               lg_level = level, lg_message = m, lg_data = d, lg_created_at = w_txn_now w\<rparr>
         in andthen (modify (\<lambda>w. w\<lparr>w_logs := w_logs w @ [entry]\<rparr>)) (\<lambda>_. ret entry) w) w)) \<and>
       w_ticks w \<le> w_ticks (snd (andthen (generate_uuid E) (\<lambda>k w.
         let entry = \<lparr>lg_id = k, lg_tenant_id = T, lg_execution_id = i, lg_step_id = st,
               lg_level = level, lg_message = m, lg_data = d, lg_created_at = w_txn_now w\<rparr>
         in andthen (modify (\<lambda>w. w\<lparr>w_logs := w_logs w @ [entry]\<rparr>)) (\<lambda>_. ret entry) w) w)) \<and>
       (\<forall>x. fst (andthen (generate_uuid E) (\<lambda>k w.
         let entry = \<lparr>lg_id = k, lg_tenant_id = T, lg_execution_id = i, lg_step_id = st,
               lg_level = level, lg_message = m, lg_data = d, lg_created_at = w_txn_now w\<rparr>
         in andthen (modify (\<lambda>w. w\<lparr>w_logs := w_logs w @ [entry]\<rparr>)) (\<lambda>_. ret entry) w) w) = Inr x \<longrightarrow> True)"
      by (simp add: andthen_def generate_uuid_def Let_def)
  qed
  then show ?thesis
    unfolding record_execution_log_def by (auto intro!: keeps_raise simp del: raise_run)
qed

lemma keeps_log_delivery:
  assumes "may T" "i \<in> ref N"
  shows "keeps J N (log_webhook_delivery E T i m h p ip st None reason) (\<lambda>k M. k \<in> own M)"
  unfolding log_webhook_delivery_def
proof (rule keeps_insert)
  fix w assume "J w" "N \<le> w_ticks w"
  with assms show "J (add_delivery
      \<lparr>wd_id = env_uuid E (w_ticks w), wd_tenant_id = T, wd_workflow_id = i, wd_execution_id = None,
        wd_method = m, wd_headers = h, wd_payload = p, wd_source_ip = ip, wd_status = st,
        wd_rejection_reason = reason, wd_created_at = w_txn_now (w\<lparr>w_ticks := Suc (w_ticks w)\<rparr>)\<rparr>
      (w\<lparr>w_ticks := Suc (w_ticks w)\<rparr>))"
    by (intro adds_delivery) (auto intro: ref_later)
next
  fix k M assume "k \<in> own M"
  then show "keeps J M (ret k) (\<lambda>k M. k \<in> own M)" by (intro keeps_ret) (auto intro: own_later)
qed simp

lemma keeps_trigger_delivery:
  assumes "may (wf_tenant_id f)" "wf_tenant_id f < 2 ^ 128" "wf_id f \<in> ref N"
  shows "keeps J N (trigger_delivery E f rq p) anything"
  unfolding trigger_delivery_def
proof (rule keeps_andthen [OF keeps_log_delivery [OF assms(1,3)]], rule keeps_on_error)
  fix k M assume k: "N \<le> M" "k \<in> own M"
  have change: "keeps J K (modify (upd_delivery k h)) anything"
    if "M \<le> K" "\<And>d. wd_id (h d) = wd_id d" "\<And>d. wd_tenant_id (h d) = wd_tenant_id d"
      "\<And>d. wd_workflow_id (h d) = wd_workflow_id d"
      "\<And>d k. wd_execution_id (h d) = Some k \<Longrightarrow> wd_execution_id d = Some k \<or> k \<in> ref K" for K h
  proof (rule keeps_modify)
    fix w assume w: "J w" "K \<le> w_ticks w"
    have "wd_execution_id (h d) = Some i \<Longrightarrow> wd_execution_id d = Some i \<or> i \<in> ref (w_ticks w)" for d i
      using that(5) [of d i] w(2) ref_later by blast
    then show "J (upd_delivery k h w)"
      using w that k by (intro changed_delivery) (auto intro: own_later)
  qed (simp_all add: upd_delivery_def)
  show "keeps J M (andthen (start_execution E f [(''payload'', p), (''headers'', JObj (request_headers rq))]
        (wf_tenant_id f) None 0) (\<lambda>execution.
       andthen (modify (upd_delivery k (\<lambda>d. d\<lparr>wd_status := ''accepted'', wd_execution_id := Some (ex_id execution)\<rparr>))) (\<lambda>_.
       ret (json_reply 202 (JObj [(''execution_id'', JStr (uuid_str (ex_id execution)))]))))) anything"
  proof (rule keeps_andthen [OF keeps_start_execution])
    fix x K assume "M \<le> K" "ex_id x \<in> own K"
    then show "keeps J K (andthen (modify (upd_delivery k (\<lambda>d. d\<lparr>wd_status := ''accepted'', wd_execution_id := Some (ex_id x)\<rparr>))) (\<lambda>_.
        ret (json_reply 202 (JObj [(''execution_id'', JStr (uuid_str (ex_id x)))])))) anything"
      by (intro keeps_then change keeps_ret TrueI) (auto intro: own_is_ref)
  qed (use assms k ref_later in auto)
  show "keeps J M (andthen (modify (upd_delivery k (\<lambda>d. d\<lparr>wd_status := ''error'', wd_rejection_reason := Some (exn_str e)\<rparr>))) (\<lambda>_.
      raise e)) anything" for e
    by (intro keeps_then change keeps_raise) auto
qed

lemma keeps_handle_delivery:
  assumes "may (wf_tenant_id f)" "wf_tenant_id f < 2 ^ 128" "wf_id f \<in> ref N"
  shows "keeps J N (handle_delivery E f rq p) anything"
proof -
  have "keeps J N (reject_delivery E f rq p m rep) anything" for m rep
    unfolding reject_delivery_def
    by (intro keeps_then keeps_post [OF keeps_log_delivery] keeps_ret assms TrueI)
  then show ?thesis
    unfolding handle_delivery_def
    using keeps_trigger_delivery [OF assms]
    by (auto intro!: keeps_raise split: option.split sum.split exn.split simp del: raise_run)
qed

lemma keeps_cron:
  assumes "uuid_parse t = Inr T" "may T"
    and flow: "\<And>w k f. uuid_parse i = Inr k \<Longrightarrow> J w \<Longrightarrow> find_workflow w k = Some f \<Longrightarrow> wf_id f \<in> ref (w_ticks w)"
  shows "keeps J N (execute_cron_workflow E i t) anything"
proof -
  have T: "T < 2 ^ 128" using json_uuid_bound [of "JStr t"] assms(1) by simp
  have parsed: "andthen (lift_result (Inr T)) k = k T" for k :: "uuid \<Rightarrow> (world, unit) proc"
    by (simp add: andthen_def fun_eq_iff)
  have start: "wf_id f \<in> ref M \<Longrightarrow> keeps J M (andthen (start_execution E f d T None 0) (\<lambda>_. ret ())) anything" for f d M
    by (intro keeps_then keeps_start_plain keeps_ret assms(2) T TrueI)
  have "keeps J M (cron_session E d i t) anything" for d M
    unfolding cron_session_def assms(1)
  proof (rule keeps_andthen [where R = "\<lambda>k M. uuid_parse i = Inr k"], rule keeps_lift, assumption, rule keeps_option, rule refl,
      rule keeps_ret, rule TrueI)
    fix k v f assume "uuid_parse i = Inr k" "J v" "find_workflow v k = Some f"
    then show "keeps J (w_ticks v) (\<lambda>w. if \<not> wf_is_active f then ret () w else andthen (lift_result (Inr T)) (\<lambda>t.
        andthen (start_execution E f d t None 0) (\<lambda>_. ret ())) w) anything"
      unfolding parsed using flow by (intro keeps_if keeps_ret start TrueI)
  qed
  then show ?thesis
    unfolding execute_cron_workflow_def
    by (intro keeps_then keeps_now keeps_on_error keeps_in_session keeps_ret TrueI)
qed

text \<open>The task of the queue, on a step and an execution that may be changed.\<close>

lemma keeps_worker_attempt:
  assumes "i \<in> own N" "j \<in> own N"
  shows "keeps J N (worker_attempt E j i t context) anything"
proof (rule keeps_option, rule worker_attempt_def, rule keeps_raise)
  fix v and r :: step_execution assume v: "N \<le> w_ticks v"
  have "keeps J (w_ticks v) (worker_run E (stored_step_def t r) (get_step_input context (se_step_id r) [])) anything"
    unfolding worker_run_def by (rule engine_steps.run_keeps [OF names_get_input])
  then show "keeps J (w_ticks v) (andthen (worker_run E (stored_step_def t r) (get_step_input context (se_step_id r) [])) (\<lambda>output.
        andthen (transition_step E j Completed None) (\<lambda>_.
        andthen (modify (upd_step j (\<lambda>r. r\<lparr>se_output_data := Some output\<rparr>))) (\<lambda>_.
        andthen (merge_step_output i (se_step_id r) output) (\<lambda>_.
        ret output))))) anything"
    using assms v by (intro keeps_then keeps_transition_step keeps_change_step keeps_merge keeps_ret TrueI) (auto intro: own_later)
qed

lemma keeps_execute_step:
  assumes "\<And>j. uuid_parse se = Inr j \<Longrightarrow> j \<in> own N" "\<And>i. uuid_parse ex = Inr i \<Longrightarrow> i \<in> own N"
  shows "keeps J N (execute_step E factory se ex) anything"
proof -
  have session: "keeps J M (execute_in_session E se ex j i) anything" if ids: "j \<in> own M" "i \<in> own M" for M i j
  proof (rule keeps_option, rule execute_in_session_def, rule keeps_raise, rule keeps_option, rule refl, rule keeps_raise)
    fix u v :: world and p :: step_execution and x :: execution assume "w_ticks u \<le> w_ticks v" "M \<le> w_ticks u"
    then have own: "j \<in> own (w_ticks v)" "i \<in> own (w_ticks v)"
      using ids own_later le_trans by blast+
    have failed: "keeps J (w_ticks v) (worker_failed E j e) anything" for e
      unfolding worker_failed_def
      by (intro keeps_then keeps_change_step keeps_transition_step keeps_ret own TrueI) simp_all
    show "keeps J (w_ticks v) (andthen (transition_step E j Running None) (\<lambda>_.
        andthen (lift_result (step_type_of (se_step_type p))) (\<lambda>t.
        if t \<notin> set STEP_REGISTRY
        then andthen (transition_step E j Failed (Some (exn_str (unsupported_type (se_step_type p))))) (\<lambda>_.
              ret (Inl (unsupported_type (se_step_type p))))
        else on_error (andthen (worker_attempt E j i t (ex_context x)) (\<lambda>output. ret (Inr output)))
              (worker_failed E j)))) anything"
      using own failed
      by (auto intro!: keeps_then keeps_transition_step keeps_lift keeps_on_error keeps_worker_attempt keeps_ret
          simp del: lift_result_run ret_run)
  qed
  have "keeps J N (andthen (lift_result (uuid_parse se)) (\<lambda>j. andthen (lift_result (uuid_parse ex)) (\<lambda>i.
      andthen (in_session E (execute_in_session E se ex j i)) lift_result))) anything"
  proof (rule keeps_andthen [where R = "\<lambda>j M. j \<in> own M"], rule keeps_lift)
    fix j M assume j: "N \<le> M" "j \<in> own M"
    show "keeps J M (andthen (lift_result (uuid_parse ex)) (\<lambda>i.
        andthen (in_session E (execute_in_session E se ex j i)) lift_result)) anything"
    proof (rule keeps_andthen [where R = "\<lambda>i M. i \<in> own M"], rule keeps_lift)
      fix i K assume "M \<le> K" "i \<in> own K"
      then show "keeps J K (andthen (in_session E (execute_in_session E se ex j i)) lift_result) anything"
        using j own_later by (intro keeps_then keeps_in_session session keeps_lift TrueI) blast+
    qed (use assms j own_later le_trans in blast)
  qed (use assms own_later in blast)
  then show ?thesis
    unfolding execute_step_def by (auto intro!: keeps_raise simp del: raise_run)
qed

lemma keeps_receive:
  assumes "J (fst s)" "resolve_workflow now now' p (fst s) (snd s) = (Inr flow, c)"
    and "may (wf_tenant_id flow)" "wf_tenant_id flow < 2 ^ 128" "wf_id flow \<in> ref (w_ticks (fst s))"
    and "receive_webhook E loads now now' p rq s = (r, s')"
  shows "J (fst s') \<and> w_ticks (fst s) \<le> w_ticks (fst s')"
proof -
  have ticks: "w_ticks (opened E (fst s)) = Suc (w_ticks (fst s))" by (simp add: opened_def)
  have handled: "J w' \<and> w_ticks (fst s) \<le> w_ticks w'"
    if "handle_delivery E flow rq payload (opened E (fst s)) = (r, w')" for payload r w'
    using keeps_handle_delivery [OF assms(3-5), of rq payload, unfolded keeps_def, rule_format, OF opened_keeps [OF assms(1), of E]]
      that ticks by auto
  consider "s' = s" | payload w' where "handle_delivery E flow rq payload (opened E (fst s)) = (r, w')" "s' = (w', c)"
    using assms(2,6) by (auto elim!: receive_webhook_cases)
  then show ?thesis using handled assms(1) by cases auto
qed

end

context service_invariant
begin

lemma keeps_create_workflow:
  assumes "may T"
  shows "keeps J N (create_workflow E T b) anything"
proof -
  have insert: "keeps J M (insert_workflow E T b p) anything" for p M
    unfolding keeps_def
  proof (intro allI impI)
    fix w assume w: "J w" "M \<le> w_ticks w"
    let ?i = "env_uuid E (w_ticks w)" let ?v = "w\<lparr>w_ticks := Suc (w_ticks w)\<rparr>"
    let ?f = "new_workflow ?i T b p (w_txn_now w)"
    have run: "insert_workflow E T b p w = commit_workflow ?f (add_workflow ?f) ?v"
      by (simp add: insert_workflow_def andthen_def generate_uuid_def Let_def)
    have "J (add_workflow ?f ?v)" using w assms by (intro adds_workflow) (simp_all add: new_workflow_def)
    then show "J (snd (insert_workflow E T b p w)) \<and> w_ticks w \<le> w_ticks (snd (insert_workflow E T b p w)) \<and>
        (\<forall>x. fst (insert_workflow E T b p w) = Inr x \<longrightarrow> True)"
      using ticked [OF w(1)] by (simp add: run commit_workflow_def add_workflow_def)
  qed
  show ?thesis
    unfolding create_workflow_def
    by (intro keeps_then keeps_lift keeps_in_session keeps_ret insert TrueI)
      (auto intro!: keeps_then keeps_path keeps_ret simp del: ret_run)
qed

lemma keeps_commit:
  "(\<And>w. J w \<Longrightarrow> N \<le> w_ticks w \<Longrightarrow> J (write w)) \<Longrightarrow> (\<And>w. w_ticks (write w) = w_ticks w) \<Longrightarrow>
    keeps J N (commit_workflow f write) anything"
  by (simp add: keeps_def commit_workflow_def)

lemma keeps_modify_workflow:
  assumes "may T"
  shows "keeps J N (modify_workflow E T i b) anything"
  unfolding modify_workflow_def
proof (rule keeps_andthen [OF keeps_get_workflow [OF assms]])
  fix f :: workflow and M assume f: "wf_tenant_id f = T \<and> wf_id f = i \<and> i \<in> own M"
  show "keeps J M (andthen (lift_result (apply_steps E b (apply_fields b f))) (\<lambda>flow.
      andthen (apply_trigger E b (apply_secret b flow)) (\<lambda>flow. commit_workflow flow (upd_workflow i (\<lambda>_. flow))))) anything"
  proof (rule keeps_andthen [where R = "\<lambda>g M. wf_tenant_id g = T \<and> wf_id g = i"], rule keeps_lift)
    fix g :: workflow assume "apply_steps E b (apply_fields b f) = Inr g"
    from apply_steps_Inr [OF this] f show "wf_tenant_id g = T \<and> wf_id g = i" by simp
  next
    fix g :: workflow and K assume g: "M \<le> K" "wf_tenant_id g = T \<and> wf_id g = i"
    show "keeps J K (andthen (apply_trigger E b (apply_secret b g)) (\<lambda>flow.
        commit_workflow flow (upd_workflow i (\<lambda>_. flow)))) anything"
    proof (rule keeps_andthen [where R = "\<lambda>g M. wf_tenant_id g = T \<and> wf_id g = i"])
      show "keeps J K (apply_trigger E b (apply_secret b g)) (\<lambda>g M. wf_tenant_id g = T \<and> wf_id g = i)"
        unfolding apply_trigger_def Let_def using g
        by (auto intro!: keeps_then keeps_path keeps_ret split: option.split simp del: ret_run)
    next
      fix h :: workflow and L assume "K \<le> L" "wf_tenant_id h = T \<and> wf_id h = i"
      then show "keeps J L (commit_workflow h (upd_workflow i (\<lambda>_. h))) anything"
        using f g(1) assms by (intro keeps_commit changed_workflow) (auto simp: upd_workflow_def intro: own_later)
    qed
  qed
qed

lemma keeps_remove_workflow:
  assumes "may T"
  shows "keeps J N (andthen (get_tenant_workflow i T) (\<lambda>flow. modify (cascade_delete i))) anything"
  by (rule keeps_andthen [OF keeps_get_workflow [OF assms]])
    (auto intro!: keeps_modify deleted simp: cascade_delete_def Let_def intro: own_later simp del: modify_run)

end

section \<open>What is done for a tenant\<close>

type_synonym service = "world \<times> workflow_cache"

text \<open>
  One operation for tenant \<open>T\<close>, whether it succeeds or not. \<open>runs\<close>: a request with its key that
  starts or stops a run, or a task of the queue on a step of one of its executions; \<open>handles\<close>: any
  request with its key or task; \<open>acts\<close>: also an entry in a log, a webhook to one of its paths, a
  tick of one of its schedules.
\<close>

inductive runs :: "env \<Rightarrow> uuid \<Rightarrow> service \<Rightarrow> service \<Rightarrow> bool" for E :: env and T :: uuid where
  triggers: "on_database (manual_execute E T i body) s = (r, s') \<Longrightarrow> runs E T s s'"
| cancels: "on_database (cancel_execution E T i) s = (r, s') \<Longrightarrow> runs E T s s'"
| replays: "on_database (replay_execution_endpoint E T i body) s = (r, s') \<Longrightarrow> runs E T s s'"
| works: "uuid_parse ex = Inr i \<Longrightarrow> find_execution (fst s) i = Some x \<Longrightarrow> ex_tenant_id x = T \<Longrightarrow>
    uuid_parse se = Inr j \<Longrightarrow> find_step (fst s) j = Some p \<Longrightarrow> se_execution_id p = i \<Longrightarrow>
    on_database (execute_step E factory se ex) s = (r, s') \<Longrightarrow> runs E T s s'"

inductive handles :: "env \<Rightarrow> uuid \<Rightarrow> service \<Rightarrow> service \<Rightarrow> bool" for E :: env and T :: uuid where
  creates: "on_database (create_workflow E T b) s = (r, s') \<Longrightarrow> handles E T s s'"
| updates: "update_workflow E T i u s = (r, s') \<Longrightarrow> handles E T s s'"
| deletes: "delete_workflow E T i s = (r, s') \<Longrightarrow> handles E T s s'"
| started: "runs E T s s' \<Longrightarrow> handles E T s s'"

inductive acts :: "env \<Rightarrow> uuid \<Rightarrow> service \<Rightarrow> service \<Rightarrow> bool" for E :: env and T :: uuid where
  handled: "handles E T s s' \<Longrightarrow> acts E T s s'"
| logs: "on_database (in_session E (record_execution_log E T i level m st d)) s = (r, s') \<Longrightarrow> acts E T s s'"
| receives: "resolve_workflow now now' p (fst s) (snd s) = (Inr flow, c) \<Longrightarrow> wf_tenant_id flow = T \<Longrightarrow>
    receive_webhook E loads now now' p rq s = (r, s') \<Longrightarrow> acts E T s s'"
| ticks: "uuid_parse t = Inr T \<Longrightarrow> on_database (execute_cron_workflow E i' t) s = (r, s') \<Longrightarrow> acts E T s s'"

lemma keeps_database_run:
  "keeps J N m Q \<Longrightarrow> on_database m s = (r, s') \<Longrightarrow> J (fst s) \<Longrightarrow> N \<le> w_ticks (fst s) \<Longrightarrow>
    J (fst s') \<and> w_ticks (fst s) \<le> w_ticks (fst s')"
  unfolding keeps_def on_database_def by (auto split: prod.splits dest!: spec [of _ "fst s"])

text \<open>The two handlers that also write the cache write the database first.\<close>

lemma update_workflow_database:
  "update_workflow E T i u s = (r, s') \<Longrightarrow> fst s' = snd (in_session E (modify_workflow E T i u) (fst s)) \<and>
    (snd s' = snd s \<or> (\<exists>k. snd s' = invalidate k (snd s)))"
  by (auto simp: update_workflow_def andthen_def on_database_def on_cache_def split: prod.splits sum.splits)

lemma delete_workflow_database:
  "delete_workflow E T i s = (r, s') \<Longrightarrow> fst s' = snd (in_session E (andthen (get_tenant_workflow i T) (\<lambda>flow.
      modify (cascade_delete i))) (fst s)) \<and> (snd s' = snd s \<or> (\<exists>k. snd s' = invalidate k (snd s)))"
  by (auto simp: delete_workflow_def andthen_def on_database_def on_cache_def split: prod.splits sum.splits)

context run_invariant
begin

lemma runs_keeps:
  assumes "runs E T s s'" "may T" "T < 2 ^ 128" "J (fst s)"
  shows "J (fst s') \<and> w_ticks (fst s) \<le> w_ticks (fst s')"
  using assms(1)
proof cases
  case (triggers i body r)
  then show ?thesis by (rule keeps_database_run [OF keeps_manual [OF assms(2,3)] _ assms(4) le0])
next
  case (cancels i r)
  then show ?thesis by (rule keeps_database_run [OF keeps_cancel [OF assms(2)] _ assms(4) le0])
next
  case (replays i body r)
  then show ?thesis by (rule keeps_database_run [OF keeps_replay [OF assms(2,3)] _ assms(4) le0])
next
  case (works ex i x se j p factory r)
  have i: "i \<in> own (w_ticks (fst s))" by (rule own_execution [OF assms(4) works(2)]) (use works(3) assms(2) in simp)
  have "p \<in> set (w_steps (fst s))" "se_id p = j"
    using works(5) by (auto simp: find_step_def dest: find_SomeD)
  then have "j \<in> own (w_ticks (fst s))" using own_step [OF assms(4)] i works(6) by blast
  then have "keeps J (w_ticks (fst s)) (execute_step E factory se ex) anything"
    using i works(1,4) by (intro keeps_execute_step) simp_all
  from keeps_database_run [OF this works(7) assms(4)] show ?thesis by simp
qed

end

context service_invariant
begin

lemma handles_keeps:
  assumes "handles E T s s'" "may T" "T < 2 ^ 128" "J (fst s)"
  shows "J (fst s') \<and> w_ticks (fst s) \<le> w_ticks (fst s')"
  using assms(1)
proof cases
  case (creates b r)
  then show ?thesis by (rule keeps_database_run [OF keeps_create_workflow [OF assms(2)] _ assms(4) le0])
next
  case (updates i u r)
  show ?thesis
    using keeps_in_session [OF keeps_modify_workflow [OF assms(2)], of 0 E i u, unfolded keeps_def] assms(4)
      update_workflow_database [OF updates] by simp
next
  case (deletes i r)
  show ?thesis
    using keeps_in_session [OF keeps_remove_workflow [OF assms(2)], of 0 E i, unfolded keeps_def] assms(4)
      delete_workflow_database [OF deletes] by simp
next
  case started
  from runs_keeps [OF this assms(2-4)] show ?thesis .
qed

lemma acts_keeps:
  assumes "acts E T s s'" "may T" "T < 2 ^ 128" "J (fst s)" and ref: "\<And>i N. i \<in> ref N"
  shows "J (fst s') \<and> w_ticks (fst s) \<le> w_ticks (fst s')"
  using assms(1)
proof cases
  case handled
  from handles_keeps [OF this assms(2-4)] show ?thesis .
next
  case (logs i level m st d r)
  then show ?thesis by (rule keeps_database_run [OF keeps_in_session [OF keeps_record_log [OF assms(2) ref]] _ assms(4) le0])
next
  case (receives now now' p flow c loads rq r)
  then show ?thesis by (intro keeps_receive [OF assms(4) receives(1) _ _ ref receives(3)]) (use assms in simp_all)
next
  case (ticks t i' r)
  then show ?thesis by (intro keeps_database_run [OF keeps_cron [OF ticks(1) assms(2) ref] ticks(2) assms(4) le0])
qed

end

end
