(* ===== verification/Isolation.thy ===== *)
theory Isolation
  imports Invariants
begin

text \<open>
  Tenants are kept apart: whatever the other tenants do, in any number of requests, webhooks and
  scheduled runs, the rows of a tenant are the same rows in the same order, and so is everything
  the tenant can read. That a tenant's rows are what they were, and that no row of another tenant
  and no identifier still to be drawn touches them, is an invariant with the contract of
  \<open>service_invariant\<close>.
\<close>

section \<open>The rows of a tenant\<close>

record tenant_rows =
  tv_workflows :: "workflow list"
  tv_executions :: "execution list"
  tv_steps :: "step_execution list"
  tv_logs :: "execution_log list"
  tv_deliveries :: "webhook_delivery list"

definition rows_of :: "uuid \<Rightarrow> world \<Rightarrow> tenant_rows" where
  "rows_of U w = \<lparr>tv_workflows = filter (\<lambda>f. wf_tenant_id f = U) (w_workflows w),
     tv_executions = filter (\<lambda>x. ex_tenant_id x = U) (w_executions w),
     tv_steps = filter (\<lambda>s. se_tenant_id s = U) (w_steps w),
     tv_logs = filter (\<lambda>l. lg_tenant_id l = U) (w_logs w),
     tv_deliveries = filter (\<lambda>d. wd_tenant_id d = U) (w_deliveries w)\<rparr>"

text \<open>The identifiers in these rows, their own and the ones they refer to.\<close>

definition idents :: "tenant_rows \<Rightarrow> uuid set" where
  "idents V = wf_id ` set (tv_workflows V) \<union> ex_id ` set (tv_executions V) \<union>
     ex_workflow_id ` set (tv_executions V) \<union> (\<Union>x\<in>set (tv_executions V). set_option (ex_replayed_from x)) \<union>
     se_id ` set (tv_steps V) \<union> se_execution_id ` set (tv_steps V) \<union> lg_execution_id ` set (tv_logs V) \<union>
     wd_id ` set (tv_deliveries V) \<union> wd_workflow_id ` set (tv_deliveries V) \<union>
     (\<Union>d\<in>set (tv_deliveries V). set_option (wd_execution_id d))"

text \<open>
  The invariant: the tenant's rows are \<open>V\<close>; no identifier still to be drawn is one of theirs, and
  no row of another tenant has one of theirs as its key, names its tenant in its context, or is a
  step of one of its executions.
\<close>

definition apart :: "env \<Rightarrow> uuid \<Rightarrow> tenant_rows \<Rightarrow> world \<Rightarrow> bool" where
  "apart E U V w \<longleftrightarrow> rows_of U w = V \<and> (\<forall>n\<ge>w_ticks w. env_uuid E n \<notin> idents V) \<and>
    (\<forall>f\<in>set (w_workflows w). wf_tenant_id f \<noteq> U \<longrightarrow> wf_id f \<notin> idents V) \<and>
    (\<forall>x\<in>set (w_executions w). ex_tenant_id x \<noteq> U \<longrightarrow> ex_id x \<notin> idents V \<and> names (\<lambda>t. t \<noteq> U) (ex_context x)) \<and>
    (\<forall>s\<in>set (w_steps w). se_tenant_id s \<noteq> U \<longrightarrow> se_id s \<notin> idents V \<and> se_execution_id s \<notin> idents V) \<and>
    (\<forall>d\<in>set (w_deliveries w). wd_tenant_id d \<noteq> U \<longrightarrow> wd_id d \<notin> idents V)"

definition separated :: "env \<Rightarrow> uuid \<Rightarrow> world \<Rightarrow> bool" where
  "separated E U w = apart E U (rows_of U w) w"

lemma apart_separated: "apart E U V w \<Longrightarrow> separated E U w \<and> rows_of U w = V"
  by (simp add: separated_def apart_def)

text \<open>What the invariant says of a single row.\<close>

lemma own_idents:
  assumes "apart E U V w"
  shows "f \<in> set (w_workflows w) \<Longrightarrow> wf_tenant_id f = U \<Longrightarrow> wf_id f \<in> idents V"
    and "x \<in> set (w_executions w) \<Longrightarrow> ex_tenant_id x = U \<Longrightarrow> ex_id x \<in> idents V \<and> ex_workflow_id x \<in> idents V"
    and "x \<in> set (w_executions w) \<Longrightarrow> ex_tenant_id x = U \<Longrightarrow> ex_replayed_from x = Some i \<Longrightarrow> i \<in> idents V"
    and "s \<in> set (w_steps w) \<Longrightarrow> se_tenant_id s = U \<Longrightarrow> se_id s \<in> idents V \<and> se_execution_id s \<in> idents V"
    and "l \<in> set (w_logs w) \<Longrightarrow> lg_tenant_id l = U \<Longrightarrow> lg_execution_id l \<in> idents V"
    and "d \<in> set (w_deliveries w) \<Longrightarrow> wd_tenant_id d = U \<Longrightarrow> wd_id d \<in> idents V \<and> wd_workflow_id d \<in> idents V"
    and "d \<in> set (w_deliveries w) \<Longrightarrow> wd_tenant_id d = U \<Longrightarrow> wd_execution_id d = Some i \<Longrightarrow> i \<in> idents V"
proof -
  have "rows_of U w = V" using assms by (simp add: apart_def)
  then have V: "tv_workflows V = filter (\<lambda>f. wf_tenant_id f = U) (w_workflows w)"
     "tv_executions V = filter (\<lambda>x. ex_tenant_id x = U) (w_executions w)"
     "tv_steps V = filter (\<lambda>s. se_tenant_id s = U) (w_steps w)"
     "tv_logs V = filter (\<lambda>l. lg_tenant_id l = U) (w_logs w)"
     "tv_deliveries V = filter (\<lambda>d. wd_tenant_id d = U) (w_deliveries w)"
    by (auto simp: rows_of_def)
  show "f \<in> set (w_workflows w) \<Longrightarrow> wf_tenant_id f = U \<Longrightarrow> wf_id f \<in> idents V"
    by (simp add: idents_def V)
  show "x \<in> set (w_executions w) \<Longrightarrow> ex_tenant_id x = U \<Longrightarrow> ex_id x \<in> idents V \<and> ex_workflow_id x \<in> idents V"
    by (simp add: idents_def V)
  show "x \<in> set (w_executions w) \<Longrightarrow> ex_tenant_id x = U \<Longrightarrow> ex_replayed_from x = Some i \<Longrightarrow> i \<in> idents V"
    by (force simp: idents_def V)
  show "s \<in> set (w_steps w) \<Longrightarrow> se_tenant_id s = U \<Longrightarrow> se_id s \<in> idents V \<and> se_execution_id s \<in> idents V"
    by (simp add: idents_def V)
  show "l \<in> set (w_logs w) \<Longrightarrow> lg_tenant_id l = U \<Longrightarrow> lg_execution_id l \<in> idents V"
    by (simp add: idents_def V)
  show "d \<in> set (w_deliveries w) \<Longrightarrow> wd_tenant_id d = U \<Longrightarrow> wd_id d \<in> idents V \<and> wd_workflow_id d \<in> idents V"
    by (simp add: idents_def V)
  show "d \<in> set (w_deliveries w) \<Longrightarrow> wd_tenant_id d = U \<Longrightarrow> wd_execution_id d = Some i \<Longrightarrow> i \<in> idents V"
    by (force simp: idents_def V)
qed

section \<open>Tables\<close>

lemma filter_map_other:
  "(\<And>r. r \<in> set rs \<Longrightarrow> P (g r) = P r \<and> (P r \<longrightarrow> g r = r)) \<Longrightarrow> filter P (map g rs) = filter P rs"
  by (induction rs) auto

lemma filter_map_filter_other:
  "(\<And>r. P (g r) = P r) \<Longrightarrow> (\<And>r. r \<in> set rs \<Longrightarrow> P r \<Longrightarrow> Q r \<and> g r = r) \<Longrightarrow>
    filter P (map g (filter Q rs)) = filter P rs"
  by (induction rs) auto

lemma filter_filter_other: "(\<And>r. r \<in> set rs \<Longrightarrow> P r \<Longrightarrow> Q r) \<Longrightarrow> filter P (filter Q rs) = filter P rs"
  by (auto intro: filter_cong)

lemma apart_stamps [simp]:
  "apart E U V (w\<lparr>w_events := es\<rparr>) = apart E U V w" "apart E U V (w\<lparr>w_txn_now := t\<rparr>) = apart E U V w"
  by (simp_all add: apart_def rows_of_def)

lemma apart_ticks: "apart E U V w \<Longrightarrow> w_ticks w \<le> n \<Longrightarrow> apart E U V (w\<lparr>w_ticks := n\<rparr>)"
  by (simp add: apart_def rows_of_def)

lemma apart_rollback: "apart E U V w \<Longrightarrow> apart E U V w' \<Longrightarrow> apart E U V (w\<lparr>w_ticks := w_ticks w', w_events := es\<rparr>)"
  by (simp add: apart_def rows_of_def)

lemma apart_add_execution:
  "apart E U V w \<Longrightarrow> ex_tenant_id r \<noteq> U \<Longrightarrow> ex_id r \<notin> idents V \<Longrightarrow> names (\<lambda>t. t \<noteq> U) (ex_context r) \<Longrightarrow>
    apart E U V (add_execution r w)"
  by (auto simp: apart_def rows_of_def add_execution_def)

lemma apart_add_step:
  "apart E U V w \<Longrightarrow> se_tenant_id r \<noteq> U \<Longrightarrow> se_id r \<notin> idents V \<Longrightarrow> se_execution_id r \<notin> idents V \<Longrightarrow>
    apart E U V (add_step r w)"
  by (auto simp: apart_def rows_of_def add_step_def)

lemma apart_add_workflow:
  "apart E U V w \<Longrightarrow> wf_tenant_id r \<noteq> U \<Longrightarrow> wf_id r \<notin> idents V \<Longrightarrow> apart E U V (add_workflow r w)"
  by (auto simp: apart_def rows_of_def add_workflow_def)

lemma apart_add_delivery:
  "apart E U V w \<Longrightarrow> wd_tenant_id r \<noteq> U \<Longrightarrow> wd_id r \<notin> idents V \<Longrightarrow> apart E U V (add_delivery r w)"
  by (auto simp: apart_def rows_of_def add_delivery_def)

lemma apart_add_log: "apart E U V w \<Longrightarrow> lg_tenant_id r \<noteq> U \<Longrightarrow> apart E U V (w\<lparr>w_logs := w_logs w @ [r]\<rparr>)"
  by (auto simp: apart_def rows_of_def)

lemma apart_upd_execution:
  assumes "apart E U V w" "i \<notin> idents V" "\<And>x. ex_id (f x) = ex_id x" "\<And>x. ex_tenant_id (f x) = ex_tenant_id x"
    and "\<And>x. names (\<lambda>t. t \<noteq> U) (ex_context x) \<Longrightarrow> names (\<lambda>t. t \<noteq> U) (ex_context (f x))"
  shows "apart E U V (upd_execution i f w)"
proof -
  let ?g = "\<lambda>r. if ex_id r = i then f r else r"
  have "filter (\<lambda>x. ex_tenant_id x = U) (map ?g (w_executions w)) = filter (\<lambda>x. ex_tenant_id x = U) (w_executions w)"
    by (rule filter_map_other) (use own_idents(2) [OF assms(1)] assms(2,4) in auto)
  then show ?thesis
    using assms by (auto simp: apart_def rows_of_def upd_execution_def)
qed

lemma apart_upd_step:
  assumes "apart E U V w" "i \<notin> idents V" "\<And>x. se_id (f x) = se_id x" "\<And>x. se_tenant_id (f x) = se_tenant_id x"
    and "\<And>x. se_execution_id (f x) = se_execution_id x"
  shows "apart E U V (upd_step i f w)"
proof -
  let ?g = "\<lambda>r. if se_id r = i then f r else r"
  have "filter (\<lambda>x. se_tenant_id x = U) (map ?g (w_steps w)) = filter (\<lambda>x. se_tenant_id x = U) (w_steps w)"
    by (rule filter_map_other) (use own_idents(4) [OF assms(1)] assms(2,4) in auto)
  then show ?thesis
    using assms by (auto simp: apart_def rows_of_def upd_step_def)
qed

lemma apart_upd_workflow:
  assumes "apart E U V w" "i \<notin> idents V" "wf_id f = i" "wf_tenant_id f \<noteq> U"
  shows "apart E U V (upd_workflow i (\<lambda>_. f) w)"
proof -
  let ?g = "\<lambda>r. if wf_id r = i then f else r"
  have "filter (\<lambda>x. wf_tenant_id x = U) (map ?g (w_workflows w)) = filter (\<lambda>x. wf_tenant_id x = U) (w_workflows w)"
    by (rule filter_map_other) (use own_idents(1) [OF assms(1)] assms(2,4) in auto)
  then show ?thesis
    using assms by (auto simp: apart_def rows_of_def upd_workflow_def)
qed

lemma apart_upd_delivery:
  assumes "apart E U V w" "i \<notin> idents V" "\<And>x. wd_id (f x) = wd_id x" "\<And>x. wd_tenant_id (f x) = wd_tenant_id x"
  shows "apart E U V (upd_delivery i f w)"
proof -
  let ?g = "\<lambda>r. if wd_id r = i then f r else r"
  have "filter (\<lambda>x. wd_tenant_id x = U) (map ?g (w_deliveries w)) = filter (\<lambda>x. wd_tenant_id x = U) (w_deliveries w)"
    by (rule filter_map_other) (use own_idents(6) [OF assms(1)] assms(2,4) in auto)
  then show ?thesis
    using assms by (auto simp: apart_def rows_of_def upd_delivery_def)
qed

text \<open>
  The cascade of a deletion stays among the rows of other tenants: no row of \<open>U\<close> refers to the
  workflow or to one of the executions that go with it.
\<close>

lemma apart_cascade_delete:
  assumes "apart E U V w" "i \<notin> idents V"
  shows "apart E U V (cascade_delete i w)"
proof -
  define gone where "gone = set (map ex_id (filter (\<lambda>x. ex_workflow_id x = i) (w_executions w)))"
  define unlink where "unlink = (\<lambda>r. case r of Some j \<Rightarrow> if j \<in> gone then None else Some j | None \<Rightarrow> None)"
  note own = own_idents [OF assms(1)]
  have gone: "gone \<inter> idents V = {}"
    using assms own(2) by (auto simp: gone_def apart_def)
  have keep: "unlink r = r" if "\<And>j. r = Some j \<Longrightarrow> j \<in> idents V" for r
    using that gone by (cases r) (auto simp: unlink_def)
  have deleted: "cascade_delete i w = w\<lparr>w_workflows := filter (\<lambda>f. wf_id f \<noteq> i) (w_workflows w),
      w_executions := map (\<lambda>x. x\<lparr>ex_replayed_from := unlink (ex_replayed_from x)\<rparr>) (filter (\<lambda>x. ex_workflow_id x \<noteq> i) (w_executions w)),
      w_steps := filter (\<lambda>s. se_execution_id s \<notin> gone) (w_steps w),
      w_logs := filter (\<lambda>l. lg_execution_id l \<notin> gone) (w_logs w),
      w_deliveries := map (\<lambda>d. d\<lparr>wd_execution_id := unlink (wd_execution_id d)\<rparr>) (filter (\<lambda>d. wd_workflow_id d \<noteq> i) (w_deliveries w))\<rparr>"
    by (simp only: cascade_delete_def gone_def unlink_def Let_def)
  have "filter (\<lambda>f. wf_tenant_id f = U) (filter (\<lambda>f. wf_id f \<noteq> i) (w_workflows w)) = filter (\<lambda>f. wf_tenant_id f = U) (w_workflows w)"
    by (rule filter_filter_other) (use own(1) assms(2) in auto)
  moreover have "filter (\<lambda>x. ex_tenant_id x = U) (map (\<lambda>x. x\<lparr>ex_replayed_from := unlink (ex_replayed_from x)\<rparr>)
      (filter (\<lambda>x. ex_workflow_id x \<noteq> i) (w_executions w))) = filter (\<lambda>x. ex_tenant_id x = U) (w_executions w)"
    by (rule filter_map_filter_other) (use own(2,3) assms(2) in \<open>force simp: keep\<close>)+
  moreover have "filter (\<lambda>s. se_tenant_id s = U) (filter (\<lambda>s. se_execution_id s \<notin> gone) (w_steps w)) = filter (\<lambda>s. se_tenant_id s = U) (w_steps w)"
    by (rule filter_filter_other) (use own(4) gone in auto)
  moreover have "filter (\<lambda>l. lg_tenant_id l = U) (filter (\<lambda>l. lg_execution_id l \<notin> gone) (w_logs w)) = filter (\<lambda>l. lg_tenant_id l = U) (w_logs w)"
    by (rule filter_filter_other) (use own(5) gone in auto)
  moreover have "filter (\<lambda>d. wd_tenant_id d = U) (map (\<lambda>d. d\<lparr>wd_execution_id := unlink (wd_execution_id d)\<rparr>)
      (filter (\<lambda>d. wd_workflow_id d \<noteq> i) (w_deliveries w))) = filter (\<lambda>d. wd_tenant_id d = U) (w_deliveries w)"
    by (rule filter_map_filter_other) (use own(6,7) assms(2) in \<open>force simp: keep\<close>)+
  ultimately show ?thesis
    using assms(1) by (auto simp: deleted apart_def rows_of_def)
qed

section \<open>The invariant\<close>

lemma found_execution:
  assumes "apart E U V w" "find_execution w i = Some x" "i \<notin> idents V"
  shows "ex_tenant_id x \<noteq> U" "names (\<lambda>t. t \<noteq> U) (ex_context x)"
proof -
  have x: "x \<in> set (w_executions w)" "ex_id x = i"
    using assms(2) by (auto simp: find_execution_def dest: find_SomeD)
  then show "ex_tenant_id x \<noteq> U" using own_idents(2) [OF assms(1)] assms(3) by blast
  then show "names (\<lambda>t. t \<noteq> U) (ex_context x)" using assms(1) x(1) by (simp add: apart_def)
qed

lemma foreign_rows:
  assumes "apart E U V w"
  shows "find_execution w i = Some x \<Longrightarrow> ex_tenant_id x \<noteq> U \<Longrightarrow> i \<notin> idents V"
    and "find_workflow w i = Some f \<Longrightarrow> wf_tenant_id f \<noteq> U \<Longrightarrow> i \<notin> idents V"
    and "s \<in> set (w_steps w) \<Longrightarrow> se_execution_id s \<notin> idents V \<Longrightarrow> se_id s \<notin> idents V"
proof -
  show "find_execution w i = Some x \<Longrightarrow> ex_tenant_id x \<noteq> U \<Longrightarrow> i \<notin> idents V"
    using assms by (auto simp: find_execution_def apart_def dest!: find_SomeD)
  show "find_workflow w i = Some f \<Longrightarrow> wf_tenant_id f \<noteq> U \<Longrightarrow> i \<notin> idents V"
    using assms by (auto simp: find_workflow_def apart_def dest!: find_SomeD)
  show "s \<in> set (w_steps w) \<Longrightarrow> se_execution_id s \<notin> idents V \<Longrightarrow> se_id s \<notin> idents V"
    using own_idents(4) [OF assms] assms unfolding apart_def by blast
qed

lemma apart_service: "service_invariant E (apart E U V) (\<lambda>N. - idents V) (\<lambda>N. UNIV) (\<lambda>t. t \<noteq> U)"
proof
  fix w w' n assume w: "apart E U V w"
  show "w_ticks w \<le> n \<Longrightarrow> apart E U V (w\<lparr>w_ticks := n\<rparr>)" by (rule apart_ticks [OF w])
  show "apart E U V w' \<Longrightarrow> w_ticks w \<le> w_ticks w' \<Longrightarrow> apart E U V (w\<lparr>w_ticks := w_ticks w', w_events := w_events w'\<rparr>)"
    by (rule apart_rollback [OF w])
  show drawn: "env_uuid E (w_ticks w) \<in> - idents V" using w by (simp add: apart_def)
  have later: "apart E U V (w\<lparr>w_ticks := Suc (w_ticks w)\<rparr>)" by (rule apart_ticks [OF w]) simp
  show "ex_id r = env_uuid E (w_ticks w) \<Longrightarrow> ex_tenant_id r \<noteq> U \<Longrightarrow> names (\<lambda>t. t \<noteq> U) (ex_context r) \<Longrightarrow>
      apart E U V (add_execution r (w\<lparr>w_ticks := Suc (w_ticks w)\<rparr>))" for r
    by (rule apart_add_execution [OF later]) (use drawn in simp_all)
  show "se_id s = env_uuid E (w_ticks w) \<Longrightarrow> se_tenant_id s \<noteq> U \<Longrightarrow> se_execution_id s \<in> - idents V \<Longrightarrow>
      apart E U V (add_step s (w\<lparr>w_ticks := Suc (w_ticks w)\<rparr>))" for s
    by (rule apart_add_step [OF later]) (use drawn in simp_all)
  show "wf_id g = env_uuid E (w_ticks w) \<Longrightarrow> wf_tenant_id g \<noteq> U \<Longrightarrow>
      apart E U V (add_workflow g (w\<lparr>w_ticks := Suc (w_ticks w)\<rparr>))" for g
    by (rule apart_add_workflow [OF later]) (use drawn in simp_all)
  show "wd_id d = env_uuid E (w_ticks w) \<Longrightarrow> wd_tenant_id d \<noteq> U \<Longrightarrow>
      apart E U V (add_delivery d (w\<lparr>w_ticks := Suc (w_ticks w)\<rparr>))" for d
    by (rule apart_add_delivery [OF later]) (use drawn in simp_all)
  show "lg_tenant_id l \<noteq> U \<Longrightarrow> apart E U V (w\<lparr>w_ticks := Suc (w_ticks w), w_logs := w_logs w @ [l]\<rparr>)" for l
    using apart_add_log [OF later] by simp
qed (auto intro!: apart_upd_execution apart_upd_step apart_upd_workflow apart_upd_delivery apart_cascade_delete
  simp: foreign_rows found_execution ex_base_def se_base_def)

interpretation iso: service_invariant E "apart E U V" "\<lambda>N. - idents V" "\<lambda>N. UNIV" "\<lambda>t. t \<noteq> U" for E U V
  by (rule apart_service)

section \<open>What the tenant reads\<close>

lemma find_filter:
  assumes "\<And>x y. x \<in> set xs \<Longrightarrow> y \<in> set xs \<Longrightarrow> P y \<Longrightarrow> k x = k y \<Longrightarrow> P x"
  shows "List.find (\<lambda>x. k x = i) (filter P xs) =
    (case List.find (\<lambda>x. k x = i) xs of None \<Rightarrow> None | Some x \<Rightarrow> if P x then Some x else None)"
  using assms
proof (induction xs)
  case Nil
  then show ?case by simp
next
  case (Cons x xs)
  have IH: "List.find (\<lambda>x. k x = i) (filter P xs) =
    (case List.find (\<lambda>x. k x = i) xs of None \<Rightarrow> None | Some x \<Rightarrow> if P x then Some x else None)"
    by (rule Cons.IH) (use Cons.prems in \<open>meson list.set_intros(2)\<close>)
  have "List.find (\<lambda>x. k x = i) (filter P xs) = None" if "k x = i" "\<not> P x"
    unfolding find_None_iff using Cons.prems [of x] that by (auto simp: eq_commute [of "k x"])
  with IH show ?case by auto
qed

lemma reads_execution:
  assumes "apart E U V w"
  shows "get_tenant_execution U i w =
    (case List.find (\<lambda>x. ex_id x = i) (tv_executions V) of
       None \<Rightarrow> (Inl (not_found ''Execution''), w) | Some x \<Rightarrow> (Inr x, w))"
proof -
  have V: "tv_executions V = filter (\<lambda>x. ex_tenant_id x = U) (w_executions w)"
    using assms by (auto simp: apart_def rows_of_def)
  show ?thesis
    unfolding V get_tenant_execution_def find_execution_def
    by (subst find_filter) (use own_idents(2) [OF assms] assms in \<open>auto simp: apart_def split: option.split\<close>)
qed

lemma reads_workflow:
  assumes "apart E U V w"
  shows "get_tenant_workflow i U w =
    (case List.find (\<lambda>f. wf_id f = i) (tv_workflows V) of
       None \<Rightarrow> (Inl (not_found ''Workflow''), w) | Some f \<Rightarrow> (Inr f, w))"
proof -
  have V: "tv_workflows V = filter (\<lambda>f. wf_tenant_id f = U) (w_workflows w)"
    using assms by (auto simp: apart_def rows_of_def)
  show ?thesis
    unfolding V get_tenant_workflow_def find_workflow_def
    by (subst find_filter) (use own_idents(1) [OF assms] assms in \<open>auto simp: apart_def split: option.split\<close>)
qed

lemma reads_steps:
  assumes "apart E U V w" "i \<in> idents V"
  shows "step_executions w i = filter (\<lambda>s. se_execution_id s = i) (tv_steps V)"
proof -
  have "tv_steps V = filter (\<lambda>s. se_tenant_id s = U) (w_steps w)"
    using assms(1) by (auto simp: apart_def rows_of_def)
  then show ?thesis
    using assms by (auto simp: step_executions_def apart_def intro!: filter_cong)
qed

text \<open>Two worlds with the same rows of a tenant give it the same answers.\<close>

lemma same_answers:
  assumes w: "apart E U V w" and w': "apart E U V w'"
  shows "fst (get_execution U i w') = fst (get_execution U i w)"
    and "fst (get_execution_logs U i st w') = fst (get_execution_logs U i st w)"
    and "fst (get_workflow U i w') = fst (get_workflow U i w)"
    and "list_executions U f n c w' = list_executions U f n c w"
    and "list_workflows U g n c w' = list_workflows U g n c w"
proof -
  have V: "filter (\<lambda>f. wf_tenant_id f = U) (w_workflows w') = filter (\<lambda>f. wf_tenant_id f = U) (w_workflows w)"
    "filter (\<lambda>x. ex_tenant_id x = U) (w_executions w') = filter (\<lambda>x. ex_tenant_id x = U) (w_executions w)"
    "filter (\<lambda>l. lg_tenant_id l = U) (w_logs w') = filter (\<lambda>l. lg_tenant_id l = U) (w_logs w)"
    using assms by (auto simp: apart_def rows_of_def)
  have found: "ex_id x \<in> idents V" if "List.find (\<lambda>x. ex_id x = i) (tv_executions V) = Some x" for x
    using find_SomeD [OF that] by (auto simp: idents_def)
  show "fst (get_execution U i w') = fst (get_execution U i w)"
    unfolding get_execution_def andthen_def reads_execution [OF w] reads_execution [OF w']
    using reads_steps [OF w] reads_steps [OF w'] found by (auto split: option.split)
  have logs: "filter (\<lambda>l. lg_execution_id l = i \<and> lg_tenant_id l = U \<and> P l) (w_logs v) =
      filter (\<lambda>l. lg_execution_id l = i \<and> P l) (filter (\<lambda>l. lg_tenant_id l = U) (w_logs v))" for P v
    unfolding filter_filter by (rule filter_cong) auto
  show "fst (get_execution_logs U i st w') = fst (get_execution_logs U i st w)"
    unfolding get_execution_logs_def andthen_def reads_execution [OF w] reads_execution [OF w']
    by (cases "List.find (\<lambda>x. ex_id x = i) (tv_executions V)")
      (simp_all only: option.case prod.case sum.case ret_def fst_conv logs V(3))
  show "fst (get_workflow U i w') = fst (get_workflow U i w)"
    unfolding get_workflow_def andthen_def reads_workflow [OF w] reads_workflow [OF w'] by (simp split: option.split)
  have "filter (\<lambda>x. ex_tenant_id x = U \<and> P x) (w_executions w') = filter (\<lambda>x. ex_tenant_id x = U \<and> P x) (w_executions w)" for P
    using arg_cong [OF V(2), of "filter P"] by simp
  then have "matching_executions U f w' = matching_executions U f w" unfolding matching_executions_def .
  then show "list_executions U f n c w' = list_executions U f n c w" by (simp add: list_executions_def)
  have "filter (\<lambda>x. wf_tenant_id x = U \<and> P x) (w_workflows w') = filter (\<lambda>x. wf_tenant_id x = U \<and> P x) (w_workflows w)" for P
    using arg_cong [OF V(1), of "filter P"] by simp
  then have "matching_workflows U g w' = matching_workflows U g w" unfolding matching_workflows_def .
  then show "list_workflows U g n c w' = list_workflows U g n c w" by (simp add: list_workflows_def)
qed

section \<open>What the others do\<close>

inductive others :: "env \<Rightarrow> uuid \<Rightarrow> service \<Rightarrow> service \<Rightarrow> bool" for E :: env and U :: uuid and s :: service where
  nothing: "others E U s s"
| more: "others E U s v \<Longrightarrow> acts E T v v' \<Longrightarrow> T \<noteq> U \<Longrightarrow> T < 2 ^ 128 \<Longrightarrow> others E U s v'"

lemma acts_apart:
  "acts E T s s' \<Longrightarrow> apart E U V (fst s) \<Longrightarrow> T \<noteq> U \<Longrightarrow> T < 2 ^ 128 \<Longrightarrow> apart E U V (fst s')"
  using iso.acts_keeps by blast

lemma others_apart:
  assumes "others E U s s'" "apart E U V (fst s)"
  shows "apart E U V (fst s')"
  using assms by induction (blast intro: acts_apart)+

end
