(* ===== verification/Migrations.thy ===== *)
theory Migrations
  imports Workflows
begin

text \<open>
  The database schema: the three Alembic revisions of \<open>src/db/migrations/alembic/versions\<close> and
  the tables the ORM models of \<open>src/db/models\<close> declare. A revision is the list of its statements;
  \<open>apply_ddl\<close> is what PostgreSQL documents of each of them: a statement about something that is
  missing, or that would create something twice, raises, and so does dropping a table another one
  refers to. A revision runs in one transaction (\<open>env.py\<close>).
\<close>

section \<open>Statements\<close>

datatype column_type = UuidType | TextType | BooleanType | TimestampType | JsonbType | IntegerType

record column =
  co_name :: string
  co_type :: column_type
  co_default :: "string option"
  co_nullable :: bool

datatype on_delete = Cascade | SetNull

datatype table_constraint =
    ForeignKey string string string on_delete
  | PrimaryKey string
  | Unique string

record table_def =
  ta_name :: string
  ta_columns :: "column list"
  ta_constraints :: "table_constraint list"

record index_def =
  ix_name :: string
  ix_table :: string
  ix_columns :: "string list"

datatype ddl =
    CreateTable table_def
  | DropTable string
  | CreateIndex index_def
  | DropIndex string
  | CreateRole string
  | GrantAll string
  | RevokeAll string
  | EnableRls string
  | DisableRls string
  | CreatePolicy string string string
  | DropPolicy string string

record schema =
  sc_tables :: "table_def list"
  sc_indexes :: "index_def list"
  sc_roles :: "string list"
  sc_grants :: "(string \<times> string) list"
  sc_rls :: "string list"
  sc_policies :: "(string \<times> string \<times> string) list"

definition empty_schema :: schema where
  "empty_schema = \<lparr>sc_tables = [], sc_indexes = [], sc_roles = [], sc_grants = [], sc_rls = [], sc_policies = []\<rparr>"

definition table_names :: "schema \<Rightarrow> string list" where
  "table_names s = map ta_name (sc_tables s)"

fun refers_to :: "string \<Rightarrow> table_constraint \<Rightarrow> bool" where
  "refers_to n (ForeignKey c t k a) = (t = n)"
| "refers_to n _ = False"

definition targets_exist :: "schema \<Rightarrow> table_def \<Rightarrow> bool" where
  "targets_exist s t = list_all (\<lambda>k. case k of ForeignKey c u d a \<Rightarrow> u = ta_name t \<or> u \<in> set (table_names s) | _ \<Rightarrow> True)
     (ta_constraints t)"

definition columns_exist :: "schema \<Rightarrow> index_def \<Rightarrow> bool" where
  "columns_exist s i = list_ex (\<lambda>t. ta_name t = ix_table i \<and> set (ix_columns i) \<subseteq> co_name ` set (ta_columns t)) (sc_tables s)"

definition ddl_error :: "(schema, unit) proc" where
  "ddl_error = raise (PyError ''ProgrammingError'' ''statement refused'')"

definition check_ddl :: "bool \<Rightarrow> (schema \<Rightarrow> schema) \<Rightarrow> (schema, unit) proc" where
  "check_ddl c f = (if c then modify f else ddl_error)"

fun apply_ddl :: "ddl \<Rightarrow> (schema, unit) proc" where
  "apply_ddl (CreateTable t) s =
    check_ddl (ta_name t \<notin> set (table_names s) \<and> targets_exist s t) (\<lambda>s. s\<lparr>sc_tables := sc_tables s @ [t]\<rparr>) s"
| "apply_ddl (DropTable n) s =
    check_ddl (n \<in> set (table_names s) \<and>
        list_all (\<lambda>t. ta_name t = n \<or> \<not> list_ex (refers_to n) (ta_constraints t)) (sc_tables s))
      (\<lambda>s. s\<lparr>sc_tables := filter (\<lambda>t. ta_name t \<noteq> n) (sc_tables s),
        sc_indexes := filter (\<lambda>i. ix_table i \<noteq> n) (sc_indexes s),
        sc_grants := filter (\<lambda>g. snd g \<noteq> n) (sc_grants s),
        sc_rls := filter (\<lambda>t. t \<noteq> n) (sc_rls s),
        sc_policies := filter (\<lambda>(p, t, c). t \<noteq> n) (sc_policies s)\<rparr>) s"
| "apply_ddl (CreateIndex i) s =
    check_ddl (ix_name i \<notin> set (map ix_name (sc_indexes s)) \<and> columns_exist s i)
      (\<lambda>s. s\<lparr>sc_indexes := sc_indexes s @ [i]\<rparr>) s"
| "apply_ddl (DropIndex n) s =
    check_ddl (n \<in> set (map ix_name (sc_indexes s)))
      (\<lambda>s. s\<lparr>sc_indexes := filter (\<lambda>i. ix_name i \<noteq> n) (sc_indexes s)\<rparr>) s"
| "apply_ddl (CreateRole r) s = modify (\<lambda>s. if r \<in> set (sc_roles s) then s else s\<lparr>sc_roles := sc_roles s @ [r]\<rparr>) s"
| "apply_ddl (GrantAll r) s =
    modify (\<lambda>s. s\<lparr>sc_grants := filter (\<lambda>g. fst g \<noteq> r) (sc_grants s) @ map (Pair r) (table_names s)\<rparr>) s"
| "apply_ddl (RevokeAll r) s = modify (\<lambda>s. s\<lparr>sc_grants := filter (\<lambda>g. fst g \<noteq> r) (sc_grants s)\<rparr>) s"
| "apply_ddl (EnableRls t) s =
    check_ddl (t \<in> set (table_names s))
      (\<lambda>s. if t \<in> set (sc_rls s) then s else s\<lparr>sc_rls := sc_rls s @ [t]\<rparr>) s"
| "apply_ddl (DisableRls t) s =
    check_ddl (t \<in> set (table_names s)) (\<lambda>s. s\<lparr>sc_rls := filter (\<lambda>u. u \<noteq> t) (sc_rls s)\<rparr>) s"
| "apply_ddl (CreatePolicy p t c) s =
    check_ddl (t \<in> set (table_names s) \<and> list_all (\<lambda>(q, u, d). \<not> (q = p \<and> u = t)) (sc_policies s))
      (\<lambda>s. s\<lparr>sc_policies := sc_policies s @ [(p, t, c)]\<rparr>) s"
| "apply_ddl (DropPolicy p t) s =
    modify (\<lambda>s. s\<lparr>sc_policies := filter (\<lambda>(q, u, d). \<not> (q = p \<and> u = t)) (sc_policies s)\<rparr>) s"

fun run_ddl :: "ddl list \<Rightarrow> (schema, unit) proc" where
  "run_ddl [] = ret ()"
| "run_ddl (d # ds) = andthen (apply_ddl d) (\<lambda>_. run_ddl ds)"

section \<open>The revisions\<close>

abbreviation "col n t d \<equiv> \<lparr>co_name = n, co_type = t, co_default = d, co_nullable = False\<rparr>"
abbreviation "null n t \<equiv> \<lparr>co_name = n, co_type = t, co_default = None, co_nullable = True\<rparr>"

abbreviation "id_column \<equiv> col ''id'' UuidType (Some ''gen_random_uuid()'')"
abbreviation "tenant_column \<equiv> col ''tenant_id'' UuidType None"
abbreviation "time_column n \<equiv> col n TimestampType (Some ''now()'')"
abbreviation "json_column n \<equiv> col n JsonbType (Some (quoted ''{}'' @ ''::jsonb''))"
abbreviation "status_column d \<equiv> col ''status'' TextType (Some (quoted d))"
abbreviation "active_column \<equiv> col ''is_active'' BooleanType (Some ''true'')"
abbreviation "tenant_key \<equiv> ForeignKey ''tenant_id'' ''tenants'' ''id'' Cascade"
abbreviation "workflow_key \<equiv> ForeignKey ''workflow_id'' ''workflows'' ''id'' Cascade"
abbreviation "execution_key a \<equiv> ForeignKey ''execution_id'' ''executions'' ''id'' a"

definition upgrade_dacb983d2a66 :: "ddl list" where
  "upgrade_dacb983d2a66 =
    [CreateTable \<lparr>ta_name = ''tenants'', ta_columns =
       [id_column, col ''name'' TextType None, col ''api_key_hash'' TextType None,
        col ''api_key_prefix'' TextType None, active_column, time_column ''created_at'', time_column ''updated_at''],
       ta_constraints = [PrimaryKey ''id'', Unique ''api_key_prefix'']\<rparr>,
     CreateIndex \<lparr>ix_name = ''ix_tenants_is_active'', ix_table = ''tenants'', ix_columns = [''is_active'']\<rparr>,
     CreateTable \<lparr>ta_name = ''workflows'', ta_columns =
       [id_column, tenant_column, col ''name'' TextType None, null ''description'' TextType,
        col ''trigger_type'' TextType None, json_column ''trigger_config'', col ''steps'' JsonbType None,
        active_column, null ''webhook_path'' TextType, null ''webhook_secret'' TextType,
        time_column ''created_at'', time_column ''updated_at''],
       ta_constraints = [tenant_key, PrimaryKey ''id'', Unique ''webhook_path'']\<rparr>,
     CreateIndex \<lparr>ix_name = ''ix_workflows_tenant_is_active'', ix_table = ''workflows'',
       ix_columns = [''tenant_id'', ''is_active'']\<rparr>,
     CreateIndex \<lparr>ix_name = ''ix_workflows_tenant_trigger_type'', ix_table = ''workflows'',
       ix_columns = [''tenant_id'', ''trigger_type'']\<rparr>,
     CreateIndex \<lparr>ix_name = ''ix_workflows_webhook_path'', ix_table = ''workflows'',
       ix_columns = [''webhook_path'']\<rparr>]"

definition downgrade_dacb983d2a66 :: "ddl list" where
  "downgrade_dacb983d2a66 =
    [DropIndex ''ix_workflows_webhook_path'', DropIndex ''ix_workflows_tenant_trigger_type'',
     DropIndex ''ix_workflows_tenant_is_active'', DropTable ''workflows'',
     DropIndex ''ix_tenants_is_active'', DropTable ''tenants'']"

definition upgrade_fa83d4b59092 :: "ddl list" where
  "upgrade_fa83d4b59092 =
    [CreateTable \<lparr>ta_name = ''executions'', ta_columns =
       [id_column, tenant_column, col ''workflow_id'' UuidType None, status_column ''pending'',
        json_column ''trigger_data'', json_column ''context'', null ''replayed_from'' UuidType,
        null ''started_at'' TimestampType, null ''completed_at'' TimestampType, null ''error'' TextType,
        null ''duration_ms'' IntegerType, time_column ''created_at''],
       ta_constraints = [ForeignKey ''replayed_from'' ''executions'' ''id'' SetNull, tenant_key, workflow_key,
         PrimaryKey ''id'']\<rparr>,
     CreateIndex \<lparr>ix_name = ''ix_executions_tenant_status_created'', ix_table = ''executions'',
       ix_columns = [''tenant_id'', ''status'', ''created_at'']\<rparr>,
     CreateIndex \<lparr>ix_name = ''ix_executions_tenant_workflow_status'', ix_table = ''executions'',
       ix_columns = [''tenant_id'', ''workflow_id'', ''status'']\<rparr>,
     CreateTable \<lparr>ta_name = ''execution_logs'', ta_columns =
       [id_column, tenant_column, col ''execution_id'' UuidType None, null ''step_id'' TextType,
        col ''level'' TextType None, col ''message'' TextType None, json_column ''data'', time_column ''created_at''],
       ta_constraints = [execution_key Cascade, tenant_key, PrimaryKey ''id'']\<rparr>,
     CreateIndex \<lparr>ix_name = ''ix_execution_logs_tenant_execution_created'', ix_table = ''execution_logs'',
       ix_columns = [''tenant_id'', ''execution_id'', ''created_at'']\<rparr>,
     CreateTable \<lparr>ta_name = ''step_executions'', ta_columns =
       [id_column, tenant_column, col ''execution_id'' UuidType None, col ''step_id'' TextType None,
        col ''step_type'' TextType None, status_column ''pending'', json_column ''input_data'',
        null ''output_data'' JsonbType, null ''error'' TextType, col ''attempt'' IntegerType (Some ''1''),
        col ''max_attempts'' IntegerType (Some ''3''), null ''started_at'' TimestampType,
        null ''completed_at'' TimestampType, null ''duration_ms'' IntegerType, time_column ''created_at''],
       ta_constraints = [execution_key Cascade, tenant_key, PrimaryKey ''id'']\<rparr>,
     CreateIndex \<lparr>ix_name = ''ix_step_executions_tenant_execution_step'', ix_table = ''step_executions'',
       ix_columns = [''tenant_id'', ''execution_id'', ''step_id'']\<rparr>,
     CreateIndex \<lparr>ix_name = ''ix_step_executions_tenant_status'', ix_table = ''step_executions'',
       ix_columns = [''tenant_id'', ''status'']\<rparr>,
     CreateTable \<lparr>ta_name = ''webhook_deliveries'', ta_columns =
       [id_column, tenant_column, col ''workflow_id'' UuidType None, null ''execution_id'' UuidType,
        col ''method'' TextType None, json_column ''headers'', json_column ''payload'', null ''source_ip'' TextType,
        status_column ''received'', null ''rejection_reason'' TextType, time_column ''created_at''],
       ta_constraints = [execution_key SetNull, tenant_key, workflow_key, PrimaryKey ''id'']\<rparr>,
     CreateIndex \<lparr>ix_name = ''ix_webhook_deliveries_tenant_workflow_created'', ix_table = ''webhook_deliveries'',
       ix_columns = [''tenant_id'', ''workflow_id'', ''created_at'']\<rparr>]"

definition downgrade_fa83d4b59092 :: "ddl list" where
  "downgrade_fa83d4b59092 =
    [DropIndex ''ix_webhook_deliveries_tenant_workflow_created'', DropTable ''webhook_deliveries'',
     DropIndex ''ix_step_executions_tenant_status'', DropIndex ''ix_step_executions_tenant_execution_step'',
     DropTable ''step_executions'',
     DropIndex ''ix_execution_logs_tenant_execution_created'', DropTable ''execution_logs'',
     DropIndex ''ix_executions_tenant_workflow_status'', DropIndex ''ix_executions_tenant_status_created'',
     DropTable ''executions'']"

definition TENANT_ID_TABLES :: "string list" where
  "TENANT_ID_TABLES = [''workflows'', ''executions'', ''step_executions'', ''execution_logs'', ''webhook_deliveries'']"

definition policy_name :: string where
  "policy_name = ''tenant_isolation_policy''"

definition upgrade_b4c1e7f23a01 :: "ddl list" where
  "upgrade_b4c1e7f23a01 =
    [CreateRole ''app_user'', GrantAll ''app_user'',
     EnableRls ''tenants'', CreatePolicy policy_name ''tenants'' ''id''] @
    concat (map (\<lambda>t. [EnableRls t, CreatePolicy policy_name t ''tenant_id'']) TENANT_ID_TABLES)"

definition downgrade_b4c1e7f23a01 :: "ddl list" where
  "downgrade_b4c1e7f23a01 =
    concat (map (\<lambda>t. [DropPolicy policy_name t, DisableRls t]) TENANT_ID_TABLES) @
    [DropPolicy policy_name ''tenants'', DisableRls ''tenants'', RevokeAll ''app_user'']"

section \<open>Running them\<close>

text \<open>
  \<open>env.py\<close>: the URL comes from the environment or the settings, and the revisions Alembic picks
  run in one transaction, which an exception rolls back.
\<close>

definition get_url :: "string option \<Rightarrow> settings \<Rightarrow> string" where
  "get_url environ s = (case environ of None \<Rightarrow> database_url s | Some url \<Rightarrow> url)"

definition do_run_migrations :: "(schema, unit) proc \<Rightarrow> (schema, unit) proc" where
  "do_run_migrations run_migrations s =
    (case run_migrations s of (Inl e, s') \<Rightarrow> (Inl e, s) | (Inr u, s') \<Rightarrow> (Inr u, s'))"

lemma do_run_migrations_failed:
  assumes "do_run_migrations m s = (Inl e, s')" shows "s' = s"
  using assms by (auto simp: do_run_migrations_def split: prod.splits sum.splits)

section \<open>What the models declare\<close>

text \<open>
  \<open>Base.metadata\<close>: each mapped column with the constraints it carries, and the indexes of
  \<open>__table_args__\<close>.
\<close>

record orm_model =
  om_tablename :: string
  om_columns :: "(column \<times> table_constraint list) list"
  om_indexes :: "index_def list"

abbreviation "plain c \<equiv> (c, [])"
abbreviation "orm_id \<equiv> (id_column, [PrimaryKey ''id''])"
abbreviation "orm_tenant_id \<equiv> (tenant_column, [tenant_key])"

definition orm_tenant :: orm_model where
  "orm_tenant = \<lparr>om_tablename = ''tenants'', om_columns =
     [orm_id, plain (col ''name'' TextType None), plain (col ''api_key_hash'' TextType None),
      (col ''api_key_prefix'' TextType None, [Unique ''api_key_prefix'']), plain active_column,
      plain (time_column ''created_at''), plain (time_column ''updated_at'')],
     om_indexes = [\<lparr>ix_name = ''ix_tenants_is_active'', ix_table = ''tenants'', ix_columns = [''is_active'']\<rparr>]\<rparr>"

definition orm_workflow :: orm_model where
  "orm_workflow = \<lparr>om_tablename = ''workflows'', om_columns =
     [orm_id, orm_tenant_id, plain (col ''name'' TextType None), plain (null ''description'' TextType),
      plain (col ''trigger_type'' TextType None), plain (json_column ''trigger_config''),
      plain (col ''steps'' JsonbType None), plain active_column,
      (null ''webhook_path'' TextType, [Unique ''webhook_path'']), plain (null ''webhook_secret'' TextType),
      plain (time_column ''created_at''), plain (time_column ''updated_at'')],
     om_indexes =
      [\<lparr>ix_name = ''ix_workflows_tenant_is_active'', ix_table = ''workflows'', ix_columns = [''tenant_id'', ''is_active'']\<rparr>,
       \<lparr>ix_name = ''ix_workflows_tenant_trigger_type'', ix_table = ''workflows'', ix_columns = [''tenant_id'', ''trigger_type'']\<rparr>,
       \<lparr>ix_name = ''ix_workflows_webhook_path'', ix_table = ''workflows'', ix_columns = [''webhook_path'']\<rparr>]\<rparr>"

definition orm_execution :: orm_model where
  "orm_execution = \<lparr>om_tablename = ''executions'', om_columns =
     [orm_id, orm_tenant_id, (col ''workflow_id'' UuidType None, [workflow_key]), plain (status_column ''pending''),
      plain (json_column ''trigger_data''), plain (json_column ''context''),
      (null ''replayed_from'' UuidType, [ForeignKey ''replayed_from'' ''executions'' ''id'' SetNull]),
      plain (null ''started_at'' TimestampType), plain (null ''completed_at'' TimestampType),
      plain (null ''error'' TextType), plain (null ''duration_ms'' IntegerType), plain (time_column ''created_at'')],
     om_indexes =
      [\<lparr>ix_name = ''ix_executions_tenant_workflow_status'', ix_table = ''executions'',
         ix_columns = [''tenant_id'', ''workflow_id'', ''status'']\<rparr>,
       \<lparr>ix_name = ''ix_executions_tenant_status_created'', ix_table = ''executions'',
         ix_columns = [''tenant_id'', ''status'', ''created_at'']\<rparr>]\<rparr>"

definition orm_step_execution :: orm_model where
  "orm_step_execution = \<lparr>om_tablename = ''step_executions'', om_columns =
     [orm_id, orm_tenant_id, (col ''execution_id'' UuidType None, [execution_key Cascade]),
      plain (col ''step_id'' TextType None), plain (col ''step_type'' TextType None), plain (status_column ''pending''),
      plain (json_column ''input_data''), plain (null ''output_data'' JsonbType), plain (null ''error'' TextType),
      plain (col ''attempt'' IntegerType (Some ''1'')), plain (col ''max_attempts'' IntegerType (Some ''3'')),
      plain (null ''started_at'' TimestampType), plain (null ''completed_at'' TimestampType),
      plain (null ''duration_ms'' IntegerType), plain (time_column ''created_at'')],
     om_indexes =
      [\<lparr>ix_name = ''ix_step_executions_tenant_execution_step'', ix_table = ''step_executions'',
         ix_columns = [''tenant_id'', ''execution_id'', ''step_id'']\<rparr>,
       \<lparr>ix_name = ''ix_step_executions_tenant_status'', ix_table = ''step_executions'', ix_columns = [''tenant_id'', ''status'']\<rparr>]\<rparr>"

definition orm_execution_log :: orm_model where
  "orm_execution_log = \<lparr>om_tablename = ''execution_logs'', om_columns =
     [orm_id, orm_tenant_id, (col ''execution_id'' UuidType None, [execution_key Cascade]),
      plain (null ''step_id'' TextType), plain (col ''level'' TextType None), plain (col ''message'' TextType None),
      plain (json_column ''data''), plain (time_column ''created_at'')],
     om_indexes = [\<lparr>ix_name = ''ix_execution_logs_tenant_execution_created'', ix_table = ''execution_logs'',
       ix_columns = [''tenant_id'', ''execution_id'', ''created_at'']\<rparr>]\<rparr>"

definition orm_webhook_delivery :: orm_model where
  "orm_webhook_delivery = \<lparr>om_tablename = ''webhook_deliveries'', om_columns =
     [orm_id, orm_tenant_id, (col ''workflow_id'' UuidType None, [workflow_key]),
      (null ''execution_id'' UuidType, [execution_key SetNull]), plain (col ''method'' TextType None),
      plain (json_column ''headers''), plain (json_column ''payload''), plain (null ''source_ip'' TextType),
      plain (status_column ''received''), plain (null ''rejection_reason'' TextType), plain (time_column ''created_at'')],
     om_indexes = [\<lparr>ix_name = ''ix_webhook_deliveries_tenant_workflow_created'', ix_table = ''webhook_deliveries'',
       ix_columns = [''tenant_id'', ''workflow_id'', ''created_at'']\<rparr>]\<rparr>"

definition metadata :: "orm_model list" where
  "metadata = [orm_tenant, orm_workflow, orm_execution, orm_step_execution, orm_execution_log, orm_webhook_delivery]"

text \<open>A database has what the models declare: tables, columns in order, constraints and indexes in any order.\<close>

definition declares :: "orm_model \<Rightarrow> table_def \<Rightarrow> bool" where
  "declares m t \<longleftrightarrow> ta_name t = om_tablename m \<and> ta_columns t = map fst (om_columns m) \<and>
    set (ta_constraints t) = set (concat (map snd (om_columns m)))"

definition implements :: "schema \<Rightarrow> orm_model list \<Rightarrow> bool" where
  "implements s ms \<longleftrightarrow> length (sc_tables s) = length ms \<and>
    list_all (\<lambda>m. list_ex (declares m) (sc_tables s)) ms \<and>
    set (sc_indexes s) = set (concat (map om_indexes ms))"

definition migrated :: "(schema, unit) proc" where
  "migrated = run_ddl (upgrade_dacb983d2a66 @ upgrade_fa83d4b59092 @ upgrade_b4c1e7f23a01)"

definition head_schema :: schema where
  "head_schema = snd (migrated empty_schema)"

text \<open>No statement is refused, so the schema is what the statements create.\<close>

definition created_tables :: "table_def list" where
  "created_tables = concat (map (\<lambda>d. case d of CreateTable t \<Rightarrow> [t] | _ \<Rightarrow> [])
     (upgrade_dacb983d2a66 @ upgrade_fa83d4b59092))"

definition created_indexes :: "index_def list" where
  "created_indexes = concat (map (\<lambda>d. case d of CreateIndex i \<Rightarrow> [i] | _ \<Rightarrow> [])
     (upgrade_dacb983d2a66 @ upgrade_fa83d4b59092))"

definition tenant_column_of :: "string \<Rightarrow> string" where
  "tenant_column_of t = (if t = ''tenants'' then ''id'' else ''tenant_id'')"

lemma migrated_run: "migrated empty_schema = (Inr (), \<lparr>sc_tables = created_tables, sc_indexes = created_indexes,
    sc_roles = [''app_user''], sc_grants = map (Pair ''app_user'' \<circ> ta_name) created_tables,
    sc_rls = ''tenants'' # TENANT_ID_TABLES,
    sc_policies = map (\<lambda>t. (policy_name, t, tenant_column_of t)) (''tenants'' # TENANT_ID_TABLES)\<rparr>)"
  by code_simp

lemma head_simps:
  "sc_tables head_schema = created_tables" "sc_indexes head_schema = created_indexes"
  "sc_rls head_schema = ''tenants'' # TENANT_ID_TABLES"
  "sc_policies head_schema = map (\<lambda>t. (policy_name, t, tenant_column_of t)) (''tenants'' # TENANT_ID_TABLES)"
  by (simp_all add: head_schema_def migrated_run)

lemma head_implements: "implements head_schema metadata"
proof -
  have "length created_tables = length metadata" "list_all (\<lambda>m. list_ex (declares m) created_tables) metadata"
    by code_simp+
  moreover have "set created_indexes = set (concat (map om_indexes metadata))"
    by (simp add: created_indexes_def metadata_def upgrade_dacb983d2a66_def upgrade_fa83d4b59092_def orm_tenant_def
        orm_workflow_def orm_execution_def orm_step_execution_def orm_execution_log_def orm_webhook_delivery_def insert_commute)
  ultimately show ?thesis by (simp add: implements_def head_simps)
qed

text \<open>Every table has row-level security on, with one policy, on its tenant column.\<close>

definition guarded :: "schema \<Rightarrow> table_def \<Rightarrow> bool" where
  "guarded s t \<longleftrightarrow> ta_name t \<in> set (sc_rls s) \<and>
     filter (\<lambda>(p, u, c). u = ta_name t) (sc_policies s) = [(policy_name, ta_name t, tenant_column_of (ta_name t))] \<and>
     list_ex (\<lambda>c. co_name c = tenant_column_of (ta_name t) \<and> co_type c = UuidType \<and> \<not> co_nullable c) (ta_columns t)"

lemma created_names: "map ta_name created_tables =
    [''tenants'', ''workflows'', ''executions'', ''execution_logs'', ''step_executions'', ''webhook_deliveries'']"
  by code_simp

lemma head_policies: "list_all (guarded head_schema) (sc_tables head_schema)"
proof -
  have columns: "list_all (\<lambda>t. list_ex (\<lambda>c. co_name c = tenant_column_of (ta_name t) \<and> co_type c = UuidType \<and> \<not> co_nullable c)
      (ta_columns t)) created_tables"
    by code_simp
  have "list_all (\<lambda>n. n \<in> set (''tenants'' # TENANT_ID_TABLES) \<and>
      filter (\<lambda>(p, u, c). u = n) (map (\<lambda>t. (policy_name, t, tenant_column_of t)) (''tenants'' # TENANT_ID_TABLES)) =
        [(policy_name, n, tenant_column_of n)]) (map ta_name created_tables)"
    unfolding created_names by (simp add: TENANT_ID_TABLES_def)
  with columns show ?thesis by (simp add: guarded_def head_simps list_all_iff)
qed

section \<open>Undoing a revision\<close>

text \<open>Everything in a schema is about one of its tables.\<close>

definition schema_ok :: "schema \<Rightarrow> bool" where
  "schema_ok s \<longleftrightarrow>
     (\<forall>t\<in>set (sc_tables s). \<forall>n. list_ex (refers_to n) (ta_constraints t) \<longrightarrow> n \<in> set (table_names s)) \<and>
     (\<forall>i\<in>set (sc_indexes s). ix_table i \<in> set (table_names s)) \<and>
     (\<forall>g\<in>set (sc_grants s). snd g \<in> set (table_names s)) \<and>
     (\<forall>t\<in>set (sc_rls s). t \<in> set (table_names s)) \<and>
     (\<forall>p\<in>set (sc_policies s). fst (snd p) \<in> set (table_names s))"

fun undo :: "ddl \<Rightarrow> ddl option" where
  "undo (CreateTable t) = Some (DropTable (ta_name t))"
| "undo (CreateIndex i) = Some (DropIndex (ix_name i))"
| "undo _ = None"

lemma check_ddl_Inr: "check_ddl c f s = (Inr (), s') \<longleftrightarrow> c \<and> s' = f s"
  by (auto simp: check_ddl_def ddl_error_def)

lemma refers_targets:
  "targets_exist s t \<Longrightarrow> list_ex (refers_to n) (ta_constraints t) \<Longrightarrow> n = ta_name t \<or> n \<in> set (table_names s)"
proof -
  assume *: "targets_exist s t" "list_ex (refers_to n) (ta_constraints t)"
  then obtain k where k: "k \<in> set (ta_constraints t)" "refers_to n k" by (auto simp: list_ex_iff)
  with *(1) show ?thesis by (cases k) (auto simp: targets_exist_def list_all_iff)
qed

lemma undo_step:
  assumes "schema_ok s" "apply_ddl d s = (Inr (), s')" "undo d = Some e"
  shows "apply_ddl e s' = (Inr (), s)" "schema_ok s'"
proof -
  consider (table) t where "d = CreateTable t" "e = DropTable (ta_name t)"
    | (index) i where "d = CreateIndex i" "e = DropIndex (ix_name i)"
    using assms(3) by (cases d) auto
  then have "apply_ddl e s' = (Inr (), s) \<and> schema_ok s'"
  proof cases
    case table
    let ?n = "ta_name t"
    have t: "?n \<notin> set (table_names s)" "targets_exist s t" "s' = s\<lparr>sc_tables := sc_tables s @ [t]\<rparr>"
      using assms(2) by (simp_all add: table check_ddl_Inr)
    from assms(1) have ok: "\<forall>t\<in>set (sc_tables s). \<forall>n. list_ex (refers_to n) (ta_constraints t) \<longrightarrow> n \<in> set (table_names s)"
      "\<forall>i\<in>set (sc_indexes s). ix_table i \<in> set (table_names s)" "\<forall>g\<in>set (sc_grants s). snd g \<in> set (table_names s)"
      "\<forall>t\<in>set (sc_rls s). t \<in> set (table_names s)" "\<forall>p\<in>set (sc_policies s). fst (snd p) \<in> set (table_names s)"
      unfolding schema_ok_def by blast+
    have "ta_name u \<noteq> ?n" if "u \<in> set (sc_tables s)" for u
      using t(1) that by (metis image_eqI list.set_map table_names_def)
    with ok(1) t(1) have free: "\<forall>u\<in>set (sc_tables s). ta_name u \<noteq> ?n \<and> \<not> list_ex (refers_to ?n) (ta_constraints u)" by blast
    then have tables: "filter (\<lambda>u. ta_name u \<noteq> ?n) (sc_tables s) = sc_tables s"
      by (simp add: filter_id_conv)
    have rest: "filter (\<lambda>i. ix_table i \<noteq> ?n) (sc_indexes s) = sc_indexes s"
        "filter (\<lambda>g. snd g \<noteq> ?n) (sc_grants s) = sc_grants s" "filter (\<lambda>u. u \<noteq> ?n) (sc_rls s) = sc_rls s"
        "filter (\<lambda>(p, u, c). u \<noteq> ?n) (sc_policies s) = sc_policies s"
      unfolding filter_id_conv case_prod_beta using t(1) ok(2-5) by metis+
    have "apply_ddl e s' = (Inr (), s)"
      using free tables rest t(3) by (simp add: table check_ddl_Inr table_names_def list_all_iff)
    moreover have "schema_ok s'"
      using assms(1) t(3) refers_targets [OF t(2)] by (auto simp: schema_ok_def table_names_def)
    ultimately show ?thesis ..
  next
    case index
    have i: "ix_name i \<notin> set (map ix_name (sc_indexes s))" "columns_exist s i" "s' = s\<lparr>sc_indexes := sc_indexes s @ [i]\<rparr>"
      using assms(2) by (simp_all add: index check_ddl_Inr)
    then have "filter (\<lambda>j. ix_name j \<noteq> ix_name i) (sc_indexes s) = sc_indexes s"
      unfolding filter_id_conv by (metis image_eqI list.set_map)
    moreover have "ix_table i \<in> set (table_names s)"
      using i(2) by (auto simp: columns_exist_def list_ex_iff table_names_def) (metis image_eqI)
    ultimately show ?thesis
      using assms(1) i(3) by (auto simp: index check_ddl_Inr schema_ok_def table_names_def)
  qed
  then show "apply_ddl e s' = (Inr (), s)" "schema_ok s'" by simp_all
qed

lemma run_ddl_append: "run_ddl (ds @ es) s = andthen (run_ddl ds) (\<lambda>_. run_ddl es) s"
  by (induction ds arbitrary: s) (auto simp: andthen_def split: prod.split sum.split)

lemma run_ddl_Cons: "run_ddl (d # ds) s = (Inr (), s') \<longleftrightarrow> (\<exists>v. apply_ddl d s = (Inr (), v) \<and> run_ddl ds v = (Inr (), s'))"
  by (auto simp: andthen_def split: prod.splits sum.splits)

lemma run_ddl_append_Inr:
  "run_ddl (ds @ es) s = (Inr (), s') \<longleftrightarrow> (\<exists>v. run_ddl ds s = (Inr (), v) \<and> run_ddl es v = (Inr (), s'))"
  by (auto simp: run_ddl_append andthen_def split: prod.splits sum.splits)

declare run_ddl.simps(2) [simp del]

lemma undo_all:
  assumes "schema_ok s" "run_ddl ds s = (Inr (), s')" "map Some es = map undo ds"
  shows "run_ddl (rev es) s' = (Inr (), s)" "schema_ok s'"
proof -
  have "run_ddl (rev es) s' = (Inr (), s) \<and> schema_ok s'" using assms
  proof (induction ds arbitrary: s es)
    case Nil
    then show ?case by simp
  next
    case (Cons d ds)
    then obtain e es' v where e: "es = e # es'" "undo d = Some e" "map Some es' = map undo ds"
      and v: "apply_ddl d s = (Inr (), v)" "run_ddl ds v = (Inr (), s')"
      by (cases es) (auto simp: run_ddl_Cons)
    note step = undo_step [OF Cons.prems(1) v(1) e(2)]
    from Cons.IH [OF step(2) v(2) e(3)] step(1) show ?case
      by (auto simp: e(1) run_ddl_append_Inr run_ddl_Cons)
  qed
  then show "run_ddl (rev es) s' = (Inr (), s)" "schema_ok s'" by simp_all
qed

lemma downgrade_tables:
  assumes "schema_ok s"
  shows "run_ddl upgrade_dacb983d2a66 s = (Inr (), s') \<Longrightarrow> run_ddl downgrade_dacb983d2a66 s' = (Inr (), s)"
    and "run_ddl upgrade_fa83d4b59092 s = (Inr (), s') \<Longrightarrow> run_ddl downgrade_fa83d4b59092 s' = (Inr (), s)"
proof -
  have "map Some (rev downgrade_dacb983d2a66) = map undo upgrade_dacb983d2a66"
    "map Some (rev downgrade_fa83d4b59092) = map undo upgrade_fa83d4b59092"
    by (simp_all add: downgrade_dacb983d2a66_def upgrade_dacb983d2a66_def downgrade_fa83d4b59092_def upgrade_fa83d4b59092_def)
  from undo_all(1) [OF assms _ this(1)] undo_all(1) [OF assms _ this(2)]
  show "run_ddl upgrade_dacb983d2a66 s = (Inr (), s') \<Longrightarrow> run_ddl downgrade_dacb983d2a66 s' = (Inr (), s)"
    "run_ddl upgrade_fa83d4b59092 s = (Inr (), s') \<Longrightarrow> run_ddl downgrade_fa83d4b59092 s' = (Inr (), s)" by simp_all
qed

text \<open>The policies: switched on for a list of tables, and off again.\<close>

lemma enable_tables:
  assumes "run_ddl (concat (map (\<lambda>t. [EnableRls t, CreatePolicy p t (f t)]) ts)) s = (Inr (), s')"
    "set ts \<inter> set (sc_rls s) = {}" "distinct ts"
  shows "s' = s\<lparr>sc_rls := sc_rls s @ ts, sc_policies := sc_policies s @ map (\<lambda>t. (p, t, f t)) ts\<rparr> \<and>
    set ts \<subseteq> set (table_names s)"
  using assms
proof (induction ts arbitrary: s)
  case Nil
  then show ?case by simp
next
  case (Cons t ts)
  let ?v = "s\<lparr>sc_rls := sc_rls s @ [t], sc_policies := sc_policies s @ [(p, t, f t)]\<rparr>"
  have "run_ddl (concat (map (\<lambda>t. [EnableRls t, CreatePolicy p t (f t)]) ts)) ?v = (Inr (), s')"
    "t \<in> set (table_names s)"
    using Cons.prems by (auto simp: run_ddl_Cons check_ddl_Inr)
  with Cons.IH [of ?v] Cons.prems show ?case by (auto simp: table_names_def)
qed

lemma disable_tables:
  assumes "set ts \<subseteq> set (table_names s)"
  shows "run_ddl (concat (map (\<lambda>t. [DropPolicy p t, DisableRls t]) ts)) s =
    (Inr (), s\<lparr>sc_rls := filter (\<lambda>u. u \<notin> set ts) (sc_rls s),
       sc_policies := filter (\<lambda>(q, u, d). \<not> (q = p \<and> u \<in> set ts)) (sc_policies s)\<rparr>)"
  using assms
proof (induction ts arbitrary: s)
  case Nil
  then show ?case by (simp add: case_prod_beta)
next
  case (Cons t ts)
  let ?v = "s\<lparr>sc_rls := filter (\<lambda>u. u \<noteq> t) (sc_rls s),
    sc_policies := filter (\<lambda>(q, u, d). \<not> (q = p \<and> u = t)) (sc_policies s)\<rparr>"
  have "run_ddl (concat (map (\<lambda>t. [DropPolicy p t, DisableRls t]) (t # ts))) s =
      run_ddl (concat (map (\<lambda>t. [DropPolicy p t, DisableRls t]) ts)) ?v"
    using Cons.prems by (cases s) (simp add: run_ddl.simps(2) andthen_def check_ddl_def table_names_def)
  with Cons.IH [of ?v] Cons.prems show ?case
    by (auto simp: table_names_def case_prod_beta imp_conjR)
qed


lemma rls_rows:
  assumes "run_ddl upgrade_b4c1e7f23a01 s = (Inr (), s')" "sc_rls s = []" "sc_policies s = []"
  shows "run_ddl downgrade_b4c1e7f23a01 s' =
    (Inr (), s\<lparr>sc_roles := (if ''app_user'' \<in> set (sc_roles s) then sc_roles s else sc_roles s @ [''app_user'']),
       sc_grants := filter (\<lambda>g. fst g \<noteq> ''app_user'') (sc_grants s)\<rparr>)"
proof -
  let ?u = "s\<lparr>sc_roles := (if ''app_user'' \<in> set (sc_roles s) then sc_roles s else sc_roles s @ [''app_user'']),
    sc_grants := filter (\<lambda>g. fst g \<noteq> ''app_user'') (sc_grants s) @ map (Pair ''app_user'') (table_names s)\<rparr>"
  let ?ts = "''tenants'' # TENANT_ID_TABLES" let ?f = "\<lambda>t. if t = ''tenants'' then ''id'' else ''tenant_id''"
  have up: "upgrade_b4c1e7f23a01 = [CreateRole ''app_user'', GrantAll ''app_user''] @
      concat (map (\<lambda>t. [EnableRls t, CreatePolicy policy_name t (?f t)]) ?ts)"
    by (simp add: upgrade_b4c1e7f23a01_def TENANT_ID_TABLES_def)
  have grant: "run_ddl [CreateRole ''app_user'', GrantAll ''app_user''] s = (Inr (), ?u)"
    by (cases s) (simp add: run_ddl.simps(2) andthen_def table_names_def)
  have "run_ddl (concat (map (\<lambda>t. [EnableRls t, CreatePolicy policy_name t (?f t)]) ?ts)) ?u = (Inr (), s')"
    using assms(1) unfolding up run_ddl_append andthen_def by (simp only: grant prod.case sum.case)
  from enable_tables [OF this] have s': "s' = ?u\<lparr>sc_rls := ?ts, sc_policies := map (\<lambda>t. (policy_name, t, ?f t)) ?ts\<rparr>"
    and ts: "set ?ts \<subseteq> set (table_names s)"
    using assms(2,3) by (simp_all add: TENANT_ID_TABLES_def table_names_def)
  have "run_ddl (concat (map (\<lambda>t. [DropPolicy policy_name t, DisableRls t]) TENANT_ID_TABLES)) s' =
      (Inr (), s'\<lparr>sc_rls := [''tenants''], sc_policies := [(policy_name, ''tenants'', ''id'')]\<rparr>)"
    using disable_tables [of TENANT_ID_TABLES s' policy_name] ts by (simp add: s' table_names_def TENANT_ID_TABLES_def)
  then show ?thesis
    unfolding downgrade_b4c1e7f23a01_def run_ddl_append
    using ts assms(2,3) by (cases s) (auto simp: andthen_def run_ddl.simps(2) check_ddl_def s' table_names_def)
qed


section \<open>Foreign keys\<close>

text \<open>
  Deleting a row, as the foreign keys of a schema say: what refers to a deleted row with
  \<open>ON DELETE CASCADE\<close> is deleted with it, what refers to it with \<open>SET NULL\<close> loses the reference.
  Of a row only its key and its references matter.
\<close>

type_synonym fk_row = "uuid \<times> (string \<Rightarrow> uuid option)"
type_synonym fk_db = "string \<Rightarrow> fk_row list"

fun foreign_keys_of :: "string \<Rightarrow> table_constraint list \<Rightarrow> (string \<times> string \<times> string \<times> on_delete) list" where
  "foreign_keys_of n [] = []"
| "foreign_keys_of n (ForeignKey c t k a # ks) = (n, c, t, a) # foreign_keys_of n ks"
| "foreign_keys_of n (_ # ks) = foreign_keys_of n ks"

definition foreign_keys :: "schema \<Rightarrow> (string \<times> string \<times> string \<times> on_delete) list" where
  "foreign_keys s = concat (map (\<lambda>t. foreign_keys_of (ta_name t) (ta_constraints t)) (sc_tables s))"

definition references :: "(string \<times> uuid) list \<Rightarrow> string \<Rightarrow> string \<Rightarrow> fk_row \<Rightarrow> bool" where
  "references D c t r = (case snd r c of None \<Rightarrow> False | Some j \<Rightarrow> (t, j) \<in> set D)"

definition cascade_round :: "(string \<times> string \<times> string \<times> on_delete) list \<Rightarrow> fk_db \<Rightarrow>
    (string \<times> uuid) list \<Rightarrow> (string \<times> uuid) list" where
  "cascade_round ks db D = D @ concat (map (\<lambda>(n, c, t, a).
     if a = Cascade then map (\<lambda>r. (n, fst r)) (filter (references D c t) (db n)) else []) ks)"

definition doomed :: "schema \<Rightarrow> string \<Rightarrow> uuid \<Rightarrow> fk_db \<Rightarrow> (string \<times> uuid) list" where
  "doomed s t i db = (cascade_round (foreign_keys s) db ^^ length (sc_tables s)) [(t, i)]"

definition unlinked :: "(string \<times> string \<times> string \<times> on_delete) list \<Rightarrow> (string \<times> uuid) list \<Rightarrow> string \<Rightarrow> fk_row \<Rightarrow> fk_row" where
  "unlinked ks D n r = (fst r, \<lambda>c. if list_ex (\<lambda>(m, d, t, a). m = n \<and> d = c \<and> a = SetNull \<and> references D c t r) ks
     then None else snd r c)"

definition delete_row :: "schema \<Rightarrow> string \<Rightarrow> uuid \<Rightarrow> fk_db \<Rightarrow> fk_db" where
  "delete_row s t i db n =
    (let D = doomed s t i db
     in map (unlinked (foreign_keys s) D n) (filter (\<lambda>r. (n, fst r) \<notin> set D) (db n)))"

text \<open>The tables of the service in this form.\<close>

definition references_of :: "world \<Rightarrow> fk_db" where
  "references_of w n =
    (if n = ''tenants'' then map (\<lambda>t. (tn_id t, \<lambda>c. None)) (w_tenants w)
     else if n = ''workflows'' then map (\<lambda>f. (wf_id f, [''tenant_id'' \<mapsto> wf_tenant_id f])) (w_workflows w)
     else if n = ''executions'' then map (\<lambda>x. (ex_id x, [''tenant_id'' \<mapsto> ex_tenant_id x,
       ''workflow_id'' \<mapsto> ex_workflow_id x] (''replayed_from'' := ex_replayed_from x))) (w_executions w)
     else if n = ''step_executions'' then map (\<lambda>s. (se_id s, [''tenant_id'' \<mapsto> se_tenant_id s,
       ''execution_id'' \<mapsto> se_execution_id s])) (w_steps w)
     else if n = ''execution_logs'' then map (\<lambda>l. (lg_id l, [''tenant_id'' \<mapsto> lg_tenant_id l,
       ''execution_id'' \<mapsto> lg_execution_id l])) (w_logs w)
     else if n = ''webhook_deliveries'' then map (\<lambda>d. (wd_id d, [''tenant_id'' \<mapsto> wd_tenant_id d,
       ''workflow_id'' \<mapsto> wd_workflow_id d] (''execution_id'' := wd_execution_id d))) (w_deliveries w)
     else [])"

lemma head_foreign_keys: "foreign_keys head_schema =
   [(''workflows'', ''tenant_id'', ''tenants'', Cascade),
    (''executions'', ''replayed_from'', ''executions'', SetNull), (''executions'', ''tenant_id'', ''tenants'', Cascade),
    (''executions'', ''workflow_id'', ''workflows'', Cascade),
    (''execution_logs'', ''execution_id'', ''executions'', Cascade), (''execution_logs'', ''tenant_id'', ''tenants'', Cascade),
    (''step_executions'', ''execution_id'', ''executions'', Cascade), (''step_executions'', ''tenant_id'', ''tenants'', Cascade),
    (''webhook_deliveries'', ''execution_id'', ''executions'', SetNull),
    (''webhook_deliveries'', ''tenant_id'', ''tenants'', Cascade),
    (''webhook_deliveries'', ''workflow_id'', ''workflows'', Cascade)]"
  by (simp add: foreign_keys_def head_simps created_tables_def upgrade_dacb983d2a66_def upgrade_fa83d4b59092_def)

lemma head_tables: "length (sc_tables head_schema) = 6"
  using arg_cong [OF created_names, of length] by (simp add: head_simps)

text \<open>What goes with a workflow, round by round.\<close>

definition gone_with :: "uuid \<Rightarrow> world \<Rightarrow> uuid set" where
  "gone_with i w = ex_id ` {x \<in> set (w_executions w). ex_workflow_id x = i}"

lemma round_set:
  "set (cascade_round ks db D) = set D \<union> (\<Union>k\<in>set ks. case k of (n, c, t, a) \<Rightarrow>
    if a = Cascade then (\<lambda>r. (n, fst r)) ` {r \<in> set (db n). references D c t r} else {})"
  by (simp add: cascade_round_def case_prod_beta if_distrib [of set] cong: if_cong)

definition first_round :: "uuid \<Rightarrow> world \<Rightarrow> (string \<times> uuid) set" where
  "first_round i w = {(''workflows'', i)} \<union> Pair ''executions'' ` gone_with i w \<union>
     Pair ''webhook_deliveries'' ` wd_id ` {d \<in> set (w_deliveries w). wd_workflow_id d = i}"

definition all_rounds :: "uuid \<Rightarrow> world \<Rightarrow> (string \<times> uuid) set" where
  "all_rounds i w = first_round i w \<union>
     Pair ''step_executions'' ` se_id ` {s \<in> set (w_steps w). se_execution_id s \<in> gone_with i w} \<union>
     Pair ''execution_logs'' ` lg_id ` {l \<in> set (w_logs w). lg_execution_id l \<in> gone_with i w}"

lemma references_of_simps:
  "references_of w ''tenants'' = map (\<lambda>t. (tn_id t, \<lambda>c. None)) (w_tenants w)"
  "references_of w ''workflows'' = map (\<lambda>f. (wf_id f, [''tenant_id'' \<mapsto> wf_tenant_id f])) (w_workflows w)"
  "references_of w ''executions'' = map (\<lambda>x. (ex_id x, [''tenant_id'' \<mapsto> ex_tenant_id x,
    ''workflow_id'' \<mapsto> ex_workflow_id x] (''replayed_from'' := ex_replayed_from x))) (w_executions w)"
  "references_of w ''step_executions'' = map (\<lambda>s. (se_id s, [''tenant_id'' \<mapsto> se_tenant_id s,
    ''execution_id'' \<mapsto> se_execution_id s])) (w_steps w)"
  "references_of w ''execution_logs'' = map (\<lambda>l. (lg_id l, [''tenant_id'' \<mapsto> lg_tenant_id l,
    ''execution_id'' \<mapsto> lg_execution_id l])) (w_logs w)"
  "references_of w ''webhook_deliveries'' = map (\<lambda>d. (wd_id d, [''tenant_id'' \<mapsto> wd_tenant_id d,
    ''workflow_id'' \<mapsto> wd_workflow_id d] (''execution_id'' := wd_execution_id d))) (w_deliveries w)"
  by (simp_all add: references_of_def)

lemma in_rounds:
  "(''tenants'', j) \<notin> first_round i w" "(''workflows'', j) \<in> first_round i w \<longleftrightarrow> j = i"
  "(''executions'', j) \<in> first_round i w \<longleftrightarrow> j \<in> gone_with i w"
  "(''tenants'', j) \<notin> all_rounds i w" "(''workflows'', j) \<in> all_rounds i w \<longleftrightarrow> j = i"
  "(''executions'', j) \<in> all_rounds i w \<longleftrightarrow> j \<in> gone_with i w"
  "(''step_executions'', j) \<in> all_rounds i w \<longleftrightarrow> j \<in> se_id ` {s \<in> set (w_steps w). se_execution_id s \<in> gone_with i w}"
  "(''execution_logs'', j) \<in> all_rounds i w \<longleftrightarrow> j \<in> lg_id ` {l \<in> set (w_logs w). lg_execution_id l \<in> gone_with i w}"
  "(''webhook_deliveries'', j) \<in> all_rounds i w \<longleftrightarrow> j \<in> wd_id ` {d \<in> set (w_deliveries w). wd_workflow_id d = i}"
  by (auto simp: first_round_def all_rounds_def)

lemma image_filter_map: "(\<lambda>r. (n, fst r)) ` {r \<in> set (map g xs). P r} = Pair n ` (\<lambda>x. fst (g x)) ` {x \<in> set xs. P (g x)}"
  by auto

lemma round_head:
  "set (cascade_round (foreign_keys head_schema) (references_of w) D) = set D \<union>
    Pair ''workflows'' ` wf_id ` {f \<in> set (w_workflows w). (''tenants'', wf_tenant_id f) \<in> set D} \<union>
    Pair ''executions'' ` ex_id ` {x \<in> set (w_executions w). (''tenants'', ex_tenant_id x) \<in> set D} \<union>
    Pair ''executions'' ` ex_id ` {x \<in> set (w_executions w). (''workflows'', ex_workflow_id x) \<in> set D} \<union>
    Pair ''execution_logs'' ` lg_id ` {l \<in> set (w_logs w). (''executions'', lg_execution_id l) \<in> set D} \<union>
    Pair ''execution_logs'' ` lg_id ` {l \<in> set (w_logs w). (''tenants'', lg_tenant_id l) \<in> set D} \<union>
    Pair ''step_executions'' ` se_id ` {s \<in> set (w_steps w). (''executions'', se_execution_id s) \<in> set D} \<union>
    Pair ''step_executions'' ` se_id ` {s \<in> set (w_steps w). (''tenants'', se_tenant_id s) \<in> set D} \<union>
    Pair ''webhook_deliveries'' ` wd_id ` {d \<in> set (w_deliveries w). (''tenants'', wd_tenant_id d) \<in> set D} \<union>
    Pair ''webhook_deliveries'' ` wd_id ` {d \<in> set (w_deliveries w). (''workflows'', wd_workflow_id d) \<in> set D}"
  by (simp add: round_set head_foreign_keys references_of_simps image_filter_map references_def Un_assoc del: set_map image_image)

lemma rounds:
  fixes w :: world
  defines "turn \<equiv> cascade_round (foreign_keys head_schema) (references_of w)"
  shows "set D = {(''workflows'', i)} \<Longrightarrow> set (turn D) = first_round i w"
    and "set D = first_round i w \<Longrightarrow> set (turn D) = all_rounds i w"
    and "set D = all_rounds i w \<Longrightarrow> set (turn D) = all_rounds i w"
proof -
  show "set (turn D) = first_round i w" if "set D = {(''workflows'', i)}"
    unfolding turn_def round_head that by (simp add: first_round_def gone_with_def)
  show "set (turn D) = all_rounds i w" if "set D = first_round i w"
    unfolding turn_def round_head that by (simp add: in_rounds) (auto simp: all_rounds_def first_round_def gone_with_def)
  show "set (turn D) = all_rounds i w" if "set D = all_rounds i w"
    unfolding turn_def round_head that by (simp add: in_rounds) (auto simp: all_rounds_def first_round_def gone_with_def)
qed

lemma doomed_workflow: "set (doomed head_schema ''workflows'' i (references_of w)) = all_rounds i w"
proof -
  let ?turn = "cascade_round (foreign_keys head_schema) (references_of w)"
  have 1: "set (?turn [(''workflows'', i)]) = first_round i w" by (rule rounds(1)) simp
  have 2: "set (?turn (?turn [(''workflows'', i)])) = all_rounds i w" by (rule rounds(2) [OF 1])
  have "set ((?turn ^^ (n + 2)) [(''workflows'', i)]) = all_rounds i w" for n
    by (induction n) (simp_all add: 2 rounds(3))
  from this [of 4] show ?thesis by (simp add: doomed_def head_tables)
qed

text \<open>Nothing outside the deleted rows refers to one of them by a cascading key.\<close>

lemma doomed_closed:
  "set (cascade_round (foreign_keys head_schema) (references_of w) (doomed head_schema ''workflows'' i (references_of w))) =
    set (doomed head_schema ''workflows'' i (references_of w))"
  by (simp add: doomed_workflow rounds(3))

section \<open>The cascade of the workflows API\<close>

definition primary_keys :: "world \<Rightarrow> bool" where
  "primary_keys w \<longleftrightarrow> distinct (map ex_id (w_executions w)) \<and> distinct (map se_id (w_steps w)) \<and>
    distinct (map lg_id (w_logs w)) \<and> distinct (map wd_id (w_deliveries w))"

lemma key_in_image:
  "distinct (map k xs) \<Longrightarrow> x \<in> set xs \<Longrightarrow> k x \<in> k ` {y \<in> set xs. P y} \<longleftrightarrow> P x"
  by (auto simp: distinct_map inj_on_def)

lemma unlinked_head:
  "unlinked (foreign_keys head_schema) D n r = (fst r, \<lambda>c.
     if n = ''executions'' \<and> c = ''replayed_from'' \<and> references D c ''executions'' r \<or>
        n = ''webhook_deliveries'' \<and> c = ''execution_id'' \<and> references D c ''executions'' r
     then None else snd r c)"
  unfolding unlinked_def head_foreign_keys by (auto simp: fun_eq_iff)


lemma unlinked_other:
  "n \<noteq> ''executions'' \<Longrightarrow> n \<noteq> ''webhook_deliveries'' \<Longrightarrow> unlinked (foreign_keys head_schema) D n = (\<lambda>r. r)"
  by (auto simp: unlinked_head fun_eq_iff)

text \<open>What the model of the deletion writes, with the set of the executions that go.\<close>

lemma cascade_delete_gone:
  "cascade_delete i w =
    (let unlink = (\<lambda>r. case r of Some j \<Rightarrow> if j \<in> gone_with i w then None else Some j | None \<Rightarrow> None)
     in w\<lparr>w_workflows := filter (\<lambda>f. wf_id f \<noteq> i) (w_workflows w),
          w_executions := map (\<lambda>x. x\<lparr>ex_replayed_from := unlink (ex_replayed_from x)\<rparr>)
            (filter (\<lambda>x. ex_workflow_id x \<noteq> i) (w_executions w)),
          w_steps := filter (\<lambda>s. se_execution_id s \<notin> gone_with i w) (w_steps w),
          w_logs := filter (\<lambda>l. lg_execution_id l \<notin> gone_with i w) (w_logs w),
          w_deliveries := map (\<lambda>d. d\<lparr>wd_execution_id := unlink (wd_execution_id d)\<rparr>)
            (filter (\<lambda>d. wd_workflow_id d \<noteq> i) (w_deliveries w))\<rparr>)"
proof -
  have "set (map ex_id (filter (\<lambda>x. ex_workflow_id x = i) (w_executions w))) = gone_with i w"
    by (simp add: gone_with_def)
  then show ?thesis by (simp only: cascade_delete_def Let_def)
qed

lemma filter_image_key:
  assumes "distinct (map k xs)"
  shows "filter (\<lambda>x. k x \<notin> k ` {y \<in> set xs. P y}) xs = filter (\<lambda>x. \<not> P x) xs"
  by (rule filter_cong [OF refl]) (simp only: key_in_image [OF assms])

lemma references_executions:
  "references D c ''executions'' r = (case snd r c of None \<Rightarrow> False | Some j \<Rightarrow> (''executions'', j) \<in> set D)"
  by (simp add: references_def)

text \<open>Each table of the world after the deletion is the table the foreign keys leave.\<close>

lemma cascade_executions:
  assumes "primary_keys w"
  shows "references_of (cascade_delete i w) ''executions'' = delete_row head_schema ''workflows'' i (references_of w) ''executions''"
proof -
  have "filter (\<lambda>x. ex_id x \<notin> gone_with i w) (w_executions w) = filter (\<lambda>x. ex_workflow_id x \<noteq> i) (w_executions w)"
    using assms filter_image_key [of ex_id "w_executions w" "\<lambda>x. ex_workflow_id x = i"]
    by (simp add: primary_keys_def gone_with_def)
  then show ?thesis
    by (simp add: delete_row_def Let_def doomed_workflow in_rounds references_of_simps cascade_delete_gone filter_map comp_def)
      (auto simp: unlinked_head references_executions doomed_workflow in_rounds fun_eq_iff split: option.split)
qed

lemma cascade_step_executions:
  assumes "primary_keys w"
  shows "references_of (cascade_delete i w) ''step_executions'' = delete_row head_schema ''workflows'' i (references_of w) ''step_executions''"
proof -
  have "filter (\<lambda>s. se_id s \<notin> se_id ` {s \<in> set (w_steps w). se_execution_id s \<in> gone_with i w}) (w_steps w) =
      filter (\<lambda>s. se_execution_id s \<notin> gone_with i w) (w_steps w)"
    using assms by (intro filter_image_key) (simp add: primary_keys_def)
  then show ?thesis
    by (simp add: delete_row_def Let_def doomed_workflow in_rounds(7) references_of_simps unlinked_other cascade_delete_gone filter_map comp_def)
qed

lemma cascade_execution_logs:
  assumes "primary_keys w"
  shows "references_of (cascade_delete i w) ''execution_logs'' = delete_row head_schema ''workflows'' i (references_of w) ''execution_logs''"
proof -
  have "filter (\<lambda>l. lg_id l \<notin> lg_id ` {l \<in> set (w_logs w). lg_execution_id l \<in> gone_with i w}) (w_logs w) =
      filter (\<lambda>l. lg_execution_id l \<notin> gone_with i w) (w_logs w)"
    using assms by (intro filter_image_key) (simp add: primary_keys_def)
  then show ?thesis
    by (simp add: delete_row_def Let_def doomed_workflow in_rounds(8) references_of_simps unlinked_other cascade_delete_gone filter_map comp_def)
qed

lemma cascade_webhook_deliveries:
  assumes "primary_keys w"
  shows "references_of (cascade_delete i w) ''webhook_deliveries'' = delete_row head_schema ''workflows'' i (references_of w) ''webhook_deliveries''"
proof -
  have "filter (\<lambda>d. wd_id d \<notin> wd_id ` {d \<in> set (w_deliveries w). wd_workflow_id d = i}) (w_deliveries w) =
      filter (\<lambda>d. wd_workflow_id d \<noteq> i) (w_deliveries w)"
    using assms by (intro filter_image_key) (simp add: primary_keys_def)
  then show ?thesis
    by (simp add: delete_row_def Let_def doomed_workflow in_rounds(9) references_of_simps cascade_delete_gone filter_map comp_def)
      (auto simp: unlinked_head references_executions doomed_workflow in_rounds fun_eq_iff split: option.split)
qed

lemma cascade_delete_rows:
  assumes "primary_keys w"
  shows "references_of (cascade_delete i w) n = delete_row head_schema ''workflows'' i (references_of w) n"
proof (cases "n \<in> {''tenants'', ''workflows'', ''executions'', ''step_executions'', ''execution_logs'', ''webhook_deliveries''}")
  case True
  have "references_of (cascade_delete i w) ''tenants'' = delete_row head_schema ''workflows'' i (references_of w) ''tenants''"
    "references_of (cascade_delete i w) ''workflows'' = delete_row head_schema ''workflows'' i (references_of w) ''workflows''"
    by (simp_all add: delete_row_def Let_def doomed_workflow in_rounds references_of_simps unlinked_other cascade_delete_gone
        filter_map comp_def)
  with True show ?thesis
    by (elim insertE emptyE) (simp_all only: cascade_executions [OF assms] cascade_step_executions [OF assms]
        cascade_execution_logs [OF assms] cascade_webhook_deliveries [OF assms])
next
  case False
  then have "references_of v n = []" for v by (simp add: references_of_def)
  then show ?thesis by (simp add: delete_row_def Let_def)
qed

lemma upgrade_dacb_ok: "fst (run_ddl upgrade_dacb983d2a66 empty_schema) = Inr ()"
proof -
  have "run_ddl (upgrade_dacb983d2a66 @ upgrade_fa83d4b59092 @ upgrade_b4c1e7f23a01) empty_schema = (Inr (), head_schema)"
    using migrated_run by (simp add: head_schema_def migrated_def)
  then show ?thesis by (auto simp: run_ddl_append_Inr)
qed


end
