(* ===== verification/Reachable.thy ===== *)
theory Reachable
  imports Isolation Migrations
begin

text \<open>
  The states the service can reach from the empty database, by any sequence of registrations,
  requests, webhooks, ticks of the schedule, tasks of the queue and periodic jobs, of any tenants.
  In each of them every identifier is used by one tenant at most, keys are distinct, nothing
  refers to an identifier that is still to be drawn, and every stored workflow is in order: the
  hypotheses of the other properties hold.
\<close>

section \<open>Who uses an identifier\<close>

definition execution_uses :: "execution \<Rightarrow> uuid set" where
  "execution_uses x = {ex_id x, ex_workflow_id x} \<union> set_option (ex_replayed_from x)"

definition delivery_uses :: "webhook_delivery \<Rightarrow> uuid set" where
  "delivery_uses d = {wd_id d, wd_workflow_id d} \<union> set_option (wd_execution_id d)"

definition uses :: "world \<Rightarrow> (uuid \<times> uuid) set" where
  "uses w = (\<lambda>f. (wf_tenant_id f, wf_id f)) ` set (w_workflows w) \<union>
     (\<Union>x\<in>set (w_executions w). Pair (ex_tenant_id x) ` execution_uses x) \<union>
     (\<Union>s\<in>set (w_steps w). Pair (se_tenant_id s) ` {se_id s, se_execution_id s}) \<union>
     (\<lambda>l. (lg_tenant_id l, lg_execution_id l)) ` set (w_logs w) \<union>
     (\<Union>d\<in>set (w_deliveries w). Pair (wd_tenant_id d) ` delivery_uses d)"

lemma idents_uses: "idents (rows_of U w) = uses w `` {U}"
  by (auto simp: idents_def rows_of_def uses_def execution_uses_def delivery_uses_def)

lemma uses_stamps [simp]:
  "uses (w\<lparr>w_ticks := n\<rparr>) = uses w" "uses (w\<lparr>w_events := es\<rparr>) = uses w" "uses (w\<lparr>w_txn_now := t\<rparr>) = uses w"
  by (simp_all add: uses_def)

lemma uses_added [simp]:
  "uses (add_workflow f w) = insert (wf_tenant_id f, wf_id f) (uses w)"
  "uses (add_execution x w) = Pair (ex_tenant_id x) ` execution_uses x \<union> uses w"
  "uses (add_step s w) = Pair (se_tenant_id s) ` {se_id s, se_execution_id s} \<union> uses w"
  "uses (add_delivery d w) = Pair (wd_tenant_id d) ` delivery_uses d \<union> uses w"
  "uses (w\<lparr>w_logs := w_logs w @ [l]\<rparr>) = insert (lg_tenant_id l, lg_execution_id l) (uses w)"
  by (auto simp: uses_def add_workflow_def add_execution_def add_step_def add_delivery_def)

lemma UN_map_same:
  assumes "\<And>x. x \<in> set xs \<Longrightarrow> P (g x) = P x"
  shows "(\<Union>x\<in>set (map g xs). P x) = (\<Union>x\<in>set xs. P x)"
  using assms by (induction xs) simp_all

lemma uses_upd_execution:
  assumes "\<And>x. ex_base (f x) = ex_base x"
  shows "uses (upd_execution i f w) = uses w"
proof -
  have "Pair (ex_tenant_id (f x)) ` execution_uses (f x) = Pair (ex_tenant_id x) ` execution_uses x" for x
    using assms [of x] by (simp add: ex_base_def execution_uses_def)
  then have "(\<Union>x\<in>set (map (\<lambda>r. if ex_id r = i then f r else r) (w_executions w)). Pair (ex_tenant_id x) ` execution_uses x) =
      (\<Union>x\<in>set (w_executions w). Pair (ex_tenant_id x) ` execution_uses x)"
    by (intro UN_map_same) simp
  then show ?thesis by (simp add: uses_def upd_execution_def del: set_map)
qed

lemma uses_upd_step:
  assumes "\<And>s. se_base (g s) = se_base s"
  shows "uses (upd_step j g w) = uses w"
proof -
  have "Pair (se_tenant_id (g s)) ` {se_id (g s), se_execution_id (g s)} = Pair (se_tenant_id s) ` {se_id s, se_execution_id s}" for s
    using assms [of s] by (simp add: se_base_def)
  then have "(\<Union>s\<in>set (map (\<lambda>r. if se_id r = j then g r else r) (w_steps w)). Pair (se_tenant_id s) ` {se_id s, se_execution_id s}) =
      (\<Union>s\<in>set (w_steps w). Pair (se_tenant_id s) ` {se_id s, se_execution_id s})"
    by (intro UN_map_same) simp
  then show ?thesis by (simp add: uses_def upd_step_def del: set_map)
qed

lemma uses_upd_workflow: "wf_id f = i \<Longrightarrow> uses (upd_workflow i (\<lambda>_. f) w) \<subseteq> insert (wf_tenant_id f, i) (uses w)"
  by (auto simp: uses_def upd_workflow_def)

lemma uses_delivery: "d \<in> set (w_deliveries w) \<Longrightarrow> i \<in> delivery_uses d \<Longrightarrow> (wd_tenant_id d, i) \<in> uses w"
  by (auto simp: uses_def)

lemma uses_upd_delivery:
  assumes "p \<in> uses (upd_delivery i h w)"
  shows "p \<in> uses w \<or> (\<exists>d\<in>set (w_deliveries w). wd_id d = i \<and> p \<in> Pair (wd_tenant_id (h d)) ` delivery_uses (h d))"
  using assms by (auto simp: uses_def upd_delivery_def split: if_splits)

lemma uses_cascade_delete: "uses (cascade_delete i w) \<subseteq> uses w"
  by (auto simp: uses_def cascade_delete_def Let_def execution_uses_def delivery_uses_def split: if_splits option.splits)

text \<open>Which tables the writes touch.\<close>

lemma table_fields:
  "w_executions (add_execution x w) = w_executions w @ [x]" "w_steps (add_execution x w) = w_steps w"
  "w_logs (add_execution x w) = w_logs w" "w_deliveries (add_execution x w) = w_deliveries w"
  "w_executions (add_step s w) = w_executions w" "w_steps (add_step s w) = w_steps w @ [s]"
  "w_logs (add_step s w) = w_logs w" "w_deliveries (add_step s w) = w_deliveries w"
  "w_executions (add_workflow f w) = w_executions w" "w_steps (add_workflow f w) = w_steps w"
  "w_logs (add_workflow f w) = w_logs w" "w_deliveries (add_workflow f w) = w_deliveries w"
  "w_workflows (add_workflow f w) = w_workflows w @ [f]" "w_events (add_workflow f w) = w_events w"
  "w_ticks (add_workflow f w) = w_ticks w"
  "w_executions (upd_execution i g w) = map (\<lambda>r. if ex_id r = i then g r else r) (w_executions w)"
  "w_steps (upd_execution i g w) = w_steps w" "w_logs (upd_execution i g w) = w_logs w"
  "w_deliveries (upd_execution i g w) = w_deliveries w"
  "w_executions (upd_step i h w) = w_executions w"
  "w_steps (upd_step i h w) = map (\<lambda>r. if se_id r = i then h r else r) (w_steps w)"
  "w_logs (upd_step i h w) = w_logs w" "w_deliveries (upd_step i h w) = w_deliveries w"
  "w_executions (upd_workflow i k w) = w_executions w" "w_steps (upd_workflow i k w) = w_steps w"
  "w_logs (upd_workflow i k w) = w_logs w" "w_deliveries (upd_workflow i k w) = w_deliveries w"
  "w_workflows (upd_workflow i k w) = map (\<lambda>r. if wf_id r = i then k r else r) (w_workflows w)"
  "w_events (upd_workflow i k w) = w_events w" "w_ticks (upd_workflow i k w) = w_ticks w"
  "w_deliveries (upd_delivery i l w) = map (\<lambda>r. if wd_id r = i then l r else r) (w_deliveries w)"
  "w_events (cascade_delete i w) = w_events w" "w_ticks (cascade_delete i w) = w_ticks w"
  by (simp_all add: add_execution_def add_step_def add_workflow_def upd_execution_def upd_step_def upd_workflow_def
      upd_delivery_def cascade_delete_def Let_def)

lemma map_keys: "(\<And>r. k (g r) = k r) \<Longrightarrow> map k (map (\<lambda>r. if k r = i then g r else r) xs) = map k xs"
  by (induction xs) auto

lemma primary_keys_cascade: "primary_keys w \<Longrightarrow> primary_keys (cascade_delete i w)"
  by (simp add: primary_keys_def cascade_delete_def Let_def comp_def distinct_map_filter)

lemma cascade_rows:
  "x \<in> set (w_executions (cascade_delete i w)) \<Longrightarrow>
    \<exists>y\<in>set (w_executions w). ex_tenant_id y = ex_tenant_id x \<and> ex_context y = ex_context x"
  "f \<in> set (w_workflows (cascade_delete i w)) \<Longrightarrow> f \<in> set (w_workflows w)"
  "l \<in> set (w_logs (cascade_delete i w)) \<Longrightarrow> l \<in> set (w_logs w)"
  by (auto simp: cascade_delete_def Let_def)

section \<open>The invariant of an operation\<close>

definition drawn_ids :: "env \<Rightarrow> nat \<Rightarrow> uuid set" where
  "drawn_ids E n = env_uuid E ` {..<n}"

lemma drawn_mono: "m \<le> n \<Longrightarrow> drawn_ids E m \<subseteq> drawn_ids E n"
  by (auto simp: drawn_ids_def)

lemma drawn_next: "inj (env_uuid E) \<Longrightarrow> n \<le> m \<Longrightarrow> env_uuid E m \<notin> drawn_ids E n"
  by (auto simp: drawn_ids_def inj_eq)

lemma drawn_Suc: "drawn_ids E (Suc n) = insert (env_uuid E n) (drawn_ids E n)"
  by (auto simp: drawn_ids_def lessThan_Suc)

definition sound :: "env \<Rightarrow> world \<Rightarrow> bool" where
  "sound E w \<longleftrightarrow> inj (env_uuid E) \<and> primary_keys w \<and>
    (\<forall>l\<in>set (w_logs w). lg_id l \<in> drawn_ids E (w_ticks w)) \<and>
    (\<forall>e\<in>set (w_events w). event_in (drawn_ids E (w_ticks w)) e)"

text \<open>
  While an operation for tenant \<open>T\<close> runs: its rows use drawn identifiers outside of \<open>F\<close>, the rows
  of others use identifiers in \<open>F\<close>, and a workflow with an identifier in \<open>K\<close> is one of its own.
\<close>

definition mine :: "env \<Rightarrow> uuid \<Rightarrow> uuid set \<Rightarrow> uuid set \<Rightarrow> world \<Rightarrow> bool" where
  "mine E T F K w \<longleftrightarrow> sound E w \<and> (\<forall>n\<ge>w_ticks w. env_uuid E n \<notin> F) \<and>
    (\<forall>t i. (t, i) \<in> uses w \<longrightarrow> (if t = T then i \<in> drawn_ids E (w_ticks w) - F else i \<in> F)) \<and>
    (\<forall>x\<in>set (w_executions w). ex_tenant_id x = T \<longrightarrow> names (\<lambda>t. t = T) (ex_context x)) \<and>
    (\<forall>f\<in>set (w_workflows w). wf_id f \<in> K \<longrightarrow> wf_tenant_id f = T)"

lemma mine_uses:
  assumes "mine E T F K w" "(t, i) \<in> uses w"
  shows "i \<in> drawn_ids E (w_ticks w) - F \<Longrightarrow> t = T" "t = T \<Longrightarrow> i \<in> drawn_ids E (w_ticks w) - F" "t \<noteq> T \<Longrightarrow> i \<in> F"
  using assms unfolding mine_def by (auto split: if_splits)

text \<open>What an operation has to show of its result.\<close>

lemma mine_changed:
  assumes "mine E T F K w" "sound E w'" "w_ticks w \<le> w_ticks w'"
    and "\<And>t i. (t, i) \<in> uses w' \<Longrightarrow> (t, i) \<in> uses w \<or> t = T \<and> i \<in> drawn_ids E (w_ticks w') - F"
    and "\<And>x. x \<in> set (w_executions w') \<Longrightarrow> ex_tenant_id x = T \<Longrightarrow> names (\<lambda>t. t = T) (ex_context x)"
    and "\<And>f. f \<in> set (w_workflows w') \<Longrightarrow> wf_id f \<in> K \<Longrightarrow> wf_tenant_id f = T"
  shows "mine E T F K w'"
proof -
  have placed: "if t = T then i \<in> drawn_ids E (w_ticks w') - F else i \<in> F" if "(t, i) \<in> uses w'" for t i
    using assms(4) [OF that]
  proof
    assume u: "(t, i) \<in> uses w"
    show ?thesis
      using mine_uses(2,3) [OF assms(1) u] subsetD [OF drawn_mono [OF assms(3), of E], of i] by (cases "t = T") simp_all
  qed simp
  have "env_uuid E n \<notin> F" if "w_ticks w' \<le> n" for n
    using assms(1,3) that by (auto simp: mine_def)
  with placed assms(2,5,6) show ?thesis unfolding mine_def by blast
qed

lemma sound_later:
  assumes "sound E w" "primary_keys w'" "w_ticks w \<le> w_ticks w'"
    and "\<And>l. l \<in> set (w_logs w') \<Longrightarrow> l \<in> set (w_logs w) \<or> lg_id l \<in> drawn_ids E (w_ticks w')"
    and "\<And>e. e \<in> set (w_events w') \<Longrightarrow> e \<in> set (w_events w) \<or> event_in (drawn_ids E (w_ticks w')) e"
  shows "sound E w'"
proof -
  have "event_in (drawn_ids E (w_ticks w')) e" if "event_in (drawn_ids E (w_ticks w)) e" for e
    using that drawn_mono [OF assms(3), of E] by (cases e) auto
  then show ?thesis
    using assms(1,2,4,5) subsetD [OF drawn_mono [OF assms(3), of E]] by (simp add: sound_def) blast
qed

text \<open>A drawn identifier is not yet a key.\<close>

lemma fresh_key:
  assumes "mine E T F K w"
  shows "(t, env_uuid E (w_ticks w)) \<notin> uses w" "env_uuid E (w_ticks w) \<notin> lg_id ` set (w_logs w)"
proof -
  have inj: "inj (env_uuid E)" and F: "env_uuid E (w_ticks w) \<notin> F" using assms by (auto simp: mine_def sound_def)
  then show "(t, env_uuid E (w_ticks w)) \<notin> uses w"
    using mine_uses [OF assms] drawn_next [OF inj order_refl] by blast
  have "\<forall>l\<in>set (w_logs w). lg_id l \<in> drawn_ids E (w_ticks w)" using assms by (simp add: mine_def sound_def)
  then show "env_uuid E (w_ticks w) \<notin> lg_id ` set (w_logs w)"
    using drawn_next [OF inj order_refl, of "w_ticks w"] by fastforce
qed

lemma keys_used:
  "x \<in> set (w_executions w) \<Longrightarrow> (ex_tenant_id x, ex_id x) \<in> uses w"
  "s \<in> set (w_steps w) \<Longrightarrow> (se_tenant_id s, se_id s) \<in> uses w"
  "s \<in> set (w_steps w) \<Longrightarrow> (se_tenant_id s, se_execution_id s) \<in> uses w"
  "f \<in> set (w_workflows w) \<Longrightarrow> (wf_tenant_id f, wf_id f) \<in> uses w"
  "d \<in> set (w_deliveries w) \<Longrightarrow> (wd_tenant_id d, wd_id d) \<in> uses w"
  by (auto simp: uses_def execution_uses_def delivery_uses_def)

lemma mine_service:
  "service_invariant E (mine E T F K) (\<lambda>n. drawn_ids E n - F) (\<lambda>n. drawn_ids E n - F) (\<lambda>t. t = T)"
proof
  fix w assume m: "mine E T F K w"
  have snd: "sound E w" and inj: "inj (env_uuid E)" and pk: "primary_keys w"
    and names: "\<And>x. x \<in> set (w_executions w) \<Longrightarrow> ex_tenant_id x = T \<Longrightarrow> names (\<lambda>t. t = T) (ex_context x)"
    and wfs: "\<And>f. f \<in> set (w_workflows w) \<Longrightarrow> wf_id f \<in> K \<Longrightarrow> wf_tenant_id f = T"
    using m by (auto simp: mine_def sound_def)
  note used = mine_uses [OF m keys_used(1)] mine_uses [OF m keys_used(2)] mine_uses [OF m keys_used(3)]
    mine_uses [OF m keys_used(4)] mine_uses [OF m keys_used(5)]
  show "mine E T F K (w\<lparr>w_ticks := n\<rparr>)" if "w_ticks w \<le> n" for n
    by (rule mine_changed [OF m sound_later [OF snd]]) (use that names wfs pk in \<open>simp_all add: primary_keys_def\<close>)
  show "mine E T F K (w\<lparr>w_txn_now := t\<rparr>)" for t
    by (rule mine_changed [OF m sound_later [OF snd]]) (use names wfs pk in \<open>simp_all add: primary_keys_def\<close>)
  show "mine E T F K (w\<lparr>w_ticks := w_ticks w', w_events := w_events w'\<rparr>)"
    if "mine E T F K w'" "w_ticks w \<le> w_ticks w'" for w'
  proof (rule mine_changed [OF m sound_later [OF snd]])
    fix e assume "e \<in> set (w_events (w\<lparr>w_ticks := w_ticks w', w_events := w_events w'\<rparr>))"
    then show "e \<in> set (w_events w) \<or> event_in (drawn_ids E (w_ticks (w\<lparr>w_ticks := w_ticks w', w_events := w_events w'\<rparr>))) e"
      using that(1) by (simp add: mine_def sound_def)
  qed (use that(2) names wfs pk in \<open>simp_all add: primary_keys_def\<close>)
  show "mine E T F K (w\<lparr>w_events := w_events w @ [e]\<rparr>)" if "event_in (drawn_ids E (w_ticks w) - F) e" for e
  proof -
    have "event_in (drawn_ids E (w_ticks w)) e" using that by (cases e) simp_all
    then show ?thesis
      by (intro mine_changed [OF m sound_later [OF snd]]) (use names wfs pk in \<open>auto simp: primary_keys_def\<close>)
  qed
  show drawn: "env_uuid E (w_ticks w) \<in> drawn_ids E (Suc (w_ticks w)) - F"
    using m by (simp add: drawn_Suc mine_def)
  note new = fresh_key [OF m]
  have old: "env_uuid E (w_ticks w) \<notin> ex_id ` set (w_executions w)" "env_uuid E (w_ticks w) \<notin> se_id ` set (w_steps w)"
    "env_uuid E (w_ticks w) \<notin> wd_id ` set (w_deliveries w)"
    using keys_used new(1) by (metis imageE)+
  show "mine E T F K (add_execution r (w\<lparr>w_ticks := Suc (w_ticks w)\<rparr>))"
    if r: "ex_id r = env_uuid E (w_ticks w)" "ex_tenant_id r = T" "names (\<lambda>t. t = T) (ex_context r)"
      "ex_workflow_id r \<in> drawn_ids E (w_ticks w) - F"
      "\<And>i. ex_replayed_from r = Some i \<Longrightarrow> i \<in> drawn_ids E (w_ticks w) - F" for r
  proof (rule mine_changed [OF m sound_later [OF snd]])
    show "primary_keys (add_execution r (w\<lparr>w_ticks := Suc (w_ticks w)\<rparr>))"
      using pk old r(1) by (simp add: primary_keys_def table_fields)
  qed (use r drawn names wfs in \<open>auto simp: table_fields execution_uses_def drawn_Suc\<close>)
  show "mine E T F K (add_step r (w\<lparr>w_ticks := Suc (w_ticks w)\<rparr>))"
    if r: "se_id r = env_uuid E (w_ticks w)" "se_tenant_id r = T" "se_execution_id r \<in> drawn_ids E (w_ticks w) - F" for r
  proof (rule mine_changed [OF m sound_later [OF snd]])
    show "primary_keys (add_step r (w\<lparr>w_ticks := Suc (w_ticks w)\<rparr>))"
      using pk old r(1) by (simp add: primary_keys_def table_fields)
  qed (use r drawn names wfs in \<open>auto simp: table_fields drawn_Suc\<close>)
  show "mine E T F K (add_workflow r (w\<lparr>w_ticks := Suc (w_ticks w)\<rparr>))"
    if r: "wf_id r = env_uuid E (w_ticks w)" "wf_tenant_id r = T" for r
    by (rule mine_changed [OF m sound_later [OF snd]])
      (use r pk drawn names wfs in \<open>auto simp: table_fields primary_keys_def drawn_Suc\<close>)
  show "mine E T F K (add_delivery r (w\<lparr>w_ticks := Suc (w_ticks w)\<rparr>))"
    if r: "wd_id r = env_uuid E (w_ticks w)" "wd_tenant_id r = T" "wd_workflow_id r \<in> drawn_ids E (w_ticks w) - F"
      "wd_execution_id r = None" for r
  proof (rule mine_changed [OF m sound_later [OF snd]])
    show "primary_keys (add_delivery r (w\<lparr>w_ticks := Suc (w_ticks w)\<rparr>))"
      using pk old r(1) by (simp add: primary_keys_def table_fields)
  qed (use r drawn names wfs in \<open>auto simp: table_fields delivery_uses_def drawn_Suc\<close>)
  show "mine E T F K (w\<lparr>w_ticks := Suc (w_ticks w), w_logs := w_logs w @ [l]\<rparr>)"
    if l: "lg_id l = env_uuid E (w_ticks w)" "lg_tenant_id l = T" "lg_execution_id l \<in> drawn_ids E (w_ticks w) - F" for l
  proof (rule mine_changed [OF m sound_later [OF snd]])
    show "primary_keys (w\<lparr>w_ticks := Suc (w_ticks w), w_logs := w_logs w @ [l]\<rparr>)"
      using pk new(2) l(1) by (simp add: primary_keys_def)
    show "(t, i) \<in> uses w \<or> t = T \<and> i \<in> drawn_ids E (w_ticks (w\<lparr>w_ticks := Suc (w_ticks w), w_logs := w_logs w @ [l]\<rparr>)) - F"
      if "(t, i) \<in> uses (w\<lparr>w_ticks := Suc (w_ticks w), w_logs := w_logs w @ [l]\<rparr>)" for t i
      using that l uses_added(5) [of "w\<lparr>w_ticks := Suc (w_ticks w)\<rparr>" l] by (auto simp: drawn_Suc)
  qed (use l names wfs in \<open>auto simp: drawn_Suc\<close>)
  show "mine E T F K (upd_execution i f w)"
    if "i \<in> drawn_ids E (w_ticks w) - F" "\<And>x. ex_base (f x) = ex_base x"
      "\<And>x. names (\<lambda>t. t = T) (ex_context x) \<Longrightarrow> names (\<lambda>t. t = T) (ex_context (f x))" for i f
  proof (rule mine_changed [OF m sound_later [OF snd]])
    have same: "ex_id (f x) = ex_id x" "ex_tenant_id (f x) = ex_tenant_id x" for x
      using that(2) [of x] by (simp_all add: ex_base_def)
    then show "primary_keys (upd_execution i f w)"
      using pk map_keys [of ex_id f] by (simp add: primary_keys_def table_fields del: map_map)
    show "names (\<lambda>t. t = T) (ex_context x)" if "x \<in> set (w_executions (upd_execution i f w))" "ex_tenant_id x = T" for x
      using that same names \<open>\<And>x. names (\<lambda>t. t = T) (ex_context x) \<Longrightarrow> names (\<lambda>t. t = T) (ex_context (f x))\<close>
      by (auto simp: table_fields)
  qed (use that(2) wfs in \<open>simp_all add: table_fields uses_upd_execution\<close>)
  show "mine E T F K (upd_step i g w)" if "\<And>s. se_base (g s) = se_base s" for i g
  proof (rule mine_changed [OF m sound_later [OF snd]])
    have "se_id (g x) = se_id x" for x using that [of x] by (simp add: se_base_def)
    then show "primary_keys (upd_step i g w)"
      using pk map_keys [of se_id g] by (simp add: primary_keys_def table_fields del: map_map)
  qed (use that wfs names in \<open>simp_all add: table_fields uses_upd_step\<close>)
  show "mine E T F K (upd_workflow i (\<lambda>_. g) w)"
    if "i \<in> drawn_ids E (w_ticks w) - F" "wf_id g = i" "wf_tenant_id g = T" for i g
    by (rule mine_changed [OF m sound_later [OF snd]])
      (use that pk wfs names uses_upd_workflow [OF that(2), of w] in \<open>auto simp: table_fields primary_keys_def split: if_splits\<close>)
  show "mine E T F K (upd_delivery i h w)"
    if i: "i \<in> drawn_ids E (w_ticks w) - F" and same: "\<And>d. wd_id (h d) = wd_id d" "\<And>d. wd_tenant_id (h d) = wd_tenant_id d"
      "\<And>d. wd_workflow_id (h d) = wd_workflow_id d"
      and linked: "\<And>d k. wd_execution_id (h d) = Some k \<Longrightarrow> wd_execution_id d = Some k \<or> k \<in> drawn_ids E (w_ticks w) - F" for i h
  proof (rule mine_changed [OF m sound_later [OF snd]])
    show "primary_keys (upd_delivery i h w)"
      using pk map_keys [of wd_id h] same by (simp add: primary_keys_def table_fields del: map_map)
    show "(t, k) \<in> uses w \<or> t = T \<and> k \<in> drawn_ids E (w_ticks (upd_delivery i h w)) - F"
      if "(t, k) \<in> uses (upd_delivery i h w)" for t k
      using uses_upd_delivery [OF that]
    proof
      assume "\<exists>d\<in>set (w_deliveries w). wd_id d = i \<and> (t, k) \<in> Pair (wd_tenant_id (h d)) ` delivery_uses (h d)"
      then obtain d where d: "d \<in> set (w_deliveries w)" "wd_id d = i" "t = wd_tenant_id d" "k \<in> delivery_uses (h d)"
        using same(2) by auto
      then have "t = T" using used(13) i by blast
      moreover have "k \<in> delivery_uses d \<or> k \<in> drawn_ids E (w_ticks w) - F"
        using d(4) same linked [of d k] by (auto simp: delivery_uses_def)
      ultimately show ?thesis using uses_delivery [OF d(1)] d(3) by auto
    qed simp
  qed (use names wfs in simp_all)
  show "mine E T F K (cascade_delete i w)" for i
  proof (rule mine_changed [OF m sound_later [OF snd]])
    show "names (\<lambda>t. t = T) (ex_context x)" if "x \<in> set (w_executions (cascade_delete i w))" "ex_tenant_id x = T" for x
      using cascade_rows(1) [OF that(1)] names that(2) by metis
  qed (use wfs uses_cascade_delete [of i w] in \<open>auto simp: table_fields primary_keys_cascade [OF pk] dest: cascade_rows(2,3)\<close>)
  show "names (\<lambda>t. t = T) (ex_context x)" if "find_execution w i = Some x" "i \<in> drawn_ids E (w_ticks w) - F" for i x
  proof -
    have "x \<in> set (w_executions w)" "ex_id x = i" using that(1) by (auto simp: find_execution_def dest: find_SomeD)
    then show ?thesis using used(1) that(2) names by blast
  qed
  show "i \<in> drawn_ids E (w_ticks w) - F" if "find_execution w i = Some x" "ex_tenant_id x = T" for i x
    using that used(2) by (auto simp: find_execution_def dest: find_SomeD)
  show "i \<in> drawn_ids E (w_ticks w) - F" if "find_workflow w i = Some f" "wf_tenant_id f = T" for i f
    using that used(11) by (auto simp: find_workflow_def dest: find_SomeD)
  show "se_id s \<in> drawn_ids E (w_ticks w) - F" if "s \<in> set (w_steps w)" "se_execution_id s \<in> drawn_ids E (w_ticks w) - F" for s
    using used(5) [OF that(1)] used(7) [OF that(1)] that(2) by blast

qed (auto dest: subsetD [OF drawn_mono])

interpretation mine: service_invariant E "mine E T F K" "\<lambda>n. drawn_ids E n - F" "\<lambda>n. drawn_ids E n - F" "\<lambda>t. t = T" for E T F K
  by (rule mine_service)

text \<open>Whatever only runs workflows leaves them as they are.\<close>

lemma workflows_stay: "run_invariant E (\<lambda>w. w_workflows w = W) (\<lambda>n. UNIV) (\<lambda>n. UNIV) (\<lambda>t. True)"
  by unfold_locales (simp_all add: names_def)

interpretation catalogue: run_invariant E "\<lambda>w. w_workflows w = W" "\<lambda>n. UNIV" "\<lambda>n. UNIV" "\<lambda>t. True" for E W
  by (rule workflows_stay)

text \<open>
  No request writes a tenant, and step rows only appear as the engine creates them: nothing ever
  gives one a configuration.
\<close>

definition steps_plain :: "tenant list \<Rightarrow> world \<Rightarrow> bool" where
  "steps_plain ts w \<longleftrightarrow> w_tenants w = ts \<and> (\<forall>s\<in>set (w_steps w). plain_step s)"

lemma plain_upd_step:
  assumes "steps_plain ts w" "\<And>s. se_base (g s) = se_base s" "\<And>s. se_input_data (g s) = se_input_data s"
  shows "steps_plain ts (upd_step j g w)"
  using assms(1) plain_same [OF assms(2,3)] by (auto simp: steps_plain_def upd_step_def)

lemma plain_cascade: "steps_plain ts w \<Longrightarrow> steps_plain ts (cascade_delete i w)"
  by (auto simp: steps_plain_def cascade_delete_def Let_def)

lemma steps_stay_plain:
  "service_invariant E (steps_plain ts) (\<lambda>n. UNIV) (\<lambda>n. UNIV) (\<lambda>t. True)"
  by unfold_locales
    (simp_all add: names_def plain_upd_step plain_cascade,
     auto simp: steps_plain_def add_execution_def add_step_def add_delivery_def add_workflow_def upd_execution_def
       upd_delivery_def upd_workflow_def)

interpretation plain: service_invariant E "steps_plain ts" "\<lambda>n. UNIV" "\<lambda>n. UNIV" "\<lambda>t. True" for E ts
  by (rule steps_stay_plain)

section \<open>The cache\<close>

definition cached :: "workflow_cache \<Rightarrow> (uuid \<times> uuid) set" where
  "cached c = (\<lambda>p. (wf_tenant_id (ce_workflow (snd p)), wf_id (ce_workflow (snd p)))) ` set (wc_entries c)"

lemma cached_mono: "set (wc_entries c) \<subseteq> set (wc_entries c') \<Longrightarrow> cached c \<subseteq> cached c'"
  by (auto simp: cached_def)

lemma entries_removed: "set (wc_entries (remove_entry i c)) \<subseteq> set (wc_entries c)"
  by (auto simp: remove_entry_def remove_path_index_def Let_def remove_key_def split: option.splits)

lemma cached_invalidate: "cached (invalidate i c) \<subseteq> cached c"
  using cached_mono [OF entries_removed] by (simp add: invalidate_def)

lemma entries_evicted: "evict c = Inr c' \<Longrightarrow> set (wc_entries c') \<subseteq> set (wc_entries c)"
proof (induction c rule: evict.induct)
  case (1 c)
  show ?case
  proof (cases "length (wc_entries c) < wc_max_size c")
    case True
    with 1(2) show ?thesis by (simp add: evict.simps [of c])
  next
    case False
    then obtain p rest where e: "wc_entries c = p # rest"
      using 1(2) by (cases "wc_entries c") (simp_all add: evict.simps [of c])
    obtain i x where p: "p = (i, x)" by (cases p)
    have "evict (remove_path_index i (c\<lparr>wc_entries := rest\<rparr>)) = Inr c'"
      using 1(2) False e p by (simp add: evict.simps [of c])
    from 1(1) [OF False e p [symmetric] this] show ?thesis
      using e by (auto simp: remove_path_index_def split: option.splits if_splits)
  qed
qed

lemma set_dict_set: "p \<in> set (dict_set k v d) \<Longrightarrow> p = (k, v) \<or> p \<in> set d"
  unfolding dict_set_def by (induction d) (auto split: if_splits)

lemma cached_set:
  assumes "cache_set now f c = Inr c'"
  shows "cached c' \<subseteq> insert (wf_tenant_id f, wf_id f) (cached c)"
proof -
  have start: "cached (if b then remove_entry i c else c) \<subseteq> cached c" for b i
    using cached_mono [OF entries_removed] by simp
  obtain c2 where c2: "evict (if map_of (wc_entries c) (wf_id f) \<noteq> None then remove_entry (wf_id f) c else c) = Inr c2"
    and c': "set (wc_entries c') = set (move_to_end (wf_id f)
      (dict_set (wf_id f) \<lparr>ce_workflow = f, ce_expires_at = now + wc_ttl_seconds c2\<rparr> (wc_entries c2)))"
    using assms by (auto simp: cache_set_def Let_def sum_bind_Inr_iff split: if_splits)
  have "set (wc_entries c') \<subseteq> insert (wf_id f, \<lparr>ce_workflow = f, ce_expires_at = now + wc_ttl_seconds c2\<rparr>) (set (wc_entries c2))"
    unfolding c' by (auto simp: move_to_end_def remove_key_def dest!: set_dict_set)
  then have "cached c' \<subseteq> insert (wf_tenant_id f, wf_id f) (cached c2)" by (auto simp: cached_def)
  then show ?thesis using cached_mono [OF entries_evicted [OF c2]] start by blast
qed

lemma cached_get:
  assumes "get_by_id now i c = (r, c')"
  shows "cached c' \<subseteq> cached c" "r = Some f \<Longrightarrow> (wf_tenant_id f, wf_id f) \<in> cached c"
proof -
  show "cached c' \<subseteq> cached c"
    using assms cached_mono [OF entries_removed]
    by (auto simp: get_by_id_def cached_def move_to_end_def remove_key_def split: option.splits if_splits)
  show "r = Some f \<Longrightarrow> (wf_tenant_id f, wf_id f) \<in> cached c"
    using assms by (force simp: get_by_id_def cached_def dest: map_of_SomeD split: option.splits if_splits)
qed

lemma cached_resolve:
  assumes "resolve_workflow now now' p w c = (r, c')"
  shows "cached c' \<subseteq> cached c \<union> uses w" "r = Inr f \<Longrightarrow> (wf_tenant_id f, wf_id f) \<in> cached c \<union> uses w"
proof -
  obtain r1 c1 where g: "get_by_webhook_path now p c = (r1, c1)" by (metis surj_pair)
  then have c1: "cached c1 \<subseteq> cached c" "\<And>f. r1 = Some f \<Longrightarrow> (wf_tenant_id f, wf_id f) \<in> cached c"
    using cached_get by (auto simp: get_by_webhook_path_def split: option.splits)
  have found: "(wf_tenant_id f, wf_id f) \<in> uses w" if "lookup_workflow_by_path p w = Inr f" for f
    using lookup_workflow_by_path_Inr [OF that] keys_used(4) by blast
  show "cached c' \<subseteq> cached c \<union> uses w"
    using assms g c1(1) found cached_set by (fastforce simp: resolve_workflow_def split: option.splits sum.splits)
  show "r = Inr f \<Longrightarrow> (wf_tenant_id f, wf_id f) \<in> cached c \<union> uses w"
    using assms g c1(2) found by (auto simp: resolve_workflow_def split: option.splits sum.splits)
qed

section \<open>Tidy states\<close>

definition service_uses :: "service \<Rightarrow> (uuid \<times> uuid) set" where
  "service_uses s = uses (fst s) \<union> cached (snd s)"

definition tidy :: "env \<Rightarrow> service \<Rightarrow> bool" where
  "tidy E s \<longleftrightarrow> sound E (fst s) \<and>
    (\<forall>t i. (t, i) \<in> service_uses s \<longrightarrow> t < 2 ^ 128 \<and> i \<in> drawn_ids E (w_ticks (fst s))) \<and>
    (\<forall>t t' i. (t, i) \<in> service_uses s \<longrightarrow> (t', i) \<in> service_uses s \<longrightarrow> t = t') \<and>
    (\<forall>x\<in>set (w_executions (fst s)). names (\<lambda>t. t = ex_tenant_id x) (ex_context x))"

definition foreign :: "uuid \<Rightarrow> service \<Rightarrow> uuid set" where
  "foreign T s = {i. \<exists>t. t \<noteq> T \<and> (t, i) \<in> service_uses s}"

text \<open>A tidy state is where an operation can start, and where tenants are separated.\<close>

lemma tidy_mine:
  assumes "tidy E s" "\<And>f. f \<in> set (w_workflows (fst s)) \<Longrightarrow> wf_id f \<in> K \<Longrightarrow> wf_tenant_id f = T"
  shows "mine E T (foreign T s) K (fst s)"
proof -
  have inj: "inj (env_uuid E)" using assms(1) by (simp add: tidy_def sound_def)
  have "env_uuid E n \<notin> foreign T s" if "w_ticks (fst s) \<le> n" for n
    using assms(1) drawn_next [OF inj that] unfolding tidy_def foreign_def by blast
  moreover have "if t = T then i \<in> drawn_ids E (w_ticks (fst s)) - foreign T s else i \<in> foreign T s"
    if "(t, i) \<in> uses (fst s)" for t i
  proof -
    have "(t, i) \<in> service_uses s" using that by (simp add: service_uses_def)
    then show ?thesis using assms(1) unfolding tidy_def foreign_def by (cases "t = T") auto
  qed
  moreover have "sound E (fst s)" "\<And>x. x \<in> set (w_executions (fst s)) \<Longrightarrow> ex_tenant_id x = T \<Longrightarrow> names (\<lambda>t. t = T) (ex_context x)"
    using assms(1) by (auto simp: tidy_def)
  ultimately show ?thesis using assms(2) unfolding mine_def by blast
qed

lemma tidy_separated:
  assumes "tidy E s"
  shows "separated E U (fst s)"
proof -
  let ?w = "fst s"
  have I: "idents (rows_of U ?w) = uses ?w `` {U}" by (rule idents_uses)
  have one: "t = t'" if "(t, i) \<in> uses ?w" "(t', i) \<in> uses ?w" for t t' i
    using assms that unfolding tidy_def service_uses_def by blast
  have other: "i \<notin> idents (rows_of U ?w)" if "(t, i) \<in> uses ?w" "t \<noteq> U" for t i
    using one [OF that(1), of U] that(2) by (auto simp: I)
  have "env_uuid E n \<notin> idents (rows_of U ?w)" if "w_ticks ?w \<le> n" for n
  proof -
    have "inj (env_uuid E)" using assms by (simp add: tidy_def sound_def)
    from drawn_next [OF this that] show ?thesis
      using assms unfolding I tidy_def service_uses_def by blast
  qed
  moreover have "names (\<lambda>t. t \<noteq> U) (ex_context x)" if "x \<in> set (w_executions ?w)" "ex_tenant_id x \<noteq> U" for x
    using assms that by (auto simp: tidy_def names_def)
  ultimately show ?thesis
    using other [OF keys_used(1)] other [OF keys_used(2)] other [OF keys_used(3)] other [OF keys_used(4)]
      other [OF keys_used(5)]
    unfolding separated_def apart_def by blast
qed

text \<open>An operation for one tenant, from a tidy state to a tidy state.\<close>

lemma tidy_after:
  assumes tidy: "tidy E s" and T: "T < 2 ^ 128" and acts: "acts E T s s'"
    and mine: "mine E T (foreign T s) K (fst s') \<and> w_ticks (fst s) \<le> w_ticks (fst s')"
    and cache: "cached (snd s') \<subseteq> service_uses s"
  shows "tidy E s'"
proof -
  have rows: "rows_of U (fst s') = rows_of U (fst s)" if "U \<noteq> T" for U
    using acts_apart [OF acts tidy_separated [OF tidy, unfolded separated_def] that [symmetric] T] apart_separated by blast
  have kept: "(t, i) \<in> uses (fst s)" if "(t, i) \<in> uses (fst s')" "t \<noteq> T" for t i
  proof -
    have "idents (rows_of t (fst s')) = idents (rows_of t (fst s))" by (simp only: rows [OF that(2)])
    with that(1) show ?thesis unfolding idents_uses by blast
  qed
  have mono: "drawn_ids E (w_ticks (fst s)) \<subseteq> drawn_ids E (w_ticks (fst s'))" using mine by (simp add: drawn_mono)
  have cases: "(t, i) \<in> service_uses s \<or> t = T \<and> i \<in> drawn_ids E (w_ticks (fst s')) \<and> i \<notin> foreign T s"
    if u: "(t, i) \<in> service_uses s'" for t i
  proof (cases "(t, i) \<in> cached (snd s')")
    case False
    with u have "(t, i) \<in> uses (fst s')" by (simp add: service_uses_def)
    with kept [OF this] mine_uses(2) [of E T "foreign T s" K "fst s'" t i] mine show ?thesis
      by (cases "t = T") (auto simp: service_uses_def)
  qed (use cache in auto)
  have "t < 2 ^ 128 \<and> i \<in> drawn_ids E (w_ticks (fst s'))" if "(t, i) \<in> service_uses s'" for t i
    using cases [OF that] tidy T mono unfolding tidy_def by blast
  moreover have "t = t'" if "(t, i) \<in> service_uses s'" "(t', i) \<in> service_uses s'" for t t' i
  proof -
    have "t = t'" if "(t, i) \<in> service_uses s" "(t', i) \<in> service_uses s" using tidy that unfolding tidy_def by blast
    moreover have "u = T" if "(u, i) \<in> service_uses s" "i \<notin> foreign T s" for u using that by (auto simp: foreign_def)
    ultimately show ?thesis using cases [OF that(1)] cases [OF that(2)] by metis
  qed
  moreover have "names (\<lambda>t. t = ex_tenant_id x) (ex_context x)" if x: "x \<in> set (w_executions (fst s'))" for x
  proof (cases "ex_tenant_id x = T")
    case True
    with x mine show ?thesis by (simp add: mine_def)
  next
    case False
    have "x \<in> set (tv_executions (rows_of (ex_tenant_id x) (fst s')))" using x by (simp add: rows_of_def)
    with rows [OF False] have "x \<in> set (w_executions (fst s))" by (simp add: rows_of_def)
    with tidy show ?thesis by (simp add: tidy_def)
  qed
  moreover have "sound E (fst s')" using mine by (simp add: mine_def)
  ultimately show ?thesis unfolding tidy_def by blast
qed

section \<open>Reachable states\<close>

definition new_service :: "nat \<Rightarrow> int \<Rightarrow> service" where
  "new_service max_size ttl = (empty_world, new_cache max_size ttl)"

text \<open>
  What can happen next. A log entry is about an execution of its tenant; a job of the schedule
  names a workflow of its tenant, or one that is gone. Tenants have identifiers of 128 bits.
\<close>

inductive reachable :: "env \<Rightarrow> service \<Rightarrow> bool" for E :: env where
  starts: "reachable E (new_service max_size ttl)"
| registers: "reachable E s \<Longrightarrow> on_database (register_tenant_endpoint E name) s = (r, s') \<Longrightarrow> reachable E s'"
| requests: "reachable E s \<Longrightarrow> T < 2 ^ 128 \<Longrightarrow> handles E T s s' \<Longrightarrow> reachable E s'"
| records: "reachable E s \<Longrightarrow> T < 2 ^ 128 \<Longrightarrow> find_execution (fst s) i = Some x \<Longrightarrow> ex_tenant_id x = T \<Longrightarrow>
    on_database (in_session E (record_execution_log E T i level m st d)) s = (r, s') \<Longrightarrow> reachable E s'"
| delivers: "reachable E s \<Longrightarrow> receive_webhook E loads now now' p rq s = (r, s') \<Longrightarrow> reachable E s'"
| fires: "reachable E s \<Longrightarrow> uuid_parse t = Inr T \<Longrightarrow>
    (\<And>k f. uuid_parse i = Inr k \<Longrightarrow> find_workflow (fst s) k = Some f \<Longrightarrow> wf_tenant_id f = T) \<Longrightarrow>
    on_database (execute_cron_workflow E i t) s = (r, s') \<Longrightarrow> reachable E s'"
| cleans: "reachable E s \<Longrightarrow> on_database (cleanup_stale_executions E) s = (r, s') \<Longrightarrow> reachable E s'"
| prunes_logs: "reachable E s \<Longrightarrow> on_database (prune_execution_logs E) s = (r, s') \<Longrightarrow> reachable E s'"
| prunes_deliveries: "reachable E s \<Longrightarrow> on_database (prune_webhook_deliveries E) s = (r, s') \<Longrightarrow> reachable E s'"

lemma tidy_new: "inj (env_uuid E) \<Longrightarrow> tidy E (new_service m t)"
  by (simp add: tidy_def new_service_def empty_world_def new_cache_def sound_def primary_keys_def service_uses_def uses_def cached_def)

text \<open>Steps that write no row of a tenant, or only what no key or reference depends on.\<close>

lemma tidy_same:
  assumes "tidy E s" "w_ticks (fst s) \<le> w_ticks (fst s')" "primary_keys (fst s')"
    and "service_uses s' \<subseteq> service_uses s" "set (w_logs (fst s')) \<subseteq> set (w_logs (fst s))" "w_events (fst s') = w_events (fst s)"
    and "\<And>x. x \<in> set (w_executions (fst s')) \<Longrightarrow>
      \<exists>y\<in>set (w_executions (fst s)). ex_tenant_id y = ex_tenant_id x \<and> ex_context y = ex_context x"
  shows "tidy E s'"
proof -
  have "sound E (fst s')"
    by (rule sound_later [of E "fst s"]) (use assms in \<open>auto simp: tidy_def\<close>)
  moreover have "names (\<lambda>t. t = ex_tenant_id x) (ex_context x)" if "x \<in> set (w_executions (fst s'))" for x
    using assms(7) [OF that] assms(1) unfolding tidy_def by metis
  ultimately show ?thesis
    using assms(1,4) subsetD [OF drawn_mono [OF assms(2), of E]] unfolding tidy_def by blast
qed

lemma tidy_registered:
  assumes "tidy E s" "on_database (register_tenant_endpoint E name) s = (r, s')"
  shows "tidy E s'"
proof -
  have same: "snd s' = snd s" "w_workflows (fst s') = w_workflows (fst s)" "w_executions (fst s') = w_executions (fst s)"
    "w_steps (fst s') = w_steps (fst s)" "w_logs (fst s') = w_logs (fst s)" "w_deliveries (fst s') = w_deliveries (fst s)"
    "w_events (fst s') = w_events (fst s)" "w_ticks (fst s) \<le> w_ticks (fst s')"
    using assms(2)
    by (auto simp: on_database_def register_tenant_endpoint_def register_tenant_def in_session_def andthen_def generate_api_key_def
        hash_key_def generate_uuid_def insert_tenant_def split: if_splits prod.splits)
  then have "service_uses s' = service_uses s" by (simp add: service_uses_def uses_def)
  moreover have "primary_keys (fst s')" using same assms(1) by (simp add: primary_keys_def tidy_def sound_def)
  ultimately show ?thesis using same by (intro tidy_same [OF assms(1)]) auto
qed

lemma tidy_pruned:
  assumes "tidy E s" "on_database (prune_execution_logs E) s = (r, s') \<or> on_database (prune_webhook_deliveries E) s = (r, s')"
  shows "tidy E s'"
proof -
  have same: "snd s' = snd s" "w_workflows (fst s') = w_workflows (fst s)" "w_executions (fst s') = w_executions (fst s)"
    "w_steps (fst s') = w_steps (fst s)" "w_events (fst s') = w_events (fst s)" "w_ticks (fst s) \<le> w_ticks (fst s')"
    and pruned: "\<exists>P Q. w_logs (fst s') = filter P (w_logs (fst s)) \<and> w_deliveries (fst s') = filter Q (w_deliveries (fst s))"
    using assms(2)
    by (auto simp: on_database_def prune_execution_logs_def prune_webhook_deliveries_def in_session_def andthen_def utc_now_def Let_def
        split: prod.splits intro: exI [of _ "\<lambda>x. True"])
  obtain P Q where pq: "w_logs (fst s') = filter P (w_logs (fst s))" "w_deliveries (fst s') = filter Q (w_deliveries (fst s))"
    using pruned by blast
  have "service_uses s' \<subseteq> service_uses s" using same pq by (auto simp: service_uses_def uses_def)
  moreover have "primary_keys (fst s')"
    using same pq assms(1) by (simp add: primary_keys_def tidy_def sound_def distinct_map_filter)
  ultimately show ?thesis using same pq by (intro tidy_same [OF assms(1)]) auto
qed

lemma tidy_cleaned:
  assumes "tidy E s" "on_database (cleanup_stale_executions E) s = (r, s')"
  shows "tidy E s'"
proof -
  let ?w = "fst s"
  let ?F = "\<lambda>x. if ex_id x \<in> stale_ids_at E ?w then failed_execution (env_now E (Suc (w_ticks ?w))) x else x"
  let ?G = "\<lambda>q. if se_execution_id q \<in> stale_ids_at E ?w \<and> active (se_status q)
    then failed_stale_step (env_now E (Suc (w_ticks ?w))) q else q"
  obtain n w' where run: "cleanup_stale_executions E ?w = (Inr n, w')" "w_executions w' = map ?F (w_executions ?w)"
    "w_steps w' = map ?G (w_steps ?w)" "w_workflows w' = w_workflows ?w" "w_logs w' = w_logs ?w"
    "w_deliveries w' = w_deliveries ?w" "w_events w' = w_events ?w"
    by (rule cleanup_run [of E ?w]) blast
  then have s': "s' = (w', snd s)" using assms(2) by (simp add: on_database_def)
  have ticks: "w_ticks ?w \<le> w_ticks w'"
    using run(1) by (auto simp: cleanup_stale_executions_def andthen_def utc_now_def in_session_def Let_def fail_steps_def
        fail_executions_def split: if_splits)
  have F: "(\<Union>x\<in>set (map ?F xs). Pair (ex_tenant_id x) ` execution_uses x) = (\<Union>x\<in>set xs. Pair (ex_tenant_id x) ` execution_uses x)" for xs
    by (rule UN_map_same) (simp add: failed_execution_def execution_uses_def)
  have G: "(\<Union>q\<in>set (map ?G qs). Pair (se_tenant_id q) ` {se_id q, se_execution_id q}) =
      (\<Union>q\<in>set qs. Pair (se_tenant_id q) ` {se_id q, se_execution_id q})" for qs
    by (rule UN_map_same) (simp add: failed_stale_step_def)
  have "uses w' = uses ?w" unfolding uses_def run(2-6) F G ..
  moreover have "map ex_id (map ?F xs) = map ex_id xs" "map se_id (map ?G qs) = map se_id qs" for xs qs
    by (induction xs, simp_all add: failed_execution_def) (induction qs, simp_all add: failed_stale_step_def)
  then have "primary_keys w'" using assms(1) run by (simp add: primary_keys_def tidy_def sound_def del: map_map)
  moreover have "\<exists>y\<in>set (w_executions ?w). ex_tenant_id y = ex_tenant_id x \<and> ex_context y = ex_context x"
    if "x \<in> set (w_executions w')" for x
    using that run(2) by (auto simp: failed_execution_def)
  ultimately show ?thesis
    using s' ticks run(5,7) by (intro tidy_same [OF assms(1)]) (auto simp: service_uses_def)
qed

lemma handles_cache:
  assumes "handles E T s s'" shows "cached (snd s') \<subseteq> cached (snd s)"
  using assms
proof cases
  case (updates i u r)
  from update_workflow_database [OF this] cached_invalidate show ?thesis by (metis order_refl)
next
  case (deletes i r)
  from delete_workflow_database [OF this] cached_invalidate show ?thesis by (metis order_refl)
next
  case started
  then show ?thesis by (cases rule: runs.cases) (auto simp: on_database_def split: prod.splits)
qed (auto simp: on_database_def split: prod.splits)

lemma tidy_request:
  assumes "tidy E s" "T < 2 ^ 128" "handles E T s s'"
  shows "tidy E s'"
  by (rule tidy_after [OF assms(1,2) acts.handled [OF assms(3)] mine.handles_keeps [OF assms(3) refl assms(2) tidy_mine [OF assms(1)]],
      where K = "{}"]) (use handles_cache [OF assms(3)] in \<open>auto simp: service_uses_def\<close>)

lemma tidy_record:
  assumes tidy: "tidy E s" and T: "T < 2 ^ 128" and x: "find_execution (fst s) i = Some x" "ex_tenant_id x = T"
    and run: "on_database (in_session E (record_execution_log E T i level m st d)) s = (r, s')"
  shows "tidy E s'"
proof -
  have mine: "mine E T (foreign T s) {} (fst s)" by (rule tidy_mine [OF tidy]) simp
  have "i \<in> drawn_ids E (w_ticks (fst s)) - foreign T s" by (rule mine.own_execution [OF mine x])
  from keeps_database_run [OF mine.keeps_in_session [OF mine.keeps_record_log [OF refl this]] run mine order_refl]
  show ?thesis
    by (rule tidy_after [OF tidy T acts.logs [OF run]]) (use run in \<open>auto simp: on_database_def service_uses_def split: prod.splits\<close>)
qed

lemma tidy_delivery:
  assumes tidy: "tidy E s" and run: "receive_webhook E loads now now' p rq s = (r, s')"
  shows "tidy E s'"
proof -
  obtain res c where resolve: "resolve_workflow now now' p (fst s) (snd s) = (res, c)" by (metis surj_pair)
  have c: "cached c \<subseteq> service_uses s" using cached_resolve(1) [OF resolve] by (auto simp: service_uses_def)
  have same: "tidy E (fst s, c)"
    by (rule tidy_same [OF tidy]) (use c tidy in \<open>auto simp: service_uses_def tidy_def sound_def\<close>)
  show ?thesis
  proof (cases res)
    case (Inl e)
    with run resolve have "s' = s \<or> s' = (fst s, c)" by (auto elim!: receive_webhook_cases)
    with tidy same show ?thesis by auto
  next
    case (Inr flow)
    let ?T = "wf_tenant_id flow"
    have u: "(?T, wf_id flow) \<in> service_uses s"
      using cached_resolve(2) [OF resolve Inr] by (auto simp: service_uses_def)
    then have T: "?T < 2 ^ 128" and own: "wf_id flow \<in> drawn_ids E (w_ticks (fst s)) - foreign ?T s"
      using tidy unfolding tidy_def foreign_def by auto
    note found = resolve [unfolded Inr]
    have "mine E ?T (foreign ?T s) {} (fst s)" by (rule tidy_mine [OF tidy]) simp
    from mine.keeps_receive [OF this found refl T own run] show ?thesis
      by (rule tidy_after [OF tidy T acts.receives [OF found refl run]])
        (use run found c in \<open>auto simp: service_uses_def elim!: receive_webhook_cases\<close>)
  qed
qed

lemma tidy_fire:
  assumes tidy: "tidy E s" and t: "uuid_parse t = Inr T"
    and flow: "\<And>k f. uuid_parse i = Inr k \<Longrightarrow> find_workflow (fst s) k = Some f \<Longrightarrow> wf_tenant_id f = T"
    and keys: "distinct (map wf_id (w_workflows (fst s)))"
    and run: "on_database (execute_cron_workflow E i t) s = (r, s')"
  shows "tidy E s'"
proof -
  let ?K = "{k. uuid_parse i = Inr k}"
  have T: "T < 2 ^ 128" using json_uuid_bound [of "JStr t"] t by simp
  have "mine E T (foreign T s) ?K (fst s)"
  proof (rule tidy_mine [OF tidy])
    fix f assume f: "f \<in> set (w_workflows (fst s))" "wf_id f \<in> ?K"
    then have "find_workflow (fst s) (wf_id f) = Some f"
      using keys by (simp add: find_workflow_def find_distinct)
    with flow f(2) show "wf_tenant_id f = T" by simp
  qed
  moreover have "wf_id f \<in> drawn_ids E (w_ticks w) - foreign T s"
    if "uuid_parse i = Inr k" "mine E T (foreign T s) ?K w" "find_workflow w k = Some f" for w k f
  proof -
    have "f \<in> set (w_workflows w)" "wf_id f = k" using that(3) by (auto simp: find_workflow_def dest: find_SomeD)
    then have "wf_tenant_id f = T" using that(1,2) by (simp add: mine_def)
    from mine.own_workflow [OF that(2,3) this] show ?thesis using \<open>wf_id f = k\<close> by simp
  qed
  ultimately have "mine E T (foreign T s) ?K (fst s') \<and> w_ticks (fst s) \<le> w_ticks (fst s')"
    by (intro keeps_database_run [OF mine.keeps_cron [OF t refl] run _ le0])
  then show ?thesis
    by (rule tidy_after [OF tidy T acts.ticks [OF t run]]) (use run in \<open>auto simp: on_database_def service_uses_def split: prod.splits\<close>)
qed

section \<open>What holds in every reachable state\<close>

text \<open>Operations that leave the table of workflows alone.\<close>

lemma catalogue_same_workflows: "w_workflows w' = w_workflows w \<Longrightarrow> catalogue_ok E w' = catalogue_ok E w"
  by (simp add: catalogue_ok_def)

lemma tidy_fresh_workflows:
  assumes "tidy E s"
  shows "fresh_workflows E (fst s)"
  unfolding fresh_workflows_def
proof (intro allI impI)
  fix n assume n: "w_ticks (fst s) \<le> n"
  have "inj (env_uuid E)" using assms by (simp add: tidy_def sound_def)
  then have new: "env_uuid E n \<notin> drawn_ids E (w_ticks (fst s))" using n by (rule drawn_next)
  have "wf_id f \<in> drawn_ids E (w_ticks (fst s))" if "f \<in> set (w_workflows (fst s))" for f
    using keys_used(4) [OF that] assms unfolding tidy_def service_uses_def by blast
  with new have "wf_id f \<noteq> env_uuid E n" if "f \<in> set (w_workflows (fst s))" for f using that by metis
  then show "find_workflow (fst s) (env_uuid E n) = None" by (auto simp: find_workflow_def find_None_iff)
qed

lemma catalogue_request:
  assumes "handles E T s s'" "T < 2 ^ 128" "catalogue_ok E (fst s)" "tidy E s"
  shows "catalogue_ok E (fst s')"
  using assms(1)
proof cases
  case (creates b r)
  then have "fst s' = snd (create_workflow E T b (fst s))" by (auto simp: on_database_def split: prod.splits)
  then show ?thesis using create_keeps_catalogue [OF assms(3) tidy_fresh_workflows [OF assms(4)]] by simp
next
  case (updates i u r)
  then show ?thesis using update_keeps_catalogue [OF assms(3), of T i u "snd s"] by simp
next
  case (deletes i r)
  then show ?thesis using delete_keeps_catalogue [OF assms(3), of T i "snd s"] by simp
next
  case started
  from catalogue.runs_keeps [OF this TrueI assms(2) refl] have "w_workflows (fst s') = w_workflows (fst s)" ..
  from catalogue_same_workflows [OF this] assms(3) show ?thesis by simp
qed

lemma catalogue_delivery:
  assumes "receive_webhook E loads now now' p rq s = (r, s')" "catalogue_ok E (fst s)" "tidy E s"
  shows "catalogue_ok E (fst s')"
proof -
  obtain res c where resolve: "resolve_workflow now now' p (fst s) (snd s) = (res, c)" by (metis surj_pair)
  have "w_workflows (fst s') = w_workflows (fst s)"
  proof (cases res)
    case (Inl e)
    with assms(1) resolve show ?thesis by (auto elim!: receive_webhook_cases)
  next
    case (Inr flow)
    then have "(wf_tenant_id flow, wf_id flow) \<in> service_uses s"
      using cached_resolve(2) [OF resolve] by (auto simp: service_uses_def)
    then have T: "wf_tenant_id flow < 2 ^ 128" using assms(3) unfolding tidy_def by blast
    from catalogue.keeps_receive [OF refl resolve [unfolded Inr] TrueI T UNIV_I assms(1)] show ?thesis ..
  qed
  from catalogue_same_workflows [OF this] assms(2) show ?thesis by simp
qed

lemma workflows_database:
  assumes "keeps (\<lambda>v. w_workflows v = w_workflows (fst s)) 0 m Q" "on_database m s = (r, s')"
  shows "catalogue_ok E (fst s') = catalogue_ok E (fst s)"
  by (rule catalogue_same_workflows) (use keeps_database_run [OF assms] in simp)

lemma reachable_invariant:
  assumes "reachable E s" "inj (env_uuid E)"
  shows "tidy E s \<and> catalogue_ok E (fst s)"
  using assms(1)
proof induction
  case (starts m t)
  show ?case using tidy_new [OF assms(2)] by (simp add: new_service_def empty_world_def catalogue_ok_def unique_paths_def)
next
  case (registers s name r s')
  have "w_workflows (fst s') = w_workflows (fst s)"
    using registers(2) by (auto simp: on_database_def register_tenant_endpoint_def register_tenant_def in_session_def andthen_def
        generate_api_key_def hash_key_def generate_uuid_def insert_tenant_def split: if_splits prod.splits)
  from catalogue_same_workflows [OF this] registers tidy_registered show ?case by blast
next
  case (requests s T s')
  then show ?case using tidy_request catalogue_request by blast
next
  case (records s T i x level m st d r s')
  have "catalogue_ok E (fst s') = catalogue_ok E (fst s)"
    by (rule workflows_database [OF catalogue.keeps_in_session [OF catalogue.keeps_record_log [OF TrueI UNIV_I]] records(5)])
  with records show ?case using tidy_record [OF _ records(2-5)] by blast
next
  case (delivers s loads now now' p rq r s')
  then show ?case using tidy_delivery catalogue_delivery by blast
next
  case (fires s t T i r s')
  have "catalogue_ok E (fst s') = catalogue_ok E (fst s)"
    by (rule workflows_database [OF catalogue.keeps_cron [OF fires(2) TrueI UNIV_I] fires(4)])
  moreover have "distinct (map wf_id (w_workflows (fst s)))" using fires.IH by (simp add: catalogue_ok_def)
  then have "tidy E s'" by (intro tidy_fire [OF _ fires(2) _ _ fires(4)]) (use fires in auto)
  ultimately show ?case using fires.IH by blast
next
  case (cleans s r s')
  have "w_workflows (fst s') = w_workflows (fst s)"
    by (rule cleanup_run [of E "fst s"]) (use cleans(2) in \<open>auto simp: on_database_def\<close>)
  from catalogue_same_workflows [OF this] cleans tidy_cleaned show ?case by blast
next
  case (prunes_logs s r s')
  have "w_workflows (fst s') = w_workflows (fst s)"
    using prunes_logs(2) by (auto simp: on_database_def prune_execution_logs_def in_session_def andthen_def utc_now_def Let_def)
  from catalogue_same_workflows [OF this] prunes_logs tidy_pruned show ?case by blast
next
  case (prunes_deliveries s r s')
  have "w_workflows (fst s') = w_workflows (fst s)"
    using prunes_deliveries(2) by (auto simp: on_database_def prune_webhook_deliveries_def in_session_def andthen_def utc_now_def Let_def)
  from catalogue_same_workflows [OF this] prunes_deliveries tidy_pruned show ?case by blast
qed

text \<open>Nothing refers to an identifier that is still to be drawn.\<close>

lemma drawn_history:
  assumes "\<forall>e\<in>set es. event_in S e" "i \<notin> S"
  shows "execution_history i es = []" "step_history i es = []"
proof -
  have "execution_history i es = [] \<and> step_history i es = []"
    using assms
  proof (induction es)
    case (Cons e es)
    then show ?case by (cases e) auto
  qed simp
  then show "execution_history i es = []" "step_history i es = []" by simp_all
qed

lemma tidy_fresh_ids:
  assumes "tidy E s"
  shows "fresh_ids E (fst s)"
proof -
  have inj: "inj (env_uuid E)" and events: "\<forall>e\<in>set (w_events (fst s)). event_in (drawn_ids E (w_ticks (fst s))) e"
    using assms by (auto simp: tidy_def sound_def)
  have "find_execution (fst s) (env_uuid E n) = None \<and> find_step (fst s) (env_uuid E n) = None \<and>
      execution_history (env_uuid E n) (w_events (fst s)) = [] \<and> step_history (env_uuid E n) (w_events (fst s)) = []"
    if n: "w_ticks (fst s) \<le> n" for n
  proof -
    have new: "env_uuid E n \<notin> drawn_ids E (w_ticks (fst s))" by (rule drawn_next [OF inj n])
    have "ex_id x \<in> drawn_ids E (w_ticks (fst s))" if "x \<in> set (w_executions (fst s))" for x
      using keys_used(1) [OF that] assms unfolding tidy_def service_uses_def by blast
    moreover have "se_id q \<in> drawn_ids E (w_ticks (fst s))" if "q \<in> set (w_steps (fst s))" for q
      using keys_used(2) [OF that] assms unfolding tidy_def service_uses_def by blast
    ultimately have "find_execution (fst s) (env_uuid E n) = None" "find_step (fst s) (env_uuid E n) = None"
      using new unfolding find_execution_def find_step_def find_None_iff by metis+
    with drawn_history [OF events new] show ?thesis by simp
  qed
  with inj show ?thesis by (simp add: fresh_ids_def)
qed

lemma tidy_keys: "tidy E s \<Longrightarrow> primary_keys (fst s) \<and> keys_ok (fst s)"
  by (simp add: tidy_def sound_def primary_keys_def keys_ok_def)

section \<open>Step rows and key prefixes\<close>

definition prefixes_unique :: "world \<Rightarrow> bool" where
  "prefixes_unique w \<longleftrightarrow> distinct (map tn_api_key_prefix (w_tenants w))"

lemma plain_receive:
  assumes "receive_webhook E loads now now' p rq s = (r, s')" "tidy E s" "steps_plain ts (fst s)"
  shows "steps_plain ts (fst s')"
proof -
  obtain res c where resolve: "resolve_workflow now now' p (fst s) (snd s) = (res, c)" by (metis surj_pair)
  show ?thesis
  proof (cases res)
    case (Inl e)
    with assms(1,3) resolve show ?thesis by (auto elim!: receive_webhook_cases)
  next
    case (Inr flow)
    then have "(wf_tenant_id flow, wf_id flow) \<in> service_uses s"
      using cached_resolve(2) [OF resolve] by (auto simp: service_uses_def)
    then have T: "wf_tenant_id flow < 2 ^ 128" using assms(2) unfolding tidy_def by blast
    from plain.keeps_receive [OF assms(3) resolve [unfolded Inr] TrueI T UNIV_I assms(1)] show ?thesis ..
  qed
qed

lemma plain_cleaned:
  assumes "on_database (cleanup_stale_executions E) s = (r, s')" "steps_plain ts (fst s)"
  shows "steps_plain ts (fst s')"
proof -
  obtain n w' where run: "cleanup_stale_executions E (fst s) = (Inr n, w')" "w_tenants w' = w_tenants (fst s)"
    "w_steps w' = map (\<lambda>q. if se_execution_id q \<in> stale_ids_at E (fst s) \<and> active (se_status q)
       then failed_stale_step (env_now E (Suc (w_ticks (fst s)))) q else q) (w_steps (fst s))"
    by (rule cleanup_run [of E "fst s"]) blast
  have "plain_step (failed_stale_step now q) = plain_step q" for now q
    by (simp add: plain_step_def failed_stale_step_def)
  with run assms show ?thesis by (auto simp: steps_plain_def on_database_def)
qed

lemma plain_pruned:
  assumes "on_database (prune_execution_logs E) s = (r, s') \<or> on_database (prune_webhook_deliveries E) s = (r, s')"
    and "steps_plain ts (fst s)"
  shows "steps_plain ts (fst s')"
  using assms
  by (auto simp: steps_plain_def on_database_def prune_execution_logs_def prune_webhook_deliveries_def in_session_def
      andthen_def utc_now_def Let_def split: prod.splits)

lemma plain_registered:
  assumes "on_database (register_tenant_endpoint E name) s = (r, s')" "steps_plain ts (fst s)" "prefixes_unique (fst s)"
  shows "(\<exists>ts'. steps_plain ts' (fst s')) \<and> prefixes_unique (fst s')"
proof -
  have run: "fst s' = snd (register_tenant_endpoint E name (fst s))"
    using assms(1) by (auto simp: on_database_def split: prod.splits)
  have same: ?thesis if "w_tenants (fst s') = w_tenants (fst s)" "w_steps (fst s') = w_steps (fst s)"
    using that assms(2,3) by (simp add: steps_plain_def prefixes_unique_def)
  obtain a v where a: "register_tenant E name (opened E (fst s)) = (a, v)" by (metis surj_pair)
  show ?thesis
  proof (cases "self_registration_enabled (env_settings E)")
    case False
    then show ?thesis using run by (intro same) (simp_all add: register_tenant_endpoint_def)
  next
    case True
    then have s': "fst s' = snd (in_session E (register_tenant E name) (fst s))"
      using run by (simp add: register_tenant_endpoint_def)
    from a show ?thesis
    proof (cases rule: register_tenant_cases)
      case (taken t)
      with a have "in_session E (register_tenant E name) (fst s) =
          (Inl integrity_error, (fst s)\<lparr>w_ticks := w_ticks v, w_events := w_events v\<rparr>)"
        unfolding in_session_Inl by blast
      with s' show ?thesis by (intro same) simp_all
    next
      case (added key t)
      from a have "in_session E (register_tenant E name) (fst s) = (a, v)"
        unfolding added(4) in_session_Inr .
      then have "fst s' = v" using s' by simp
      then have new: "w_tenants (fst s') = w_tenants (fst s) @ [t]" "w_steps (fst s') = w_steps (fst s)"
        unfolding added(5) by simp_all
      have "tn_api_key_prefix t \<notin> tn_api_key_prefix ` set (w_tenants (fst s))"
        using added(3) by (metis imageE opened_simps(8))
      with assms(2,3) show ?thesis unfolding steps_plain_def prefixes_unique_def new by auto
    qed
  qed
qed

theorem reachable_plain:
  assumes "reachable E s" "inj (env_uuid E)"
  shows "(\<forall>p\<in>set (w_steps (fst s)). plain_step p) \<and> prefixes_unique (fst s)"
proof -
  have "(\<exists>ts. steps_plain ts (fst s)) \<and> prefixes_unique (fst s)"
    using assms(1)
  proof induction
    case (starts m t)
    show ?case by (simp add: steps_plain_def prefixes_unique_def new_service_def empty_world_def)
  next
    case (registers s name r s')
    then show ?case using plain_registered by blast
  next
    case (requests s T s')
    have "steps_plain ts (fst s')" if "steps_plain ts (fst s)" for ts
      using plain.handles_keeps [OF requests(3) TrueI requests(2) that] ..
    with requests.IH show ?case by (auto simp: steps_plain_def prefixes_unique_def)
  next
    case (records s T i x level m st d r s')
    have "steps_plain ts (fst s')" if "steps_plain ts (fst s)" for ts
      using keeps_database_run [OF plain.keeps_in_session [OF plain.keeps_record_log [OF TrueI UNIV_I]] records(5) that le0] ..
    with records.IH show ?case by (auto simp: steps_plain_def prefixes_unique_def)
  next
    case (delivers s loads now now' p rq r s')
    have "steps_plain ts (fst s')" if "steps_plain ts (fst s)" for ts
      using plain_receive [OF delivers(2) _ that] reachable_invariant [OF delivers(1) assms(2)] by blast
    with delivers.IH show ?case by (auto simp: steps_plain_def prefixes_unique_def)
  next
    case (fires s t T i r s')
    have "steps_plain ts (fst s')" if "steps_plain ts (fst s)" for ts
      using keeps_database_run [OF plain.keeps_cron [OF fires(2) TrueI UNIV_I] fires(4) that le0] ..
    with fires.IH show ?case by (auto simp: steps_plain_def prefixes_unique_def)
  next
    case (cleans s r s')
    then show ?case using plain_cleaned by (auto simp: steps_plain_def prefixes_unique_def)
  next
    case (prunes_logs s r s')
    then show ?case using plain_pruned by (fastforce simp: steps_plain_def prefixes_unique_def)
  next
    case (prunes_deliveries s r s')
    then show ?case using plain_pruned by (fastforce simp: steps_plain_def prefixes_unique_def)
  qed
  then show ?thesis by (auto simp: steps_plain_def)
qed

end
