(* ===== verification/EventStream.thy ===== *)
theory EventStream
  imports ExecutionApi
begin

text \<open>
  The event stream of an execution (\<open>stream_execution\<close> of \<open>src/api/executions.py\<close>): after the
  lookup one frame that says the client is connected, then the data of every message of the
  execution's Redis channel, until the client is gone. What the channel answers at each poll,
  and whether the client is still there, is given as a list; a stream that goes on is a prefix.
\<close>

section \<open>JSON texts\<close>

text \<open>\<open>json.dumps\<close> of a text: quotes, backslashes and everything outside printable ASCII escaped.\<close>

definition json_escape :: "char \<Rightarrow> string" where
  "json_escape c =
    (let n = of_char c :: nat
     in if c = CHR 0x22 then [CHR 0x5C, CHR 0x22]
        else if c = CHR 0x5C then [CHR 0x5C, CHR 0x5C]
        else if n = 10 then [CHR 0x5C] @ ''n''
        else if n = 13 then [CHR 0x5C] @ ''r''
        else if n = 9 then [CHR 0x5C] @ ''t''
        else if n = 12 then [CHR 0x5C] @ ''f''
        else if n = 8 then [CHR 0x5C] @ ''b''
        else if n < 32 \<or> 126 < n then [CHR 0x5C] @ ''u'' @ hex_digits 4 n
        else [c])"

definition json_text :: "string \<Rightarrow> string" where
  "json_text s = [CHR 0x22] @ concat (map json_escape s) @ [CHR 0x22]"

definition connected_event :: "uuid \<Rightarrow> status \<Rightarrow> string" where
  "connected_event execution_id st =
    ''{'' @ json_text ''type'' @ '': '' @ json_text ''connected'' @ '', '' @
    json_text ''execution_id'' @ '': '' @ json_text (uuid_str execution_id) @ '', '' @
    json_text ''status'' @ '': '' @ json_text (status_str st) @ ''}''"

section \<open>The stream\<close>

definition sse_frame :: "string \<Rightarrow> string" where
  "sse_frame data = ''data: '' @ data @ [CHR 0x0A, CHR 0x0A]"

text \<open>One poll: a message with its type and data, none, or an exception; and the client's state.\<close>

record poll =
  pl_message :: "exn + (string \<times> string) option"
  pl_disconnected :: bool

fun relay :: "poll list \<Rightarrow> string list" where
  "relay [] = []"
| "relay (p # ps) =
    (case pl_message p of
       Inl e \<Rightarrow> []
     | Inr msg \<Rightarrow>
         (case msg of Some (t, data) \<Rightarrow> if t = ''message'' then [sse_frame data] else [] | None \<Rightarrow> []) @
         (if pl_disconnected p then [] else relay ps))"

text \<open>
  \<open>subscribed\<close> and \<open>polls\<close> say what Redis answers on a channel: whether the subscription succeeds,
  and what each poll brings. An exception ends the stream.
\<close>

definition event_channel :: "uuid \<Rightarrow> string" where
  "event_channel execution_id = ''execution:'' @ uuid_str execution_id @ '':events''"

definition event_generator ::
    "(string \<Rightarrow> exn + unit) \<Rightarrow> (string \<Rightarrow> poll list) \<Rightarrow> uuid \<Rightarrow> status \<Rightarrow> string list" where
  "event_generator subscribed polls execution_id st =
    (case subscribed (event_channel execution_id) of
       Inl e \<Rightarrow> []
     | Inr u \<Rightarrow> sse_frame (connected_event execution_id st) # relay (polls (event_channel execution_id)))"

record streaming_response =
  sg_content :: "string list"
  sg_media_type :: string
  sg_headers :: "(string \<times> string) list"

definition stream_execution ::
    "uuid \<Rightarrow> uuid \<Rightarrow> (string \<Rightarrow> exn + unit) \<Rightarrow> (string \<Rightarrow> poll list) \<Rightarrow> (world, streaming_response) proc" where
  "stream_execution tenant_id execution_id subscribed polls =
    andthen (get_tenant_execution tenant_id execution_id) (\<lambda>execution.
    ret \<lparr>sg_content = event_generator subscribed polls execution_id (ex_status execution),
      sg_media_type = ''text/event-stream'',
      sg_headers = [(''Cache-Control'', ''no-cache''), (''Connection'', ''keep-alive''), (''X-Accel-Buffering'', ''no'')]\<rparr>)"

section \<open>Frames\<close>

text \<open>An escaped text has no line feed and no bare quote, so the first frame is one line.\<close>

lemma json_escape_printable: "c \<in> set (json_escape d) \<Longrightarrow> 32 \<le> (of_char c :: nat) \<and> (of_char c :: nat) \<le> 126"
proof -
  assume c: "c \<in> set (json_escape d)"
  have hex: "32 \<le> (of_char h :: nat) \<and> (of_char h :: nat) \<le> 126" if "h \<in> set (hex_digits 4 n)" for h n
    using hex_digits_chars [OF that] by auto
  show ?thesis
    using c hex by (auto simp: json_escape_def Let_def split: if_splits)
qed

lemma connected_event_line: "CHR 0x0A \<notin> set (connected_event i st)"
  by (auto simp: connected_event_def json_text_def dest!: json_escape_printable)

lemma relay_until_disconnect:
  assumes "\<forall>p\<in>set ps. (\<exists>m. pl_message p = Inr m) \<and> \<not> pl_disconnected p"
  shows "relay (ps @ qs) = concat (map (\<lambda>p. case pl_message p of Inr (Some (t, data)) \<Rightarrow>
    if t = ''message'' then [sse_frame data] else [] | _ \<Rightarrow> []) ps) @ relay qs"
  using assms by (induction ps) (auto split: option.split)

text \<open>
  The stream answers 404 for a row of another tenant, and otherwise opens with the status the row has
  and relays what the channel of this execution brings; it changes nothing.
\<close>

lemma stream_execution_run:
  "stream_execution t i subscribed polls w =
    (case find_execution w i of
       None \<Rightarrow> (Inl (not_found ''Execution''), w)
     | Some e \<Rightarrow>
        if ex_tenant_id e \<noteq> t then (Inl (not_found ''Execution''), w)
        else (Inr \<lparr>sg_content = event_generator subscribed polls i (ex_status e),
          sg_media_type = ''text/event-stream'',
          sg_headers = [(''Cache-Control'', ''no-cache''), (''Connection'', ''keep-alive''), (''X-Accel-Buffering'', ''no'')]\<rparr>, w))"
  by (simp add: stream_execution_def andthen_def get_tenant_execution_def split: option.split)

end
