(* ===== verification/Runtime.thy ===== *)
theory Runtime
  imports Worker Cron
begin

text \<open>
  What the processes set up and take down: the Redis clients of \<open>src/db/redis.py\<close>, the lifespan of
  \<open>src/main.py\<close>, the logging of \<open>src/lib/logger.py\<close>, the worker of \<open>src/queue/worker.py\<close> with its
  start-up and shut-down, and \<open>dispatch_step\<close> of \<open>src/queue/tasks.py\<close>, which puts a step into the
  queue. What \<open>urlparse\<close> reads off a URL and what arq's connection pool does are parameters.
\<close>

section \<open>Logging\<close>

datatype renderer = ConsoleRenderer | JSONRenderer

record log_config =
  lc_processors :: "string list"
  lc_renderer :: renderer
  lc_level :: string
  lc_quiet :: "string list"

text \<open>\<open>setLevel\<close> of the standard library takes the names of its levels and raises on others.\<close>

definition level_names :: "string list" where
  "level_names = [''CRITICAL'', ''FATAL'', ''ERROR'', ''WARN'', ''WARNING'', ''INFO'', ''DEBUG'', ''NOTSET'']"

definition log_settings :: "settings \<Rightarrow> exn + log_config" where
  "log_settings s =
    (let level = py_upper (log_level s)
     in if level \<notin> set level_names then Inl (PyError ''ValueError'' (''Unknown level: '' @ quoted level))
        else Inr \<lparr>lc_processors = [''merge_contextvars'', ''add_log_level'', ''add_logger_name'', ''TimeStamper'',
               ''StackInfoRenderer'', ''UnicodeDecoder''],
             lc_renderer = (if is_development s \<or> is_testing s then ConsoleRenderer else JSONRenderer),
             lc_level = level, lc_quiet = [''uvicorn.access'', ''sqlalchemy.engine'']\<rparr>)"

section \<open>What a process holds\<close>

text \<open>
  Redis clients are numbered as they are made; \<open>rt_client\<close> is the module's \<open>_client\<close>.
  \<open>rt_logging\<close> is the logging configuration in force once it is complete, \<open>rt_engine\<close> says
  whether the connection pool of the database is open.
\<close>

record runtime =
  rt_made :: nat
  rt_open :: "nat list"
  rt_client :: "nat option"
  rt_engine :: bool
  rt_logging :: "log_config option"

definition configure_logging :: "settings \<Rightarrow> (runtime, unit) proc" where
  "configure_logging s rt =
    (case log_settings s of Inl e \<Rightarrow> (Inl e, rt) | Inr c \<Rightarrow> (Inr (), rt\<lparr>rt_logging := Some c\<rparr>))"

definition get_redis :: "runtime \<Rightarrow> nat \<times> runtime" where
  "get_redis rt = (rt_made rt, rt\<lparr>rt_made := Suc (rt_made rt), rt_open := rt_open rt @ [rt_made rt],
     rt_client := Some (rt_made rt)\<rparr>)"

definition aclose :: "nat \<Rightarrow> runtime \<Rightarrow> runtime" where
  "aclose c rt = rt\<lparr>rt_open := filter (\<lambda>d. d \<noteq> c) (rt_open rt)\<rparr>"

definition close_redis :: "runtime \<Rightarrow> runtime" where
  "close_redis rt =
    (case rt_client rt of None \<Rightarrow> rt | Some c \<Rightarrow> (aclose c rt)\<lparr>rt_client := None\<rparr>)"

definition dispose_engine :: "runtime \<Rightarrow> runtime" where
  "dispose_engine rt = rt\<lparr>rt_engine := False\<rparr>"

text \<open>The lifespan of the application: what is done before its \<open>yield\<close>, and what after it.\<close>

definition app_startup :: "env \<Rightarrow> 's scheduler_lib \<Rightarrow> world \<Rightarrow> ('s option \<times> runtime, unit) proc" where
  "app_startup E L w p =
    (case p of (scheduler, rt) \<Rightarrow>
       (case configure_logging (env_settings E) rt of
          (Inl e, rt') \<Rightarrow> (Inl e, (scheduler, rt'))
        | (Inr u, rt') \<Rightarrow> (Inr (), (startup E L w scheduler, rt'))))"

definition app_shutdown :: "'s option \<times> runtime \<Rightarrow> 's option \<times> runtime" where
  "app_shutdown p = (case p of (scheduler, rt) \<Rightarrow> (stop_scheduler scheduler, close_redis (dispose_engine rt)))"

section \<open>The address of the queue\<close>

text \<open>What \<open>urlparse\<close> gives; reading \<open>port\<close> raises when it is no port number.\<close>

record parsed_url =
  pu_hostname :: "string option"
  pu_port :: "exn + int option"
  pu_path :: string
  pu_password :: "string option"

record redis_settings =
  rd_host :: string
  rd_port :: int
  rd_database :: int
  rd_password :: "string option"

definition parse_redis_url :: "parsed_url \<Rightarrow> exn + redis_settings" where
  "parse_redis_url parsed =
    sum_bind (pu_port parsed) (\<lambda>port.
    let path = dropWhile (\<lambda>c. c = CHR ''/'') (pu_path parsed)
    in case (if path = '''' then Some 0 else py_int10 path) of
         None \<Rightarrow> Inl (PyError ''ValueError'' (''invalid literal for int() with base 10: '' @ quoted path))
       | Some database \<Rightarrow>
           Inr \<lparr>rd_host = (case pu_hostname parsed of None \<Rightarrow> ''localhost'' | Some h \<Rightarrow> if h = '''' then ''localhost'' else h),
             rd_port = (case port of None \<Rightarrow> 6379 | Some p \<Rightarrow> if p = 0 then 6379 else p),
             rd_database = database, rd_password = pu_password parsed\<rparr>)"

section \<open>Dispatching\<close>

text \<open>\<open>try: ... finally: ...\<close>: an exception of the cleanup replaces what the body ended with.\<close>

definition with_cleanup :: "('w, 'a) proc \<Rightarrow> ('w, unit) proc \<Rightarrow> ('w, 'a) proc" where
  "with_cleanup m c w =
    (case m w of (r, w') \<Rightarrow> (case c w' of (Inl e, w'') \<Rightarrow> (Inl e, w'') | (Inr u, w'') \<Rightarrow> (r, w'')))"

record ('q, 'p) pool_ops =
  po_create :: "redis_settings \<Rightarrow> ('q, 'p) proc"
  po_enqueue :: "'p \<Rightarrow> string \<Rightarrow> string list \<Rightarrow> ('q, string option) proc"
  po_close :: "'p \<Rightarrow> ('q, unit) proc"

definition dispatch_step :: "(string \<Rightarrow> exn + parsed_url) \<Rightarrow> ('q, 'p) pool_ops \<Rightarrow> settings \<Rightarrow>
    string \<Rightarrow> string \<Rightarrow> string \<Rightarrow> ('q, unit) proc" where
  "dispatch_step urlparse P s step_execution_id execution_id tenant_id =
    andthen (lift_result (sum_bind (urlparse (redis_url s)) parse_redis_url)) (\<lambda>redis_settings.
    andthen (po_create P redis_settings) (\<lambda>pool.
    with_cleanup
      (andthen (po_enqueue P pool ''execute_step'' [step_execution_id, execution_id, tenant_id]) (\<lambda>job. ret ()))
      (po_close P pool)))"

section \<open>The worker\<close>

record worker_ctx =
  wx_factory :: bool
  wx_redis :: "nat option"

definition on_startup :: "settings \<Rightarrow> (worker_ctx \<times> runtime, unit) proc" where
  "on_startup s p =
    (case configure_logging s (snd p) of
       (Inl e, rt) \<Rightarrow> (Inl e, (fst p, rt))
     | (Inr u, rt) \<Rightarrow>
         (case get_redis rt of (c, rt') \<Rightarrow> (Inr (), ((fst p)\<lparr>wx_factory := True, wx_redis := Some c\<rparr>, rt'))))"

definition on_shutdown :: "worker_ctx \<times> runtime \<Rightarrow> worker_ctx \<times> runtime" where
  "on_shutdown p =
    (fst p, dispose_engine (case wx_redis (fst p) of None \<Rightarrow> snd p | Some c \<Rightarrow> aclose c (snd p)))"

text \<open>A scheduled job of the worker: at which hour and minute, and what it runs.\<close>

record cron_entry =
  ce_name :: string
  ce_hour :: "int option"
  ce_minute :: "int option"
  ce_run :: "(world, nat) proc"

record worker_settings =
  ws_functions :: "(string \<times> (string list \<Rightarrow> (world, dict) proc)) list"
  ws_cron_jobs :: "cron_entry list"
  ws_redis_settings :: redis_settings
  ws_max_jobs :: int

definition worker_settings_of :: "env \<Rightarrow> (string \<Rightarrow> exn + parsed_url) \<Rightarrow> worker_ctx \<Rightarrow> exn + worker_settings" where
  "worker_settings_of E urlparse ctx =
    sum_bind (sum_bind (urlparse (redis_url (env_settings E))) parse_redis_url) (\<lambda>rs.
    Inr \<lparr>ws_functions = [(''execute_step'', \<lambda>args. case args of
           [se, ex, t] \<Rightarrow> execute_step E (wx_factory ctx) se ex
         | _ \<Rightarrow> raise (PyError ''TypeError'' ''execute_step() takes 4 positional arguments''))],
       ws_cron_jobs =
         [\<lparr>ce_name = ''cleanup_stale_executions'', ce_hour = None, ce_minute = Some 0, ce_run = cleanup_stale_executions E\<rparr>,
          \<lparr>ce_name = ''prune_execution_logs'', ce_hour = Some 2, ce_minute = Some 0, ce_run = prune_execution_logs E\<rparr>,
          \<lparr>ce_name = ''prune_webhook_deliveries'', ce_hour = Some 3, ce_minute = Some 0, ce_run = prune_webhook_deliveries E\<rparr>],
       ws_redis_settings = rs, ws_max_jobs = arq_concurrency (env_settings E)\<rparr>)"

definition due :: "int \<Rightarrow> int \<Rightarrow> cron_entry \<Rightarrow> bool" where
  "due hour minute e \<longleftrightarrow> (case ce_hour e of None \<Rightarrow> True | Some h \<Rightarrow> h = hour) \<and>
     (case ce_minute e of None \<Rightarrow> True | Some m \<Rightarrow> m = minute)"

section \<open>What is closed, and what is not\<close>

text \<open>
  Of the clients that \<open>n\<close> requests make, the shut-down closes the last: the rate limit and the
  health check make one for each call and close none.
\<close>

primrec requests :: "nat \<Rightarrow> runtime \<Rightarrow> runtime" where
  "requests 0 rt = rt"
| "requests (Suc n) rt = requests n (snd (get_redis rt))"

lemma requests_open:
  "rt_open (requests n rt) = rt_open rt @ [rt_made rt..<rt_made rt + n] \<and>
    rt_client (requests n rt) = (if n = 0 then rt_client rt else Some (rt_made rt + n - 1))"
proof (induction n arbitrary: rt)
  case (Suc n)
  let ?m = "rt_made rt"
  have IH: "rt_open (requests (Suc n) rt) = (rt_open rt @ [?m]) @ [Suc ?m..<Suc ?m + n]"
    "rt_client (requests (Suc n) rt) = Some ?m \<and> n = 0 \<or> rt_client (requests (Suc n) rt) = Some (?m + n)"
    using Suc [of "snd (get_redis rt)"] by (auto simp: get_redis_def simp del: upt_Suc)
  have "[?m..<?m + Suc n] = ?m # [Suc ?m..<Suc ?m + n]"
    using upt_conv_Cons [of ?m "?m + Suc n"] by (simp del: upt_Suc)
  then have "rt_open (requests (Suc n) rt) = rt_open rt @ [?m..<?m + Suc n]"
    unfolding IH(1) by (simp del: upt_Suc)
  with IH(2) show ?case by auto
qed simp

lemma shutdown_leaves_open:
  assumes "rt_open rt = []" "0 < n"
  shows "length (rt_open (snd (app_shutdown (sched, requests n rt)))) = n - 1"
proof -
  have "filter (\<lambda>d. d \<noteq> rt_made rt + n - 1) [rt_made rt..<rt_made rt + n] = [rt_made rt..<rt_made rt + (n - 1)]"
  proof (cases n)
    case (Suc m)
    have "filter (\<lambda>d. d \<noteq> rt_made rt + m) [rt_made rt..<rt_made rt + m] = [rt_made rt..<rt_made rt + m]"
      by (simp add: filter_id_conv)
    with Suc show ?thesis by simp
  qed (use assms(2) in simp)
  then show ?thesis
    using assms requests_open [of n rt]
    by (simp add: app_shutdown_def close_redis_def aclose_def dispose_engine_def)
qed

lemma worker_lifecycle:
  assumes "rt_made rt \<notin> set (rt_open rt)" "on_startup s (ctx, rt) = (Inr (), (ctx', rt'))"
  shows "wx_factory ctx'" "rt_open (snd (on_shutdown (ctx', rt'))) = rt_open rt" "\<not> rt_engine (snd (on_shutdown (ctx', rt')))"
proof -
  have "filter (\<lambda>d. d \<noteq> rt_made rt) (rt_open rt) = rt_open rt" by (rule filter_True) (use assms(1) in auto)
  then show "wx_factory ctx'" "rt_open (snd (on_shutdown (ctx', rt'))) = rt_open rt" "\<not> rt_engine (snd (on_shutdown (ctx', rt')))"
    using assms(2) by (auto simp: on_startup_def on_shutdown_def get_redis_def aclose_def dispose_engine_def
        configure_logging_def split: sum.splits)
qed

text \<open>Neither process starts with a log level the library does not know.\<close>

lemma unknown_level:
  assumes "py_upper (log_level (env_settings E)) \<notin> set level_names"
  shows "\<exists>e. app_startup E L w p = (Inl e, p)" "\<exists>e. on_startup (env_settings E) q = (Inl e, q)"
  using assms by (simp_all add: app_startup_def on_startup_def configure_logging_def log_settings_def Let_def split: prod.split)

text \<open>
  A dispatched step is one job under the name the worker knows, with the three identifiers in the
  order its task takes them, and the pool is closed whatever the enqueueing ends with.
\<close>

lemma dispatch_step_run:
  assumes "urlparse (redis_url s) = Inr p" "parse_redis_url p = Inr rs" "po_create P rs q = (Inr pool, q1)"
  shows "dispatch_step urlparse P s se ex t q =
    (case po_enqueue P pool ''execute_step'' [se, ex, t] q1 of (r, q2) \<Rightarrow>
      (case po_close P pool q2 of (Inl e, q3) \<Rightarrow> (Inl e, q3) | (Inr u, q3) \<Rightarrow> (map_sum id (\<lambda>j. ()) r, q3)))"
  using assms by (auto simp: dispatch_step_def andthen_def with_cleanup_def split: prod.split sum.split)

lemma dispatched_job:
  assumes "worker_settings_of E urlparse ctx = Inr ws" "map_of (ws_functions ws) ''execute_step'' = Some f"
  shows "f [se, ex, t] = execute_step E (wx_factory ctx) se ex"
  using assms by (auto simp: worker_settings_of_def sum_bind_Inr_iff)

lemma due_jobs:
  assumes "worker_settings_of E urlparse ctx = Inr ws"
  shows "map ce_name (filter (due h m) (ws_cron_jobs ws)) =
    (if m \<noteq> 0 then [] else ''cleanup_stale_executions'' # (if h = 2 then [''prune_execution_logs'']
      else if h = 3 then [''prune_webhook_deliveries''] else []))"
  using assms by (auto simp: worker_settings_of_def sum_bind_Inr_iff due_def)


end
