(* ===== verification/System_Properties.thy ===== *)
theory System_Properties
  imports Run_Properties App Seed Metrics Reachable EventStream Runtime
begin

text \<open>
  The properties of the service as a whole: the stack a request goes through, the first-run
  seed, the statistics, and what holds of every sequence of operations.
\<close>

section \<open>The request stack\<close>

text \<open>
  C11. Outside the public paths a request whose key names no active tenant is answered 401, 403
  or 500 before it is counted and before anything behind the limit runs: neither the server
  state nor a row changes. A request with a good key is counted; above the limit of its route it
  is answered 429 and no row changes, otherwise, also when the counter fails, it is given to
  CORS, and what CORS makes of it comes back. Where CORS only adds headers (every request but a
  preflight, which it answers itself), the handler runs for the tenant of the key, and its answer
  or the service's form of its error is what comes back.
\<close>

theorem request_stack:
  assumes "\<not> is_public_path (ar_path rq)"
  shows "(case validate_api_key E (ar_api_key rq) w of
      Inl e \<Rightarrow> \<exists>st body. app_dispatch E R cors handler now rq (r, w) = (json_reply st body, (r, w)) \<and> st \<in> {401, 403, 500}
    | Inr c \<Rightarrow> (\<exists>t\<in>set (w_tenants w). tn_id t = tc_id c \<and> tn_is_active t \<and> env_checkpw E (ar_api_key rq) (tn_api_key_hash t) \<and>
          tn_api_key_prefix t = take 17 (ar_api_key rq)) \<and>
        (if \<exists>current ttl r'. count_request R (redis_key (get_client_key (ar_client rq)) (ar_method rq) (ar_path rq)) r =
            (Inr (current, ttl), r') \<and> get_rate_limit (ar_method rq) (ar_path rq) < current
         then \<exists>reply r'. app_dispatch E R cors handler now rq (r, w) = (reply, (r', w)) \<and> rp_status reply = 429
         else \<exists>reply r'. app_dispatch E R cors handler now rq (r, w) =
              (reply, (r', snd (cors (handle_app_errors (handler (Some c))) w))) \<and>
            (case fst (cors (handle_app_errors (handler (Some c))) w) of
               Inr a \<Rightarrow> rp_status reply = rp_status a \<and> rp_content reply = rp_content a
             | Inl e \<Rightarrow> reply = unhandled_exception_handler e) \<and>
            (cors_passes cors (handle_app_errors (handler (Some c))) w \<longrightarrow>
              snd (cors (handle_app_errors (handler (Some c))) w) = snd (handler (Some c) w) \<and>
              rp_status reply = rp_status (outcome_reply (fst (handler (Some c) w))) \<and>
              rp_content reply = rp_content (outcome_reply (fst (handler (Some c) w))))))"
proof (cases "validate_api_key E (ar_api_key rq) w")
  case (Inl e)
  then have "validate_api_key E (ar_api_key rq) w \<noteq> Inr c" for c by simp
  from app_refused [OF assms this] Inl show ?thesis by simp
next
  case (Inr c)
  let ?limited = "\<exists>current ttl r'. count_request R (redis_key (get_client_key (ar_client rq)) (ar_method rq) (ar_path rq)) r =
      (Inr (current, ttl), r') \<and> get_rate_limit (ar_method rq) (ar_path rq) < current"
  let ?inner = "cors (handle_app_errors (handler (Some c)))"
  obtain t where t: "filter (\<lambda>t. tn_api_key_prefix t = take 17 (ar_api_key rq)) (w_tenants w) = [t]"
    "env_checkpw E (ar_api_key rq) (tn_api_key_hash t)" "tn_is_active t" "tn_id t = tc_id c"
    using Inr by (auto simp: validate_api_key_Inr API_KEY_LOOKUP_PREFIX_LENGTH_def)
  have "t \<in> set (filter (\<lambda>t. tn_api_key_prefix t = take 17 (ar_api_key rq)) (w_tenants w))" by (simp add: t(1))
  then have "\<exists>t\<in>set (w_tenants w). tn_id t = tc_id c \<and> tn_is_active t \<and> env_checkpw E (ar_api_key rq) (tn_api_key_hash t) \<and>
      tn_api_key_prefix t = take 17 (ar_api_key rq)" using t(2-4) by auto
  moreover have "\<exists>reply r'. app_dispatch E R cors handler now rq (r, w) = (reply, (r', w)) \<and> rp_status reply = 429"
    if ?limited
    using that app_limited [where R = R and cors = cors and handler = handler and now = now and r = r, OF assms Inr] by metis
  moreover have "\<exists>reply r'. app_dispatch E R cors handler now rq (r, w) = (reply, (r', snd (?inner w))) \<and>
      (case fst (?inner w) of Inr a \<Rightarrow> rp_status reply = rp_status a \<and> rp_content reply = rp_content a
       | Inl e \<Rightarrow> reply = unhandled_exception_handler e)"
    if "\<not> ?limited"
    by (rule app_served [OF assms Inr _ prod.collapse [symmetric]]) (use that in force)
  ultimately show ?thesis
    using Inr passed_reply [of cors "handler (Some c)" w] by (fastforce split: sum.splits)
qed

definition key_world :: world where
  "key_world = empty_world\<lparr>w_tenants := [new_tenant 7 ''acme'' (''wae_live_'' @ replicate 8 CHR ''a'') (''wae_live_'' @ replicate 8 CHR ''a'') 0]\<rparr>"

definition own_request :: app_request where
  "own_request = \<lparr>ar_method = ''GET'', ar_path = ''/api/tenants/me'', ar_api_key = ''wae_live_'' @ replicate 8 CHR ''a'', ar_client = None\<rparr>"

definition allow_origin :: "(world, reply) proc \<Rightarrow> (world, reply) proc" where
  "allow_origin app w = (map_sum id (with_headers [(''access-control-allow-origin'', ''*'')]) (fst (app w)), snd (app w))"

theorem request_stack_witness:
  "\<exists>reply r'. app_dispatch demo_env counting_redis allow_origin (\<lambda>t. ret (json_reply 200 JNull)) 0 own_request (0, key_world) =
      (reply, (r', key_world)) \<and> rp_status reply = 200"
proof -
  have public: "\<not> is_public_path (ar_path own_request)" by code_simp
  have key: "validate_api_key demo_env (ar_api_key own_request) key_world = Inr \<lparr>tc_id = 7, tc_name = ''acme'', tc_is_active = True\<rparr>"
    by code_simp
  have "count_request counting_redis (redis_key (get_client_key (ar_client own_request)) (ar_method own_request) (ar_path own_request)) 0 =
      (Inr (1, 60), 1)"
    by (simp add: count_request_def counting_redis_def andthen_def)
  moreover have "get_rate_limit (ar_method own_request) (ar_path own_request) = 100" by code_simp
  moreover have "cors_passes allow_origin app key_world" for app by (auto simp: cors_passes_def allow_origin_def)
  ultimately show ?thesis
    using request_stack [OF public, where E = demo_env and w = key_world and R = counting_redis and cors = allow_origin and now = 0 and r = 0
        and handler = "\<lambda>t. ret (json_reply 200 JNull)"] key
    by (auto simp: json_reply_def outcome_reply_def)
qed

section \<open>First run\<close>

lemma sample_in_demo:
  "case parse_workflow_definition demo_env [(''name'', JStr ''n''), (''trigger_type'', JStr ''webhook''),
      (''steps'', JList (map JObj (wc_steps sample_webhook_workflow)))] of
    Some (Inr d) \<Rightarrow> list_all (\<lambda>s. list_all (\<lambda>t. has_jinja2 t \<longrightarrow> t \<in> set sample_templates) (scanned (sd_config s))) (wfd_steps d)
  | _ \<Rightarrow> False"
  by code_simp

lemma sample_parses:
  assumes "\<forall>s\<in>set sample_templates. env_jinja_parse E s = None" "3 \<le> max_steps_per_workflow (env_settings E)"
  shows "steps_ok E (map JObj (wc_steps sample_webhook_workflow))"
proof -
  let ?js = "JList (map JObj (wc_steps sample_webhook_workflow))"
  let ?raw = "[(''name'', JStr ''n''), (''trigger_type'', JStr ''webhook''), (''steps'', ?js)]"
  obtain d where d: "parse_workflow_definition demo_env ?raw = Some (Inr d)"
    "\<forall>s\<in>set (wfd_steps d). \<forall>t\<in>set (scanned (sd_config s)). has_jinja2 t \<longrightarrow> t \<in> set sample_templates"
    using sample_in_demo by (auto simp: list_all_iff split: option.splits sum.splits)
  have "length (wc_steps sample_webhook_workflow) = 3" by (simp add: sample_webhook_workflow_def)
  moreover have "list_all (\<lambda>d. map_of d ''retry'' = None) (wc_steps sample_webhook_workflow)" by code_simp
  then have "validate_step_definition E d = validate_step_definition demo_env d"
    if "d \<in> set (wc_steps sample_webhook_workflow)" for d
    using that validate_step_definition_env [of d E demo_env] by (simp add: list_all_iff)
  then have "list_all2 (\<lambda>j s. \<exists>d. j = JObj d \<and> validate_step_definition E d = Some s) (map JObj (wc_steps sample_webhook_workflow)) ss"
    if "list_all2 (\<lambda>j s. \<exists>d. j = JObj d \<and> validate_step_definition demo_env d = Some s) (map JObj (wc_steps sample_webhook_workflow)) ss" for ss
    using that by (auto simp: list_all2_conv_all_nth)
  moreover have "templates_ok E (sd_config s)" if "s \<in> set (wfd_steps d)" for s
    using that d(2) assms(1) by (auto simp: templates_ok_def)
  ultimately have "well_formed E [(''steps'', ?js)] (wfd_steps d)"
    using d(1) assms(2) by (simp add: parse_Inr_iff well_formed_def dict_get_def)
  then show ?thesis by (auto simp: steps_ok_def)
qed

text \<open>
  C34. The seed script runs once: on a service without tenants, when registration is enabled, it
  creates one active tenant with the configured name and, unless that tenant has workflows, one
  active webhook workflow of it, without a secret, that the parser accepts; otherwise it changes
  nothing. It keeps the catalogue in order, and running it again changes no row.
\<close>

theorem seeding:
  assumes "catalogue_ok E w" "fresh_workflows E w" "\<forall>s\<in>set sample_templates. env_jinja_parse E s = None"
    and "3 \<le> max_steps_per_workflow (env_settings E)" "seed_main E w = (Inr res, w')"
  shows "catalogue_ok E w' \<and> (\<exists>v. seed_main E w' = (Inr None, v) \<and> same_rows w' v) \<and>
    (res = None \<longleftrightarrow> \<not> self_registration_enabled (env_settings E) \<or> w_tenants w \<noteq> []) \<and>
    (res = None \<longrightarrow> same_rows w w') \<and>
    (\<forall>k n. res = Some (k, n) \<longrightarrow>
      (\<exists>t. w_tenants w' = [t] \<and> tn_id t = tk_id k \<and> tn_is_active t \<and> tn_name t = default_tenant_name (env_settings E)) \<and>
      (if \<exists>f\<in>set (w_workflows w). wf_tenant_id f = tk_id k then n = 0 \<and> w_workflows w' = w_workflows w
       else n = 1 \<and> (\<exists>f. w_workflows w' = w_workflows w @ [f] \<and> wf_tenant_id f = tk_id k \<and> wf_is_active f \<and>
         wf_trigger_type f = ''webhook'' \<and> wf_webhook_path f \<noteq> None \<and> wf_webhook_secret f = None)))"
proof -
  have again: "\<exists>v. seed_main E u = (Inr None, v) \<and> same_rows u v"
    if "\<not> self_registration_enabled (env_settings E) \<or> w_tenants u \<noteq> []" for u
  proof -
    obtain r v where run: "in_session E (seed_default_tenant E None None) u = (r, v)" by (metis surj_pair)
    then show ?thesis
      by (cases rule: seed_default_run) (use that run in \<open>auto simp: seed_main_def andthen_def\<close>)
  qed
  obtain r v where run: "in_session E (seed_default_tenant E None None) w = (r, v)" by (metis surj_pair)
  then show ?thesis
  proof (cases rule: seed_default_run)
    case skipped
    then have "res = None" "w' = v" using assms(5) run by (simp_all add: seed_main_def andthen_def)
    moreover have "\<not> self_registration_enabled (env_settings E) \<or> w_tenants v \<noteq> []"
      using skipped(2,3) by (simp add: same_rows_def)
    ultimately show ?thesis
      using skipped(2,3) assms(1) again [of v] by (auto simp: catalogue_same_rows)
  next
    case (created k t)
    then obtain n where second: "in_session E (seed_sample_workflows E (tk_id k)) v = (Inr n, w')" "res = Some (k, n)"
      using assms(5) run by (auto simp: seed_main_def andthen_def split: prod.splits sum.splits)
    have cat: "catalogue_ok E v" using assms(1) created(8) by (simp add: catalogue_ok_def)
    from second(1) show ?thesis
    proof (cases rule: seed_sample_run)
      case skipped
      then have "catalogue_ok E w'" using cat by (simp add: catalogue_same_rows)
      moreover have "w_tenants w' = w_tenants v" "w_workflows w' = w_workflows v" using skipped(2) by (simp_all add: same_rows_def)
      ultimately show ?thesis using created second(2) skipped(1,3) again [of w'] by simp
    next
      case (created f m p s)
      note new = created
      have "find_workflow v (wf_id f) = None"
        using assms(2) new(2,3) \<open>w_ticks w \<le> w_ticks v\<close> \<open>w_workflows v = w_workflows w\<close>
        by (simp add: fresh_workflows_def find_workflow_def new_workflow_def)
      moreover have f: "wf_tenant_id f = tk_id k" "wf_is_active f" "wf_trigger_type f = ''webhook''"
        "wf_webhook_path f = Some (''wh_'' @ p)" "wf_webhook_secret f = None" "wf_steps f = map JObj (wc_steps sample_webhook_workflow)"
        by (simp_all add: new(2) new_workflow_def sample_webhook_workflow_def)
      moreover have "path_ok f" by (simp add: path_ok_def f)
      ultimately have "catalogue_ok E (add_workflow f v)"
        using cat sample_parses [OF assms(3,4)] new(6) by (intro catalogue_add) simp_all
      then have "catalogue_ok E w'" using new(4) by (simp add: catalogue_ok_def add_workflow_def)
      moreover have "w_tenants w' = [t]" using new(5) \<open>w_tenants v = [t]\<close> by (simp add: other_tables_def)
      ultimately show ?thesis
        using again [of w'] second(2) new(1,4,7) f \<open>tn_id t = tk_id k\<close> \<open>tn_is_active t\<close>
          \<open>tn_name t = default_tenant_name (env_settings E)\<close> \<open>w_workflows v = w_workflows w\<close> \<open>w_tenants w = []\<close>
          \<open>self_registration_enabled (env_settings E)\<close>
        by simp
    qed
  qed
qed

theorem seeding_witness:
  "\<exists>k w' f. seed_main demo_env empty_world = (Inr (Some (k, 1)), w') \<and> w_workflows w' = [f] \<and>
    wf_tenant_id f = tk_id k \<and> catalogue_ok demo_env w'"
proof -
  have "\<forall>s\<in>set sample_templates. env_jinja_parse demo_env s = None" "3 \<le> max_steps_per_workflow (env_settings demo_env)"
    by (simp_all add: demo_env_def default_settings_def)
  moreover have "catalogue_ok demo_env empty_world" "fresh_workflows demo_env empty_world"
    by (simp_all add: catalogue_ok_def unique_paths_def fresh_workflows_def find_workflow_def empty_world_def)
  moreover obtain k n w' where "seed_main demo_env empty_world = (Inr (Some (k, n)), w')"
    using seed_main_first [of demo_env empty_world] by (auto simp: demo_env_def default_settings_def empty_world_def)
  moreover have "w_workflows empty_world = []" by (simp add: empty_world_def)
  ultimately show ?thesis using seeding [of demo_env empty_world "Some (k, n)" w'] by auto
qed

section \<open>Statistics\<close>

lemma join_of_workflow:
  assumes "distinct (map wf_id fs)" "\<forall>x\<in>set xs. ex_workflow_id x \<in> wf_id ` set fs"
    and "(i, n) \<in> (\<lambda>(x, f). (ex_workflow_id x, wf_name f)) ` set (join_workflows xs fs)"
  shows "length (filter (\<lambda>p. (case p of (x, f) \<Rightarrow> (ex_workflow_id x, wf_name f)) = (i, n)) (join_workflows xs fs)) =
    length (filter (\<lambda>x. ex_workflow_id x = i) xs)"
proof -
  have member: "(x, f) \<in> set (join_workflows xs fs) \<Longrightarrow> f \<in> set fs \<and> wf_id f = ex_workflow_id x" for x f
    by (auto simp: join_workflows_def)
  have unique: "f = g" if "f \<in> set fs" "g \<in> set fs" "wf_id f = wf_id g" for f g
    using assms(1) that by (auto simp: distinct_map inj_on_def)
  obtain y g where g: "(y, g) \<in> set (join_workflows xs fs)" "ex_workflow_id y = i" "wf_name g = n"
    using assms(3) by auto
  have name: "wf_name f = n" if "(x, f) \<in> set (join_workflows xs fs)" "ex_workflow_id x = i" for x f
    using unique [of f g] member [OF that(1)] member [OF g(1)] that(2) g(2,3) by simp
  have "filter (\<lambda>p. (case p of (x, f) \<Rightarrow> (ex_workflow_id x, wf_name f)) = (i, n)) (join_workflows xs fs) =
      filter (\<lambda>p. ex_workflow_id (fst p) = i) (join_workflows xs fs)"
  proof (rule filter_cong [OF refl])
    fix p assume "p \<in> set (join_workflows xs fs)"
    with name [of "fst p" "snd p"]
    show "((case p of (x, f) \<Rightarrow> (ex_workflow_id x, wf_name f)) = (i, n)) = (ex_workflow_id (fst p) = i)"
      by (cases p) auto
  qed
  also have "\<dots> = join_workflows (filter (\<lambda>x. ex_workflow_id x = i) xs) fs"
    unfolding join_workflows_def by (induction xs) (auto simp: filter_empty_conv intro!: filter_True)
  finally show ?thesis using length_join [OF assms(1), of "filter (\<lambda>x. ex_workflow_id x = i) xs"] assms(2) by auto
qed

text \<open>
  C33. The statistics of a tenant count its own rows: the executions by status, and these counts
  and those by workflow add up to the total when the foreign keys hold; every type of its steps
  appears once, with the number of its steps of that type and of those that failed, and its
  failure rate lies between 0 and 1, within half a thousandth and the rounding of one division
  of the fraction of them that failed; and its deliveries, accepted, rejected and in error.
\<close>

theorem metrics_add_up:
  assumes "references_ok w" "workflow_keys_ok w" "m = get_execution_metrics avg T w"
  shows "em_total m = length (filter (\<lambda>x. ex_tenant_id x = T) (w_executions w)) \<and>
    sum_list (map snd (em_by_status m)) = em_total m \<and>
    (\<forall>(s, n)\<in>set (em_by_status m). n = length (filter (\<lambda>x. ex_tenant_id x = T \<and> status_str (ex_status x) = s) (w_executions w))) \<and>
    sum_list (map ws_count (em_by_workflow m)) = em_total m \<and>
    (\<forall>b\<in>set (em_by_workflow m). ws_count b =
      length (filter (\<lambda>x. ex_tenant_id x = T \<and> ex_workflow_id x = ws_workflow_id b) (w_executions w))) \<and>
    sum_list (map fr_total (em_step_failure_rates m)) = length (filter (\<lambda>s. se_tenant_id s = T) (w_steps w)) \<and>
    distinct (map fr_step_type (em_step_failure_rates m)) \<and>
    fr_step_type ` set (em_step_failure_rates m) = se_step_type ` {s \<in> set (w_steps w). se_tenant_id s = T} \<and>
    (\<forall>r\<in>set (em_step_failure_rates m).
      fr_total r = length (filter (\<lambda>s. se_tenant_id s = T \<and> se_step_type s = fr_step_type r) (w_steps w)) \<and>
      fr_failed r = length (filter (\<lambda>s. se_tenant_id s = T \<and> se_step_type s = fr_step_type r \<and>
        status_str (se_status s) = ''failed'') (w_steps w)) \<and>
      fr_failed r \<le> fr_total r \<and> 0 < fr_total r \<and> 0 \<le> fr_rate r \<and> fr_rate r \<le> 1 \<and>
      \<bar>fr_rate r - of_nat (fr_failed r) / of_nat (fr_total r)\<bar> \<le> 1 / 2000 + 1 / 2 ^ 53) \<and>
    wh_total (em_webhook_delivery_stats m) = length (filter (\<lambda>d. wd_tenant_id d = T) (w_deliveries w)) \<and>
    wh_accepted (em_webhook_delivery_stats m) =
      length (filter (\<lambda>d. wd_tenant_id d = T \<and> wd_status d = ''accepted'') (w_deliveries w)) \<and>
    wh_rejected (em_webhook_delivery_stats m) =
      length (filter (\<lambda>d. wd_tenant_id d = T \<and> wd_status d = ''rejected'') (w_deliveries w)) \<and>
    wh_error (em_webhook_delivery_stats m) =
      length (filter (\<lambda>d. wd_tenant_id d = T \<and> wd_status d = ''error'') (w_deliveries w))"
proof (intro conjI)
  let ?xs = "filter (\<lambda>x. ex_tenant_id x = T) (w_executions w)"
  let ?key = "\<lambda>(x, f). (ex_workflow_id x, wf_name f)"
  show total: "em_total m = length ?xs"
    by (simp add: assms(3) get_execution_metrics_def Let_def group_counts_total)
  show "sum_list (map snd (em_by_status m)) = em_total m"
    by (simp add: assms(3) get_execution_metrics_def Let_def)
  show "\<forall>(s, n)\<in>set (em_by_status m). n = length (filter (\<lambda>x. ex_tenant_id x = T \<and> status_str (ex_status x) = s) (w_executions w))"
    by (auto simp: assms(3) get_execution_metrics_def Let_def group_counts_def group_by_def conj_commute)
  have keys: "distinct (map wf_id (w_workflows w))" "\<forall>x\<in>set ?xs. ex_workflow_id x \<in> wf_id ` set (w_workflows w)"
    using assms(1,2) by (auto simp: references_ok_def workflow_keys_ok_def)
  have "map ws_count (em_by_workflow m) = map (\<lambda>p. length (snd p)) (group_by ?key (join_workflows ?xs (w_workflows w)))"
    by (simp add: assms(3) get_execution_metrics_def Let_def workflow_breakdown_def case_prod_beta)
  then show "sum_list (map ws_count (em_by_workflow m)) = em_total m"
    using length_join [OF keys] by (simp only: group_total total)
  show "\<forall>b\<in>set (em_by_workflow m). ws_count b =
      length (filter (\<lambda>x. ex_tenant_id x = T \<and> ex_workflow_id x = ws_workflow_id b) (w_executions w))"
  proof
    fix b assume "b \<in> set (em_by_workflow m)"
    then obtain i n rows where g: "((i, n), rows) \<in> set (group_by ?key (join_workflows ?xs (w_workflows w)))"
      and b: "ws_count b = length rows" "ws_workflow_id b = i"
      by (auto simp: assms(3) get_execution_metrics_def Let_def workflow_breakdown_def)
    from g have "(i, n) \<in> ?key ` set (join_workflows ?xs (w_workflows w))"
      "rows = filter (\<lambda>r. ?key r = (i, n)) (join_workflows ?xs (w_workflows w))"
      unfolding group_by_member by blast+
    from join_of_workflow [OF keys this(1)] this(2) b
    show "ws_count b = length (filter (\<lambda>x. ex_tenant_id x = T \<and> ex_workflow_id x = ws_workflow_id b) (w_executions w))"
      by (simp add: conj_commute)
  qed
  let ?ss = "filter (\<lambda>s. se_tenant_id s = T) (w_steps w)"
  have "map fr_total (em_step_failure_rates m) = map (\<lambda>p. length (snd p)) (group_by se_step_type ?ss)"
    by (simp add: assms(3) get_execution_metrics_def Let_def step_failure_rates_def case_prod_beta)
  then show "sum_list (map fr_total (em_step_failure_rates m)) = length ?ss" by (simp only: group_total)
  have "map fr_step_type (em_step_failure_rates m) = map fst (group_by se_step_type ?ss)"
    by (simp add: assms(3) get_execution_metrics_def Let_def step_failure_rates_def case_prod_beta)
  then have types: "map fr_step_type (em_step_failure_rates m) = remdups (map se_step_type ?ss)"
    by (simp only: group_by_keys)
  then show "distinct (map fr_step_type (em_step_failure_rates m))" by simp
  from arg_cong [OF types, of set]
  show "fr_step_type ` set (em_step_failure_rates m) = se_step_type ` {s \<in> set (w_steps w). se_tenant_id s = T}" by simp
  show "\<forall>r\<in>set (em_step_failure_rates m).
      fr_total r = length (filter (\<lambda>s. se_tenant_id s = T \<and> se_step_type s = fr_step_type r) (w_steps w)) \<and>
      fr_failed r = length (filter (\<lambda>s. se_tenant_id s = T \<and> se_step_type s = fr_step_type r \<and>
        status_str (se_status s) = ''failed'') (w_steps w)) \<and>
      fr_failed r \<le> fr_total r \<and> 0 < fr_total r \<and> 0 \<le> fr_rate r \<and> fr_rate r \<le> 1 \<and>
      \<bar>fr_rate r - of_nat (fr_failed r) / of_nat (fr_total r)\<bar> \<le> 1 / 2000 + 1 / 2 ^ 53"
  proof
    fix r assume "r \<in> set (em_step_failure_rates m)"
    then obtain t rows where g: "(t, rows) \<in> set (group_by se_step_type ?ss)"
      and r: "fr_total r = length rows" "fr_failed r = length (filter (\<lambda>s. status_str (se_status s) = ''failed'') rows)"
        "fr_rate r = (if fr_total r = 0 then 0 else round_3 (float_div (fr_failed r) (fr_total r)))" "fr_step_type r = t"
      by (auto simp: assms(3) get_execution_metrics_def Let_def step_failure_rates_def)
    from g have rows: "rows = filter (\<lambda>s. se_step_type s = t) ?ss" unfolding group_by_member by blast
    then have "fr_total r = length (filter (\<lambda>s. se_tenant_id s = T \<and> se_step_type s = fr_step_type r) (w_steps w))"
      "fr_failed r = length (filter (\<lambda>s. se_tenant_id s = T \<and> se_step_type s = fr_step_type r \<and>
        status_str (se_status s) = ''failed'') (w_steps w))"
      using r by (simp_all add: conj_ac)
    moreover have "rows \<noteq> []" using g by (auto simp: group_by_member filter_empty_conv)
    then have pos: "0 < fr_total r" by (simp add: r(1))
    moreover have le: "fr_failed r \<le> fr_total r" by (simp add: r)
    moreover have "fr_rate r = round_3 (float_div (fr_failed r) (fr_total r))" using r(3) pos by simp
    then have "0 \<le> fr_rate r" "fr_rate r \<le> 1"
      "\<bar>fr_rate r - of_nat (fr_failed r) / of_nat (fr_total r)\<bar> \<le> 1 / 2000 + 1 / 2 ^ 53"
      using rate_range [OF le] rate_error [of "fr_failed r" "fr_total r"] by simp_all
    ultimately show "fr_total r = length (filter (\<lambda>s. se_tenant_id s = T \<and> se_step_type s = fr_step_type r) (w_steps w)) \<and>
      fr_failed r = length (filter (\<lambda>s. se_tenant_id s = T \<and> se_step_type s = fr_step_type r \<and>
        status_str (se_status s) = ''failed'') (w_steps w)) \<and>
      fr_failed r \<le> fr_total r \<and> 0 < fr_total r \<and> 0 \<le> fr_rate r \<and> fr_rate r \<le> 1 \<and>
      \<bar>fr_rate r - of_nat (fr_failed r) / of_nat (fr_total r)\<bar> \<le> 1 / 2000 + 1 / 2 ^ 53"
      by blast
  qed
qed (simp_all add: assms(3) get_execution_metrics_def Let_def webhook_delivery_stats_def group_counts_total group_counts_get
    conj_commute)

theorem metrics_add_up_witness:
  "em_total (get_execution_metrics (\<lambda>ds. of_int (sum_list ds)) 7 (service_world Failed)) = 1 \<and>
    sum_list (map ws_count (em_by_workflow (get_execution_metrics (\<lambda>ds. of_int (sum_list ds)) 7 (service_world Failed)))) = 1"
proof -
  have "references_ok (service_world Failed)" "workflow_keys_ok (service_world Failed)"
    by (simp_all add: references_ok_def workflow_keys_ok_def service_world_def empty_world_def stored_execution_def
        new_execution_def new_step_def demo_flow_def)
  moreover have "length (filter (\<lambda>x. ex_tenant_id x = 7) (w_executions (service_world Failed))) = 1"
    by (simp add: service_world_def stored_execution_def new_execution_def)
  ultimately show ?thesis using metrics_add_up [OF _ _ refl, of "service_world Failed"] by simp
qed

section \<open>Tenants\<close>

text \<open>
  C4. Tenants are kept apart. Whatever the other tenants do, in any number of requests with
  their keys (creating, updating and deleting workflows, starting, cancelling and replaying runs,
  writing logs), of tasks of the queue, of webhooks to their paths and of ticks of their schedules,
  nested runs and failed operations included: the rows of a tenant stay as they are, and every read of the tenant, of one
  execution or its logs, of one workflow, of a page of executions or of workflows, gives the same
  answer. It is enough that in the beginning no identifier of the tenant's rows is used by a row of
  another tenant or still to be drawn, and no other tenant's context names it; this stays so.
\<close>

theorem tenant_isolation:
  assumes "separated E U (fst s)" "others E U s s'"
  shows "rows_of U (fst s') = rows_of U (fst s) \<and> separated E U (fst s') \<and>
    (\<forall>i. fst (get_execution U i (fst s')) = fst (get_execution U i (fst s))) \<and>
    (\<forall>i st. fst (get_execution_logs U i st (fst s')) = fst (get_execution_logs U i st (fst s))) \<and>
    (\<forall>i. fst (get_workflow U i (fst s')) = fst (get_workflow U i (fst s))) \<and>
    (\<forall>f n c. list_executions U f n c (fst s') = list_executions U f n c (fst s)) \<and>
    (\<forall>f n c. list_workflows U f n c (fst s') = list_workflows U f n c (fst s))"
proof -
  have before: "apart E U (rows_of U (fst s)) (fst s)" using assms(1) by (simp add: separated_def)
  have after: "apart E U (rows_of U (fst s)) (fst s')" by (rule others_apart [OF assms(2) before])
  show ?thesis
    using apart_separated [OF after] same_answers [OF before after] by simp
qed

text \<open>Tenant 8 stores a workflow, then tries to delete one of tenant 7 and to cancel its run.\<close>

definition intruder :: "service \<Rightarrow> service" where
  "intruder s = snd (on_database (cancel_execution demo_env 8 5) (snd (delete_workflow demo_env 8 3
     (snd (on_database (create_workflow demo_env 8 sample_webhook_workflow) s)))))"

theorem tenant_isolation_witness:
  "rows_of 7 (fst (intruder (service_world Running, new_cache 10 300))) = rows_of 7 (service_world Running) \<and>
    fst (get_execution 7 5 (fst (intruder (service_world Running, new_cache 10 300)))) =
      fst (get_execution 7 5 (service_world Running))"
proof -
  let ?s = "(service_world Running, new_cache 10 300)"
  have "rows_of 7 (service_world Running) = \<lparr>tv_workflows = [demo_flow demo_steps],
      tv_executions = [stored_execution Running], tv_steps = w_steps (service_world Running), tv_logs = [], tv_deliveries = []\<rparr>"
    by (simp add: rows_of_def service_world_def empty_world_def stored_execution_def new_execution_def new_step_def demo_flow_def)
  then have "separated demo_env 7 (fst ?s)"
    by (auto simp: separated_def apart_def idents_def service_world_def stored_execution_def new_execution_def
        new_step_def demo_flow_def demo_env_def empty_world_def)
  moreover have "others demo_env 7 ?s (intruder ?s)"
    unfolding intruder_def
    by (rule others.more [where T = 8], rule others.more [where T = 8], rule others.more [where T = 8], rule others.nothing)
      (rule acts.handled, rule handles.creates handles.deletes handles.started [OF runs.cancels], rule prod.collapse [symmetric], simp, simp)+
  ultimately show ?thesis using tenant_isolation by fastforce
qed

section \<open>Reachable states\<close>

text \<open>
  C5. In every state the service can reach from the empty database, by any sequence of
  registrations, requests, tasks of the queue, log entries, webhooks, ticks of the schedule and
  periodic jobs of any tenants: identifiers still to be drawn occur nowhere, keys are distinct,
  every stored workflow is accepted by the parser and webhook paths are unique, no identifier is
  used by rows of two tenants, and every tenant is separated from the others as the isolation of
  tenants asks for; no two tenants share the prefix of their key, and every step row is of a known
  type and without a configuration. The only hypothesis is that drawn UUIDs differ.
\<close>

theorem reachable_states:
  assumes "reachable E s" "inj (env_uuid E)"
  shows "fresh_ids E (fst s) \<and> primary_keys (fst s) \<and> catalogue_ok E (fst s) \<and> (\<forall>U. separated E U (fst s)) \<and>
    (\<forall>T U. T \<noteq> U \<longrightarrow> idents (rows_of T (fst s)) \<inter> idents (rows_of U (fst s)) = {}) \<and>
    prefixes_unique (fst s) \<and> (\<forall>p\<in>set (w_steps (fst s)). plain_step p)"
proof -
  have tidy: "tidy E s" and cat: "catalogue_ok E (fst s)" using reachable_invariant [OF assms] by simp_all
  have "idents (rows_of T (fst s)) \<inter> idents (rows_of U (fst s)) = {}" if "T \<noteq> U" for T U
    using tidy that unfolding idents_uses tidy_def service_uses_def by blast
  then show ?thesis
    using tidy_fresh_ids [OF tidy] tidy_keys [OF tidy] cat tidy_separated [OF tidy] reachable_plain [OF assms] by simp
qed

text \<open>A tenant registers and stores the demonstration workflow.\<close>

definition settled_service :: service where
  "settled_service = snd (on_database (create_workflow demo_env 3 demo_create)
     (snd (on_database (register_tenant_endpoint demo_env ''acme'') (new_service 10 300))))"

lemma settled_reachable: "reachable demo_env settled_service"
proof -
  let ?s = "new_service 10 300"
  let ?r = "on_database (register_tenant_endpoint demo_env ''acme'') ?s"
  have "reachable demo_env (snd ?r)" by (rule reachable.registers [OF reachable.starts [of demo_env 10 300] prod.collapse [symmetric]])
  moreover have "handles demo_env 3 (snd ?r) settled_service"
    unfolding settled_service_def by (rule handles.creates [OF prod.collapse [symmetric]])
  ultimately show ?thesis using reachable.requests [of demo_env "snd ?r" 3 settled_service] by simp
qed

theorem reachable_states_witness:
  "length (w_workflows (fst settled_service)) = 1 \<and> catalogue_ok demo_env (fst settled_service) \<and>
    separated demo_env 3 (fst settled_service)"
proof -
  have "length (w_workflows (fst settled_service)) = 1" by code_simp
  moreover have "inj (env_uuid demo_env)" using demo_fresh by (simp add: fresh_ids_def)
  ultimately show ?thesis using reachable_states [OF settled_reachable] by blast
qed

text \<open>
  C6. In a reachable state, a manual request for an active workflow of the tenant, whose condition
  steps list scalars as branches, is answered with the identifier of a new execution of this
  workflow and tenant, stored as completed or failed. The state after it is reachable again, and
  the rows of every other tenant are the same.
\<close>

theorem triggered_run_settles:
  assumes "reachable E s" "inj (env_uuid E)" "T < 2 ^ 128"
    and "find_workflow (fst s) i = Some flow" "wf_tenant_id flow = T" "wf_is_active flow"
    and "\<And>parsed c. parse_workflow_definition E (raw_definition flow) = Some (Inr parsed) \<Longrightarrow>
      c \<in> set (wfd_steps parsed) \<Longrightarrow> sd_type c = CONDITION \<Longrightarrow> branches_ok c"
  shows "\<exists>k w' x. manual_execute E T i body (fst s) = (Inr k, w') \<and> reachable E (w', snd s) \<and>
    find_execution (fst s) k = None \<and> find_execution w' k = Some x \<and> ex_status x \<in> {Completed, Failed} \<and>
    ex_tenant_id x = T \<and> ex_workflow_id x = i \<and> (\<forall>U. U \<noteq> T \<longrightarrow> rows_of U w' = rows_of U (fst s))"
proof -
  have tidy: "tidy E s" and cat: "catalogue_ok E (fst s)" using reachable_invariant [OF assms(1,2)] by simp_all
  have flow: "flow \<in> set (w_workflows (fst s))" "wf_id flow = i"
    using assms(4) by (auto simp: find_workflow_def dest: find_SomeD)
  then obtain parsed where p: "parse_workflow_definition E (raw_definition flow) = Some (Inr parsed)"
    using cat by (auto simp: catalogue_ok_def check_definition_Inr)
  let ?v = "opened E (fst s)" let ?trigger = "[(''source'', JStr ''manual''), (''data'', JObj body)]"
  have fresh: "fresh_ids E ?v" by (rule opened_fresh [OF tidy_fresh_ids [OF tidy]])
  obtain x w' where x: "start_execution E flow ?trigger T None 0 ?v = (Inr x, w')" "find_execution ?v (ex_id x) = None"
    "find_execution w' (ex_id x) = Some x" "ex_status x \<in> {Completed, Failed}" "ex_tenant_id x = T" "ex_workflow_id x = i"
    by (rule accepted_run_result [OF assms(3) fresh p, of ?trigger None 0])
      (use assms(7) [OF p] flow(2) in \<open>auto simp: run_result_def\<close>)
  have run: "manual_execute E T i body (fst s) = (Inr (ex_id x), w')"
    using x(1) assms(4-6) by (simp add: manual_execute_def in_session_Inr andthen_def get_tenant_workflow_def validate_workflow_active_def)
  then have handled: "handles E T s (w', snd s)"
    by (intro handles.started runs.triggers [of E T i body]) (simp add: on_database_def)
  have "rows_of U w' = rows_of U (fst s)" if "U \<noteq> T" for U
    using acts_apart [OF acts.handled [OF handled] tidy_separated [OF tidy, unfolded separated_def] that [symmetric] assms(3)]
      apart_separated by fastforce
  then show ?thesis
    using run x reachable.requests [OF assms(1,3) handled] by auto
qed

lemma settled_flow:
  obtains f where "find_workflow (fst settled_service) 5 = Some f" "wf_tenant_id f = 3" "wf_is_active f"
    "raw_definition f = raw_definition (demo_flow demo_steps)"
proof -
  have "map (\<lambda>f. (wf_id f, wf_tenant_id f, wf_is_active f, raw_definition f)) (w_workflows (fst settled_service)) =
      [(5, 3, True, raw_definition (demo_flow demo_steps))]"
    by code_simp
  with that show ?thesis by (auto simp: find_workflow_def)
qed

theorem triggered_run_settles_witness:
  "\<exists>k w' x. manual_execute demo_env 3 5 [] (fst settled_service) = (Inr k, w') \<and> reachable demo_env (w', snd settled_service) \<and>
    find_execution w' k = Some x \<and> ex_status x \<in> {Completed, Failed}"
proof (rule settled_flow)
  fix f assume f: "find_workflow (fst settled_service) 5 = Some f" "wf_tenant_id f = 3" "wf_is_active f"
    "raw_definition f = raw_definition (demo_flow demo_steps)"
  have "branches_ok c" if "parse_workflow_definition demo_env (raw_definition f) = Some (Inr parsed)"
    "c \<in> set (wfd_steps parsed)" "sd_type c = CONDITION" for parsed c
    using that demo_branches f(4) by auto
  moreover have "inj (env_uuid demo_env)" using demo_fresh by (simp add: fresh_ids_def)
  ultimately show ?thesis
    using triggered_run_settles [OF settled_reachable _ _ f(1-3), of "[]"] by fastforce
qed

section \<open>The queue\<close>

text \<open>
  C37. In every reachable state each step row is as the engine creates it, without a
  configuration, and the worker takes the configuration from the row: no task ever succeeds. If
  the step is queued it ends failed with a complaint about its configuration; in every other
  status the task is answered 409 and nothing is written.
\<close>

theorem worker_never_succeeds:
  assumes "reachable E s" "inj (env_uuid E)" "i < 2 ^ 128" "j < 2 ^ 128"
    and "find_step (fst s) i = Some p" "find_execution (fst s) j = Some x"
    and "execute_step E True (uuid_str i) (uuid_str j) (fst s) = (r, w')"
  shows "se_input_data p = [] \<and>
    (se_status p = Queued \<longrightarrow> (\<exists>m p'. r = Inl (AppError ''STEP_CONFIG_ERROR'' m 400 []) \<and>
      find_step w' i = Some p' \<and> se_status p' = Failed \<and> se_error p' = Some m \<and> w_executions w' = w_executions (fst s))) \<and>
    (se_status p \<noteq> Queued \<longrightarrow> (\<exists>m. r = Inl (AppError ''INVALID_TRANSITION'' m 409 [])) \<and> same_rows (fst s) w')"
proof -
  have "p \<in> set (w_steps (fst s))" using assms(5) by (auto simp: find_step_def dest: find_SomeD)
  then have "plain_step p" using reachable_plain [OF assms(1,2)] by blast
  then obtain t where "se_input_data p = []" "step_type_of (se_step_type p) = Inr t" by (auto simp: plain_step_def)
  then show ?thesis using unconfigured_task [OF assms(3-6) _ _ assms(7)] by blast
qed

definition small_service :: service where
  "small_service = snd (on_database (create_workflow demo_env 3 (demo_create\<lparr>wc_steps := one_step\<rparr>)) (new_service 10 300))"

definition ran_service :: service where
  "ran_service = snd (on_database (manual_execute demo_env 3 1 []) small_service)"

lemma ran_reachable: "reachable demo_env ran_service"
proof -
  have "reachable demo_env small_service"
    unfolding small_service_def
    by (rule reachable.requests [OF reachable.starts, of 3]) (simp, rule handles.creates [OF prod.collapse [symmetric]])
  then show ?thesis
    unfolding ran_service_def
    by (rule reachable.requests [of demo_env small_service 3])
      (simp, rule handles.started, rule runs.triggers [OF prod.collapse [symmetric]])
qed

theorem worker_never_succeeds_witness:
  "\<exists>i j m w'. execute_step demo_env True (uuid_str i) (uuid_str j) (fst ran_service) =
      (Inl (AppError ''INVALID_TRANSITION'' m 409 []), w') \<and> same_rows (fst ran_service) w'"
proof -
  have inj: "inj (env_uuid demo_env)" using demo_fresh by (simp add: fresh_ids_def)
  have "map (\<lambda>q. (se_id q, se_status q)) (w_steps (fst ran_service)) = [(5, Completed)]" by code_simp
  then obtain q where q: "find_step (fst ran_service) 5 = Some q" "se_status q \<noteq> Queued" by (auto simp: find_step_def)
  have "map ex_id (w_executions (fst ran_service)) = [3]" by code_simp
  then obtain x where x: "find_execution (fst ran_service) 3 = Some x" by (auto simp: find_execution_def)
  obtain r w' where run: "execute_step demo_env True (uuid_str 5) (uuid_str 3) (fst ran_service) = (r, w')" by (metis surj_pair)
  have "\<exists>m. r = Inl (AppError ''INVALID_TRANSITION'' m 409 [])" "same_rows (fst ran_service) w'"
    using worker_never_succeeds [OF ran_reachable inj _ _ q(1) x run] q(2) by simp_all
  with run show ?thesis by blast
qed

section \<open>The schema\<close>

text \<open>
  C13. From an empty database the three migrations run without an error and give the schema that
  the ORM models declare: the same tables with the same columns in order (type, default,
  nullability), the same keys and unique constraints, and the same indexes. Every table has
  row-level security on with exactly one policy, and the column it compares exists, is a UUID
  and cannot be null.
\<close>

theorem migrations_build_models:
  "do_run_migrations migrated empty_schema = (Inr (), head_schema) \<and> implements head_schema metadata \<and>
    list_all (guarded head_schema) (sc_tables head_schema)"
proof -
  have "migrated empty_schema = (Inr (), head_schema)" by (simp add: head_schema_def migrated_run)
  then show ?thesis by (simp add: do_run_migrations_def head_implements head_policies)
qed

text \<open>
  C38. Downgrading undoes upgrading. On any database whose indexes, keys, grants and policies are
  about tables it has, a revision that creates tables and indexes is taken back exactly; the
  revision with the policies, on a database without any, leaves the role behind and takes the
  rights of the role on every table, also those it had before.
\<close>

theorem migrations_round_trip:
  assumes "schema_ok s"
  shows "(run_ddl upgrade_dacb983d2a66 s = (Inr (), s1) \<longrightarrow> run_ddl downgrade_dacb983d2a66 s1 = (Inr (), s)) \<and>
    (run_ddl upgrade_fa83d4b59092 s = (Inr (), s2) \<longrightarrow> run_ddl downgrade_fa83d4b59092 s2 = (Inr (), s)) \<and>
    (sc_rls s = [] \<longrightarrow> sc_policies s = [] \<longrightarrow> run_ddl upgrade_b4c1e7f23a01 s = (Inr (), s3) \<longrightarrow>
      run_ddl downgrade_b4c1e7f23a01 s3 =
        (Inr (), s\<lparr>sc_roles := (if ''app_user'' \<in> set (sc_roles s) then sc_roles s else sc_roles s @ [''app_user'']),
           sc_grants := filter (\<lambda>g. fst g \<noteq> ''app_user'') (sc_grants s)\<rparr>))"
  using downgrade_tables [OF assms] rls_rows by blast

theorem migrations_round_trip_witness:
  "\<exists>s. run_ddl upgrade_dacb983d2a66 empty_schema = (Inr (), s) \<and> run_ddl downgrade_dacb983d2a66 s = (Inr (), empty_schema)"
proof -
  have "schema_ok empty_schema" by (simp add: schema_ok_def empty_schema_def)
  from migrations_round_trip [OF this] show ?thesis
    using upgrade_dacb_ok by (metis prod.collapse)
qed

text \<open>
  C12. Deleting a workflow does to the database what the foreign keys of the migrated schema
  demand. Where no table repeats a primary key, every table after the call of the handler has the
  rows that are left when the row is deleted with everything that refers to it by a cascading key,
  directly or through other rows, and the references that are set to null are empty. The set of
  the deleted rows is complete: one more round adds nothing to it.
\<close>

theorem deletion_follows_schema:
  assumes "primary_keys (fst s)" "delete_workflow E T i s = (Inr r, s')"
  shows "references_of (fst s') n = delete_row head_schema ''workflows'' i (references_of (fst s)) n \<and>
    set (cascade_round (foreign_keys head_schema) (references_of (fst s)) (doomed head_schema ''workflows'' i (references_of (fst s)))) =
      set (doomed head_schema ''workflows'' i (references_of (fst s)))"
proof -
  obtain w c where s: "s = (w, c)" by (cases s)
  have found: "\<exists>f. find_workflow w i = Some f \<and> wf_tenant_id f = T"
  proof (rule ccontr)
    assume "\<not> ?thesis"
    from delete_workflow_rejected [OF this, of E c] assms(2) s show False by auto
  qed
  then obtain f where "find_workflow w i = Some f" "wf_tenant_id f = T" by blast
  from delete_workflow_run [OF this, of E c] assms(2) s have "fst s' = cascade_delete i (opened E w)" by auto
  moreover have "references_of (opened E w) = references_of w" by (simp add: fun_eq_iff references_of_def opened_def)
  moreover have "primary_keys (opened E w)" using assms(1) s by (simp add: primary_keys_def opened_def)
  ultimately show ?thesis
    using cascade_delete_rows [of "opened E w" i n] doomed_closed s by simp
qed

theorem deletion_follows_schema_witness:
  "references_of (fst (snd (delete_workflow demo_env 7 3 (service_world Failed, new_cache 10 300)))) ''step_executions'' = [] \<and>
    delete_row head_schema ''workflows'' 3 (references_of (service_world Failed)) ''step_executions'' = []"
proof -
  have run: "delete_workflow demo_env 7 3 (service_world Failed, new_cache 10 300) =
      (Inr True, (cascade_delete 3 (opened demo_env (service_world Failed)), invalidate 3 (new_cache 10 300)))"
    by (rule delete_workflow_run [OF service_simps(6)]) (simp add: demo_flow_def)
  have keys: "primary_keys (fst (service_world Failed, new_cache 10 300))"
    by (simp add: primary_keys_def service_world_def empty_world_def)
  have gone: "references_of (cascade_delete 3 (opened demo_env (service_world Failed))) ''step_executions'' = []"
    by (simp add: references_of_simps cascade_delete_def Let_def opened_def service_world_def stored_execution_def
        new_execution_def new_step_def)
  from deletion_follows_schema [OF keys run, of "''step_executions''"] run gone show ?thesis by simp
qed

end
