(* ===== verification/Spec2Isabelle.thy ===== *)
theory Spec2Isabelle
  imports Definition_Properties Run_Properties Service_Properties Operations_Properties System_Properties
begin

text \<open>
  A verification development for the workflow automation engine: a multi-tenant HTTP service
  (\<open>src/\<close>, Python) that stores workflow definitions, starts runs of them by hand, by webhook or
  on a schedule, and executes their steps in dependency order.

  \<^bold>\<open>The program and its parts.\<close> A tenant registers and gets a key (\<open>src/tenants\<close>). A request
  passes the authentication and the rate limit (\<open>src/api/middleware\<close>, assembled in
  \<open>src/main.py\<close>) and reaches a handler (\<open>src/api\<close>). Workflow definitions are checked by the
  parser (\<open>src/engine/parser.py\<close>, with the graph checks of \<open>graph.py\<close>) before they are stored.
  A trigger (\<open>src/triggers\<close>, \<open>src/replay\<close>) looks a workflow up and calls
  \<open>start_execution\<close> (\<open>src/engine/orchestrator.py\<close>), which creates the rows of the run, walks the
  steps in topological order, runs each with its executor (\<open>src/steps\<close>) and its retries, moves
  rows through the state machine (\<open>src/engine/state.py\<close>), merges outputs into the shared context
  (\<open>src/engine/context.py\<close>) and skips the steps of the branch a condition does not take.
  Periodic jobs and a queue worker (\<open>src/queue\<close>) work on the same tables.

  \<^bold>\<open>How it is modelled.\<close> A row of a table is a record with the fields of the ORM model; the
  database, the log of structured events and the counter of readings of the outside form the
  record \<open>world\<close>. A function with effects is a \<open>proc\<close>: it takes the world and returns a result or
  an exception (\<open>exn\<close>: the service's \<open>AppError\<close> or a Python exception by name) together with the
  new world. One \<open>async with\<close> block over a session is \<open>in_session\<close>, which rolls the tables back
  when the block raises. Pure functions are HOL functions; JSON values are the datatype \<open>json\<close>, a
  dictionary is an association list in insertion order. Everything is executable.

  \<^bold>\<open>Theories.\<close>
  \<^item> \<open>Prelude\<close>: JSON, dictionaries, exceptions, the state-and-exception monad, Python strings.
  \<^item> \<open>Config\<close>: \<open>src/config.py\<close>. \<open>Codecs\<close>: base64 and splitting; the locales \<open>text_codec\<close> and
    \<open>delimited_pair\<close> for texts that parse back. \<open>Uuid\<close>, \<open>Datetime\<close>: the text forms of
    \<open>uuid.UUID\<close> and \<open>datetime\<close> with the proleptic calendar.
  \<^item> \<open>World\<close>: \<open>src/db/models\<close>, the environment, the tables (locale \<open>row_store\<close>, interpreted
    for executions, steps and workflows).
  \<^item> \<open>StateMachine\<close>: \<open>src/engine/state.py\<close>; locale for a status column with its table of
    transitions. \<open>WorkflowDef\<close>, \<open>Graph\<close>, \<open>Topo\<close>, \<open>Parser\<close>: \<open>src/engine/models.py\<close>,
    \<open>graph.py\<close>, \<open>parser.py\<close> and the topological sort of the orchestrator.
  \<^item> \<open>Expressions\<close>, \<open>Context\<close>, \<open>Steps\<close>: \<open>src/lib/expressions.py\<close>,
    \<open>src/engine/context.py\<close>, \<open>src/steps\<close>. \<open>Orchestrator\<close>: \<open>src/engine/orchestrator.py\<close>.
  \<^item> \<open>Frames\<close>, \<open>Execution\<close>, \<open>Runs\<close>, \<open>Nesting\<close>: lemmas on runs. \<open>evolves\<close> says which rows an
    operation may touch, \<open>walk_inv\<close> is the invariant of the walk, the locale \<open>step_runner\<close> is the
    contract between the walk and whatever runs a step, interpreted on the engine's own runner at
    every depth of nesting.
  \<^item> \<open>Pagination\<close>, \<open>Cursors\<close>: cursors as values (locale \<open>keyed_rows\<close>) and as texts.
    \<open>ExecutionApi\<close>: \<open>src/api/executions.py\<close>, \<open>src/triggers/manual.py\<close>,
    \<open>src/replay/service.py\<close>. \<open>Cache\<close>: \<open>src/lib/cache.py\<close>. \<open>Workflows\<close>:
    \<open>src/api/workflows.py\<close>. \<open>Tenants\<close>: \<open>src/tenants\<close>, the two middleware, the error
    responses. \<open>Webhooks\<close>: \<open>src/api/webhooks.py\<close>, \<open>src/triggers/webhook.py\<close>.
  \<^item> \<open>Jobs\<close>, \<open>Worker\<close>, \<open>Cron\<close>: \<open>src/queue\<close>, \<open>src/engine/logging.py\<close>,
    \<open>src/triggers/cron.py\<close>. \<open>App\<close>: \<open>src/main.py\<close>. \<open>Seed\<close>: \<open>src/tenants/seed.py\<close>.
    \<open>Metrics\<close>: \<open>src/api/metrics.py\<close>, \<open>src/api/health.py\<close>. \<open>EventStream\<close>: the event
    stream of \<open>src/api/executions.py\<close>.
  \<^item> \<open>Invariants\<close>: the locales \<open>run_invariant\<close> and \<open>service_invariant\<close>, the contract of an
    invariant of the service (what it lets an operation draw, insert and change for a tenant);
    inside them every operation is shown to keep it, and \<open>acts\<close> collects the operations.
    \<open>Isolation\<close> interprets the contract with "the rows of this tenant are what they were",
    \<open>Reachable\<close> with "each identifier is used by one tenant", "the workflows stay" and "no step row
    has a configuration, and the tenants stay", and defines the reachable states of the service.
  \<^item> \<open>Migrations\<close>: the revisions of \<open>src/db/migrations\<close> as lists of statements on a schema, what
    the models of \<open>src/db/models\<close> declare, and deletion along foreign keys. \<open>Runtime\<close>: the Redis
    clients (\<open>src/db/redis.py\<close>), the lifespan of \<open>src/main.py\<close>, \<open>src/lib/logger.py\<close>, the arq
    worker (\<open>src/queue/worker.py\<close>) and \<open>dispatch_step\<close>.
  \<^item> \<open>Demo\<close>: a concrete environment and concrete rows. The theories named after properties hold
    the properties, each with an instance: \<open>Definition_Properties\<close> (parser and graph),
    \<open>Run_Properties\<close> (state machine, context, steps, runs), \<open>Service_Properties\<close> (handlers,
    cache, tenants, webhooks), \<open>Operations_Properties\<close> (jobs, worker, schedule, cursors) and
    \<open>System_Properties\<close> (request stack, seed, statistics, isolation of tenants, reachable states, schema).

  \<^bold>\<open>What is shown.\<close> The parser accepts exactly the declared well-formed definitions, always
  returns, and rejects with the documented codes; the execution order is a topological order and
  the depth check is exact. A run of an accepted definition always ends, completed or failed, and
  in both cases every step row, the context and the history are as the definition demands; it
  touches no row that existed. The state machine keeps every row on a path of its table.
  Cancelling, replaying, deleting, updating, listing, logging and the periodic jobs do to the
  tables exactly what they should. Definitions stay parsable and paths unique. Requests without a
  good key reach no handler; signatures guard webhooks; limits are exact. Cursors, log entries and
  keys are read back as they were written. Whatever other tenants do, in any order, the rows of a
  tenant and all it reads stay as they are. In every reachable state keys are distinct, fresh
  identifiers fresh, workflows in order, key prefixes unique, step rows without a configuration and
  tenants separated, so that the hypotheses of the other properties hold there, and a triggered run
  settles. The migrations build the schema the models declare,
  downgrades undo upgrades, and the handler that deletes a workflow writes the tables the foreign
  keys of that schema leave. Where the code does not do what it means to, the
  theorem states what it does: sub-workflows without mutation tracking, concurrent merges, the
  worker's configuration, the schedule with one bad expression.

  \<^bold>\<open>Parameters.\<close> The record \<open>env\<close> holds what the code asks of the outside, numbered by reading:
  clock, UUIDs, random tokens, template engine, HTTP client, password hashes, HMAC, the texts and
  coercions of the validation library, and whether the ORM tracks changes inside a JSON column.
  Redis (\<open>redis_ops\<close>, the polls of a channel in \<open>EventStream\<close>), arq's pool (\<open>pool_ops\<close>),
  \<open>urlparse\<close>, APScheduler (\<open>scheduler_lib\<close>), \<open>json.loads\<close>, the CORS middleware, the SQL average and parts of the standard library's text readers (\<open>text_lib\<close>) are parameters of the
  definitions that use them. The only hypotheses on them are that fresh identifiers are fresh
  (\<open>fresh_ids\<close>), that identifiers have 128 bits, that a counter counts, that a hash accepts what
  was hashed, and the laws of a job store (\<open>scheduler_laws\<close>); each has an instance.

  \<^bold>\<open>Bounds and fuel.\<close> Nested runs have as fuel the configured depth; \<open>nesting_bound_enough\<close> shows
  that any larger amount gives the same run, because the depth stored in the context stops the
  nesting first. The loop that reconstructs a cycle is a partial function; \<open>parse_total\<close> shows
  that the parser returns. The retry loop recurses on the attempts left. All other functions
  terminate by their structure or a measure.

  \<^bold>\<open>Not modelled.\<close> Set-up calls of third-party code without a state of the service: the size
  of the connection pool, the options of CORS, the registration of the routers. Alembic's choice
  of the revisions to run and its offline mode, which prints SQL. Of PostgreSQL, only what its
  documentation says of the statements used: names that exist or not, keys and their cascades,
  transactions; no query plans, locks or isolation levels. Characters are code points below 256.
  A session is run without interleaving with others, except for the one race the code names: the
  merge of an output is split where the code awaits the database, into its read and its write, and
  \<open>concurrent_merge_loses\<close> interleaves the two of two sessions. The sleep of a delay takes no time.
\<close>

end
